(* ===== verification/GoPrelude.thy ===== *)
theory GoPrelude
  imports Complex_Main "HOL-Library.AList" "HOL-Library.Multiset" "HOL-Library.Monad_Syntax"
    "HOL-Library.Char_ord" "HOL-Library.List_Lexorder" "HOL-Library.Sublist"
begin

text \<open>
  What the components of the capacity manager share: Go maps as association lists, the
  choices the Go runtime and its standard library leave open (map iteration order,
  \<open>rand.Shuffle\<close>, the order \<open>sort.Slice\<close> gives to ties, the clock), 64-bit integers, and
  the few string operations of \<open>strings\<close>, \<open>path\<close>, \<open>strconv\<close> and \<open>fmt\<close> the source calls.

  A panic of the Go code (a nil pointer dereference, an index out of range) is the value
  \<open>None\<close> of an option; the \<open>do\<close> notation of the option monad stops at the first one.
\<close>

named_theorems go_simps \<open>unfolding rules of the shared Go operations\<close>
named_theorems choices_intros \<open>facts that hold of every admissible choices\<close>

section \<open>Go maps\<close>

text \<open>
  Every map of the program has string keys. A map is an association list; its keys are
  distinct in every state the program builds (\<open>gomap_ok\<close>). Assigning an existing key
  replaces the value, assigning a new one adds it.
\<close>

type_synonym 'v gomap = "(string \<times> 'v) list"

definition gomap_ok :: "'v gomap \<Rightarrow> bool" where
  "gomap_ok m \<longleftrightarrow> distinct (map fst m)"

abbreviation gget :: "'v gomap \<Rightarrow> string \<Rightarrow> 'v option" where
  "gget m k \<equiv> map_of m k"

abbreviation gset :: "string \<Rightarrow> 'v \<Rightarrow> 'v gomap \<Rightarrow> 'v gomap" where
  "gset k v m \<equiv> AList.update k v m"

abbreviation gdelete :: "string \<Rightarrow> 'v gomap \<Rightarrow> 'v gomap" where
  "gdelete k m \<equiv> AList.delete k m"

definition gget_default :: "'v \<Rightarrow> 'v gomap \<Rightarrow> string \<Rightarrow> 'v" where
  "gget_default d m k = (case gget m k of None \<Rightarrow> d | Some v \<Rightarrow> v)"

lemma gomap_ok_Nil [simp]: "gomap_ok []"
  by (simp add: gomap_ok_def)

lemma gomap_ok_gset [simp]: "gomap_ok m \<Longrightarrow> gomap_ok (gset k v m)"
  by (simp add: gomap_ok_def distinct_update)

lemma gomap_ok_gdelete [simp]: "gomap_ok m \<Longrightarrow> gomap_ok (gdelete k m)"
  by (simp add: gomap_ok_def distinct_delete)

lemma gget_gset [simp]: "gget (gset k v m) k' = (if k' = k then Some v else gget m k')"
  by (simp add: update_conv')

lemma gget_gdelete [simp]: "gget (gdelete k m) k' = (if k' = k then None else gget m k')"
  by (simp add: delete_conv')

lemma dom_gset: "fst ` set (gset k v m) = insert k (fst ` set m)"
  by (simp add: dom_update insert_commute flip: dom_map_of_conv_image_fst) (auto simp: update_conv')

lemma gget_default_gset [simp]:
  "gget_default d (gset k v m) k' = (if k' = k then v else gget_default d m k')"
  by (simp add: gget_default_def)

lemma gget_default_Nil [simp]: "gget_default d [] k = d"
  by (simp add: gget_default_def)

lemma gget_in_set: "gget m k = Some v \<Longrightarrow> (k, v) \<in> set m"
  by (rule map_of_SomeD)

lemma gomap_in_set_iff: "gomap_ok m \<Longrightarrow> (k, v) \<in> set m \<longleftrightarrow> gget m k = Some v"
  by (auto simp: gomap_ok_def dest: map_of_SomeD)

section \<open>Choices left open by the runtime and the standard library\<close>

text \<open>
  Go does not fix the order in which \<open>range\<close> visits a map, and picks a fresh one for every
  loop; \<open>rand.Shuffle\<close> permutes at random; \<open>sort.Slice\<close> is not stable. All three are read from
  a record of choices. A site, a list of numbers, names the dynamic occurrence of the choice: a
  caller hands each callee, and each round of a loop, its own part of the choices
  (\<open>sub\<close>), so no two occurrences are forced to agree.
  \<^item> \<open>o_order site ks\<close> is the order in which a \<open>range\<close> loop visits the keys \<open>ks\<close>;
  \<^item> \<open>o_shuffle site n\<close> is the permutation of \<open>0..<n\<close> a shuffle of \<open>n\<close> elements applies;
  \<^item> \<open>o_sort site n lt\<close> is the permutation of \<open>0..<n\<close> that \<open>sort.Slice\<close> applies to \<open>n\<close>
    elements compared by \<open>lt\<close>;
  \<^item> \<open>o_now site\<close> is \<open>time.Now()\<close>, in seconds.
\<close>

record choices =
  o_order :: "nat list \<Rightarrow> string list \<Rightarrow> string list"
  o_shuffle :: "nat list \<Rightarrow> nat \<Rightarrow> nat list"
  o_sort :: "nat list \<Rightarrow> nat \<Rightarrow> (nat \<Rightarrow> nat \<Rightarrow> bool) \<Rightarrow> nat list"
  o_now :: "nat list \<Rightarrow> int"

definition sub :: "nat \<Rightarrow> choices \<Rightarrow> choices" where
  "sub n os = \<lparr>o_order = (\<lambda>p. o_order os (n # p)), o_shuffle = (\<lambda>p. o_shuffle os (n # p)),
     o_sort = (\<lambda>p. o_sort os (n # p)), o_now = (\<lambda>p. o_now os (n # p))\<rparr>"

text \<open>A comparison that \<open>sort.Slice\<close> accepts: a strict weak ordering on \<open>0..<n\<close>.\<close>

definition strict_weak_on :: "nat \<Rightarrow> (nat \<Rightarrow> nat \<Rightarrow> bool) \<Rightarrow> bool" where
  "strict_weak_on n lt \<longleftrightarrow>
     (\<forall>i<n. \<not> lt i i) \<and>
     (\<forall>i<n. \<forall>j<n. \<forall>k<n. lt i j \<longrightarrow> lt j k \<longrightarrow> lt i k) \<and>
     (\<forall>i<n. \<forall>j<n. \<forall>k<n. lt i k \<longrightarrow> lt i j \<or> lt j k)"

text \<open>
  The documented behaviour of the three: each yields a permutation, and the result of
  \<open>sort.Slice\<close> is sorted when the comparison is a strict weak ordering.
\<close>

definition choices_ok :: "choices \<Rightarrow> bool" where
  "choices_ok os \<longleftrightarrow>
     (\<forall>p ks. mset (o_order os p ks) = mset ks) \<and>
     (\<forall>p n. mset (o_shuffle os p n) = mset [0..<n]) \<and>
     (\<forall>p n lt. mset (o_sort os p n lt) = mset [0..<n] \<and>
        (strict_weak_on n lt \<longrightarrow> sorted_wrt (\<lambda>i j. \<not> lt j i) (o_sort os p n lt)))"

lemma choices_ok_sub [simp, choices_intros]: "choices_ok os \<Longrightarrow> choices_ok (sub n os)"
  by (simp add: choices_ok_def sub_def)

definition range_map :: "choices \<Rightarrow> 'v gomap \<Rightarrow> 'v gomap" where
  "range_map os m = map (\<lambda>k. (k, the (gget m k))) (o_order os [] (map fst m))"

definition range_vals :: "choices \<Rightarrow> 'v gomap \<Rightarrow> 'v list" where
  "range_vals os m = map snd (range_map os m)"

definition permute :: "nat list \<Rightarrow> 'a list \<Rightarrow> 'a list" where
  "permute is xs = map (\<lambda>i. xs ! i) is"

definition shuffle_slice :: "choices \<Rightarrow> 'a list \<Rightarrow> 'a list" where
  "shuffle_slice os xs = permute (o_shuffle os [] (length xs)) xs"

definition sort_slice :: "choices \<Rightarrow> ('a \<Rightarrow> 'a \<Rightarrow> bool) \<Rightarrow> 'a list \<Rightarrow> 'a list" where
  "sort_slice os lt xs =
     permute (o_sort os [] (length xs) (\<lambda>i j. lt (xs ! i) (xs ! j))) xs"

definition time_now :: "choices \<Rightarrow> int" where
  "time_now os = o_now os []"

lemma choices_order_mset: "choices_ok os \<Longrightarrow> mset (o_order os p ks) = mset ks"
  by (simp add: choices_ok_def)

lemma map_keys_lookup: "distinct (map fst m) \<Longrightarrow> map (\<lambda>k. (k, the (map_of m k))) (map fst m) = m"
  by (auto intro!: map_idI)

lemma mset_range_map:
  assumes "choices_ok os" "gomap_ok m"
  shows "mset (range_map os m) = mset m"
proof -
  have "mset (range_map os m) =
      image_mset (\<lambda>k. (k, the (gget m k))) (mset (o_order os [] (map fst m)))"
    by (simp add: range_map_def)
  also have "\<dots> = mset (map (\<lambda>k. (k, the (gget m k))) (map fst m))"
    by (simp only: choices_order_mset [OF assms(1)] mset_map)
  also have "\<dots> = mset m"
    using assms(2) by (simp only: gomap_ok_def map_keys_lookup)
  finally show ?thesis .
qed

lemma set_range_map [simp]: "choices_ok os \<Longrightarrow> gomap_ok m \<Longrightarrow> set (range_map os m) = set m"
  by (metis mset_range_map mset_eq_setD)

lemma mset_range_vals: "choices_ok os \<Longrightarrow> gomap_ok m \<Longrightarrow> mset (range_vals os m) = mset (map snd m)"
  by (simp add: range_vals_def mset_range_map)

lemma set_range_vals [simp]: "choices_ok os \<Longrightarrow> gomap_ok m \<Longrightarrow> set (range_vals os m) = snd ` set m"
  by (simp add: range_vals_def)

lemma mset_permute:
  assumes "mset is = mset [0..<length xs]"
  shows "mset (permute is xs) = mset xs"
proof -
  have "mset (permute is xs) = mset (map (\<lambda>i. xs ! i) [0..<length xs])"
    using assms by (simp add: permute_def)
  then show ?thesis by (simp add: map_nth)
qed

lemma mset_shuffle_slice [simp]: "choices_ok os \<Longrightarrow> mset (shuffle_slice os xs) = mset xs"
  by (simp add: shuffle_slice_def choices_ok_def mset_permute)

lemma set_shuffle_slice [simp]: "choices_ok os \<Longrightarrow> set (shuffle_slice os xs) = set xs"
  by (metis mset_shuffle_slice mset_eq_setD)

lemma mset_sort_slice [simp]: "choices_ok os \<Longrightarrow> mset (sort_slice os lt xs) = mset xs"
  by (simp add: sort_slice_def choices_ok_def mset_permute)

lemma set_sort_slice [simp]: "choices_ok os \<Longrightarrow> set (sort_slice os lt xs) = set xs"
  by (metis mset_sort_slice mset_eq_setD)

lemma length_sort_slice [simp]: "choices_ok os \<Longrightarrow> length (sort_slice os lt xs) = length xs"
  by (metis mset_sort_slice size_mset)

lemma sorted_sort_slice:
  assumes ok: "choices_ok os"
    and irrefl: "\<And>x. x \<in> set xs \<Longrightarrow> \<not> lt x x"
    and trans: "\<And>x y z. x \<in> set xs \<Longrightarrow> y \<in> set xs \<Longrightarrow> z \<in> set xs \<Longrightarrow> lt x y \<Longrightarrow> lt y z \<Longrightarrow> lt x z"
    and cotrans: "\<And>x y z. x \<in> set xs \<Longrightarrow> y \<in> set xs \<Longrightarrow> z \<in> set xs \<Longrightarrow> lt x z \<Longrightarrow> lt x y \<or> lt y z"
  shows "sorted_wrt (\<lambda>x y. \<not> lt y x) (sort_slice os lt xs)"
proof -
  have "strict_weak_on (length xs) (\<lambda>i j. lt (xs ! i) (xs ! j))"
    unfolding strict_weak_on_def using irrefl trans cotrans by (meson nth_mem)
  with ok show ?thesis
    by (simp add: choices_ok_def sort_slice_def permute_def sorted_wrt_map)
qed

text \<open>
  An admissible choices: maps are visited in the order of their association list, a shuffle
  leaves its slice alone, and sorting is the insertion sort that \<open>sort.Slice\<close> runs on
  slices of at most twelve elements.
\<close>

fun ins_by :: "('a \<Rightarrow> 'a \<Rightarrow> bool) \<Rightarrow> 'a \<Rightarrow> 'a list \<Rightarrow> 'a list" where
  "ins_by lt x [] = [x]"
| "ins_by lt x (y # ys) = (if lt x y then x # y # ys else y # ins_by lt x ys)"

definition insertion_sort :: "('a \<Rightarrow> 'a \<Rightarrow> bool) \<Rightarrow> 'a list \<Rightarrow> 'a list" where
  "insertion_sort lt xs = foldl (\<lambda>ys x. ins_by lt x ys) [] xs"

definition std_choices :: choices where
  "std_choices = \<lparr>o_order = (\<lambda>_ ks. ks), o_shuffle = (\<lambda>_ n. [0..<n]),
     o_sort = (\<lambda>_ n lt. insertion_sort lt [0..<n]), o_now = (\<lambda>_. 1000)\<rparr>"

lemma mset_ins_by [simp]: "mset (ins_by lt x ys) = add_mset x (mset ys)"
  by (induction ys) auto

lemma set_ins_by [simp]: "set (ins_by lt x ys) = insert x (set ys)"
  by (metis mset_ins_by set_mset_add_mset_insert set_mset_mset)

lemma mset_insertion_sort_aux: "mset (foldl (\<lambda>ys x. ins_by lt x ys) acc xs) = mset acc + mset xs"
  by (induction xs arbitrary: acc) auto

lemma sorted_ins_by:
  assumes "strict_weak_on n lt" "x < n" "\<forall>y \<in> set ys. y < n"
    "sorted_wrt (\<lambda>i j. \<not> lt j i) ys"
  shows "sorted_wrt (\<lambda>i j. \<not> lt j i) (ins_by lt x ys)"
  using assms(3,4)
proof (induction ys)
  case (Cons y ys)
  show ?case
  proof (cases "lt x y")
    case True
    have "\<not> lt z x" if "z \<in> set (y # ys)" for z
      using assms(1,2) Cons.prems that True unfolding strict_weak_on_def
      by (metis list.set_intros(1) set_ConsD sorted_wrt.simps(2))
    with True Cons.prems show ?thesis by simp
  next
    case False
    with Cons show ?thesis by auto
  qed
qed simp

lemma sorted_insertion_sort_aux:
  assumes "strict_weak_on n lt" "\<forall>y \<in> set acc \<union> set xs. y < n"
    "sorted_wrt (\<lambda>i j. \<not> lt j i) acc"
  shows "sorted_wrt (\<lambda>i j. \<not> lt j i) (foldl (\<lambda>ys x. ins_by lt x ys) acc xs)"
  using assms(2,3)
proof (induction xs arbitrary: acc)
  case (Cons x xs)
  have "sorted_wrt (\<lambda>i j. \<not> lt j i) (ins_by lt x acc)"
    using Cons.prems by (intro sorted_ins_by [OF assms(1)]) auto
  with Cons show ?case by simp
qed simp

lemma std_choices_ok [simp, choices_intros]: "choices_ok std_choices"
  unfolding choices_ok_def std_choices_def insertion_sort_def
  by (auto simp: mset_insertion_sort_aux intro!: sorted_insertion_sort_aux)

lemma sub_std_choices [simp]: "sub n std_choices = std_choices"
  by (simp add: sub_def std_choices_def)

lemma range_map_std [simp]: "gomap_ok m \<Longrightarrow> range_map std_choices m = m"
  by (simp add: range_map_def std_choices_def gomap_ok_def map_keys_lookup del: map_map)

section \<open>64-bit integers\<close>

text \<open>Go's \<open>int\<close> has 64 bits here; a sum or difference that leaves the range wraps around.\<close>

definition wrap64 :: "int \<Rightarrow> int" where
  "wrap64 x = (x + 2 ^ 63) mod 2 ^ 64 - 2 ^ 63"

definition int64 :: "int \<Rightarrow> bool" where
  "int64 x \<longleftrightarrow> - (2 ^ 63) \<le> x \<and> x < 2 ^ 63"

lemma wrap64_id: "int64 x \<Longrightarrow> wrap64 x = x"
  by (simp add: wrap64_def int64_def)

lemma int64_wrap64 [simp]: "int64 (wrap64 x)"
  unfolding wrap64_def int64_def by simp

lemma wrap64_wrap64_add: "wrap64 (wrap64 x + y) = wrap64 (x + y)"
  unfolding wrap64_def by (simp add: mod_simps ac_simps)

lemma wrap64_wrap64_diff: "wrap64 (x - wrap64 y) = wrap64 (x - y)"
proof -
  have "x - ((y + 2 ^ 63) mod 2 ^ 64 - 2 ^ 63) + 2 ^ 63 = x + 2 ^ 64 - (y + 2 ^ 63) mod 2 ^ 64"
    by simp
  then show ?thesis
    unfolding wrap64_def by (simp add: mod_simps algebra_simps)
qed

section \<open>Strings\<close>

text \<open>\<open>strings.Contains\<close>, \<open>strings.Split\<close> and \<open>strings.ReplaceAll\<close> with one-byte separators.\<close>

fun str_contains :: "string \<Rightarrow> string \<Rightarrow> bool" where
  "str_contains [] t = (t = [])"
| "str_contains (c # cs) t = (take (length t) (c # cs) = t \<or> str_contains cs t)"

fun str_split :: "char \<Rightarrow> string \<Rightarrow> string list" where
  "str_split sep [] = [[]]"
| "str_split sep (c # cs) =
     (case str_split sep cs of
        [] \<Rightarrow> [[c]]
      | t # ts \<Rightarrow> if c = sep then [] # t # ts else (c # t) # ts)"

definition str_replace :: "char \<Rightarrow> char \<Rightarrow> string \<Rightarrow> string" where
  "str_replace a b s = map (\<lambda>c. if c = a then b else c) s"

text \<open>The second result of \<open>path.Split\<close>: what follows the final slash.\<close>

definition path_base :: "string \<Rightarrow> string" where
  "path_base s = rev (takeWhile (\<lambda>c. c \<noteq> CHR ''/'') (rev s))"

lemma str_contains_sublist: "str_contains s t \<longleftrightarrow> sublist t s"
proof (induction s)
  case (Cons c cs)
  have "take (length t) (c # cs) = t \<longleftrightarrow> prefix t (c # cs)"
    by (metis append_eq_conv_conj prefix_def)
  with Cons show ?case by (simp add: sublist_Cons_right)
qed simp

lemma str_split_not_Nil [simp]: "str_split sep s \<noteq> []"
  by (induction s) (auto split: list.splits)

lemma path_base_id: "CHR ''/'' \<notin> set s \<Longrightarrow> path_base s = s"
proof -
  assume "CHR ''/'' \<notin> set s"
  then have "\<forall>c \<in> set (rev s). c \<noteq> CHR ''/''" by auto
  then have "takeWhile (\<lambda>c. c \<noteq> CHR ''/'') (rev s) = rev s"
    by (simp only: takeWhile_eq_all_conv)
  then show ?thesis by (simp only: path_base_def rev_rev_ident)
qed

lemma path_base_Cons:
  "path_base (c # s) = (if CHR ''/'' \<in> set s \<or> c = CHR ''/'' then path_base s else c # s)"
proof (cases "CHR ''/'' \<in> set s")
  case True
  then show ?thesis by (simp add: path_base_def)
next
  case False
  then show ?thesis
    using path_base_id [OF False] path_base_id [of "c # s"]
    by (cases "c = CHR ''/''") (simp_all add: path_base_def takeWhile_append)
qed

lemma str_split_no_sep: "sep \<notin> set s \<Longrightarrow> str_split sep s = [s]"
  by (induction s) auto

lemma str_split_sep: "sep \<in> set s \<Longrightarrow> \<exists>t u us. str_split sep s = t # u # us"
proof (induction s)
  case (Cons c s)
  then show ?case
    by (cases "sep \<in> set s") (auto simp: str_split_no_sep split: list.splits)
qed simp

lemma last_str_split: "last (str_split (CHR ''/'') s) = path_base s"
proof (induction s)
  case (Cons c s)
  show ?case
  proof (cases "CHR ''/'' \<in> set s")
    case True
    with Cons show ?thesis using str_split_sep [OF True] by (auto simp: path_base_Cons)
  next
    case False
    then show ?thesis by (simp add: str_split_no_sep path_base_Cons path_base_id)
  qed
qed (simp add: path_base_def)

lemma path_base_no_slash: "CHR ''/'' \<notin> set (path_base s)"
  by (auto simp: path_base_def dest: set_takeWhileD)

lemma path_base_append: "CHR ''/'' \<notin> set t \<Longrightarrow> path_base (s @ CHR ''/'' # t) = t"
  by (simp add: path_base_def takeWhile_append takeWhile_eq_all_conv [THEN iffD2])

lemma str_replace_not_contains:
  "a \<noteq> b \<Longrightarrow> \<not> str_contains (str_replace a b s) [a]"
  by (auto simp: str_contains_sublist str_replace_def sublist_def Cons_eq_append_conv
      map_eq_append_conv map_eq_Cons_conv split: if_splits)

text \<open>Decimal output (\<open>%d\<close>) and double-quoted output (\<open>%q\<close>; bytes from 128 on are copied).\<close>

fun show_nat :: "nat \<Rightarrow> string" where
  "show_nat n = (if n < 10 then [char_of (48 + n)] else show_nat (n div 10) @ [char_of (48 + n mod 10)])"

declare show_nat.simps [simp del]

definition show_int :: "int \<Rightarrow> string" where
  "show_int i = (if i < 0 then CHR ''-'' # show_nat (nat (- i)) else show_nat (nat i))"

definition hex_digit :: "nat \<Rightarrow> char" where
  "hex_digit n = (if n < 10 then char_of (48 + n) else char_of (87 + n))"

definition quote_char :: "char \<Rightarrow> string" where
  "quote_char c =
     (let n = (of_char c :: nat) in
      if c = CHR 0x22 \<or> c = CHR 0x5C then [CHR 0x5C, c]
      else if n = 7 then [CHR 0x5C, CHR ''a'']
      else if n = 8 then [CHR 0x5C, CHR ''b'']
      else if n = 12 then [CHR 0x5C, CHR ''f'']
      else if n = 10 then [CHR 0x5C, CHR ''n'']
      else if n = 13 then [CHR 0x5C, CHR ''r'']
      else if n = 9 then [CHR 0x5C, CHR ''t'']
      else if n = 11 then [CHR 0x5C, CHR ''v'']
      else if n < 32 \<or> n = 127 then [CHR 0x5C, CHR ''x'', hex_digit (n div 16), hex_digit (n mod 16)]
      else [c])"

definition quote :: "string \<Rightarrow> string" where
  "quote s = CHR 0x22 # concat (map quote_char s) @ [CHR 0x22]"

end
