(* ===== verification/ApiTypes.thy ===== *)
theory ApiTypes
  imports GoPrelude
begin

text \<open>
  The API types of \<^verbatim>\<open>pkg/apis/vspherecapacitymanager.splat.io/v1\<close>: leases, pools, networks,
  taints, tolerations, conditions and the constants the controllers compare against, with
  the part of the Kubernetes object metadata the program reads or writes. A Go string type
  (\<open>Phase\<close>, \<open>NetworkType\<close>, \<open>ConditionType\<close>, ...) stays a string, since the code compares
  values that may be none of its constants. A pointer field is an option, a time is a number
  of seconds with 0 for the zero time, a slice or map whose nil value the code
  tells from the empty one is an option too.
\<close>

section \<open>Constants\<close>

abbreviation "PHASE_FULFILLED \<equiv> ''Fulfilled''"
abbreviation "PHASE_PARTIAL \<equiv> ''Partial''"
abbreviation "PHASE_PENDING \<equiv> ''Pending''"
abbreviation "PHASE_FAILED \<equiv> ''Failed''"

abbreviation "NetworkTypeDisconnected \<equiv> ''disconnected''"
abbreviation "NetworkTypeSingleTenant \<equiv> ''single-tenant''"
abbreviation "NetworkTypeMultiTenant \<equiv> ''multi-tenant''"

abbreviation "LeaseFinalizer \<equiv> ''vsphere-capacity-manager.splat-team.io/lease-finalizer''"
abbreviation "LeaseNamespace \<equiv> ''vsphere-capacity-manager.splat-team.io/lease-namespace''"
abbreviation "PoolFinalizer \<equiv> ''vsphere-capacity-manager.splat-team.io/pool-finalizer''"
abbreviation "NetworkFinalizer \<equiv> ''vsphere-capacity-manager.splat-team.io/network-finalizer''"
abbreviation "NetworkTypeLabel \<equiv> ''vsphere-capacity-manager.splat-team.io/network-type''"

abbreviation "TolerationOpExists \<equiv> ''Exists''"
abbreviation "TolerationOpEqual \<equiv> ''Equal''"
abbreviation "TaintEffectNoSchedule \<equiv> ''NoSchedule''"
abbreviation "TaintEffectPreferNoSchedule \<equiv> ''PreferNoSchedule''"

abbreviation "LeaseConditionTypeDelayed \<equiv> ''Delayed''"
abbreviation "LeaseConditionTypeFulfilled \<equiv> ''Fulfilled''"
abbreviation "LeaseConditionTypePartial \<equiv> ''Partial''"
abbreviation "LeaseConditionTypePending \<equiv> ''Pending''"
abbreviation "ConditionTrue \<equiv> ''True''"
abbreviation "ConditionFalse \<equiv> ''False''"
abbreviation "ConditionUnknown \<equiv> ''Unknown''"
abbreviation "ConditionSeverityError \<equiv> ''Error''"
abbreviation "ConditionSeverityWarning \<equiv> ''Warning''"
abbreviation "ConditionSeverityInfo \<equiv> ''Info''"
abbreviation "ReasonLeaseDelayed \<equiv> ''LeaseDelayed''"
abbreviation "ReasonLeasePartial \<equiv> ''LeasePartial''"
abbreviation "ReasonLeaseNoPool \<equiv> ''NoAvailablePool''"
abbreviation "ReasonLeaseUnschedulable \<equiv> ''Unschedulable''"

abbreviation "RESOURCE_ALLOCATION_STRATEGY_RANDOM \<equiv> ''random''"
abbreviation "RESOURCE_ALLOCATION_STRATEGY_UNDERUTILIZED \<equiv> ''under-utilized''"

section \<open>Object metadata\<close>

record OwnerReference =
  or_APIVersion :: string
  or_Kind :: string
  or_Name :: string
  or_UID :: string

record ObjectMeta =
  om_Name :: string
  om_Namespace :: string
  om_UID :: string
  om_Labels :: "string gomap"
  om_Annotations :: "string gomap option"
  om_Finalizers :: "string list option"
  om_OwnerReferences :: "OwnerReference list"
  om_CreationTimestamp :: int
  om_DeletionTimestamp :: "int option"

section \<open>Failure domains, conditions, taints and tolerations\<close>

record Topology =
  tp_Datacenter :: string
  tp_ComputeCluster :: string
  tp_Networks :: "string list"
  tp_Datastore :: string
  tp_ResourcePool :: string
  tp_Folder :: string
  tp_Template :: string

record FailureDomainSpec =
  fd_Name :: string
  fd_Region :: string
  fd_Zone :: string
  fd_Server :: string
  fd_Topology :: Topology
  fd_ShortName :: string

record Condition =
  c_Type :: string
  c_Status :: string
  c_Severity :: string
  c_LastTransitionTime :: int
  c_Reason :: string
  c_Message :: string

record Taint =
  ta_Key :: string
  ta_Value :: string
  ta_Effect :: string

record Toleration =
  tol_Key :: string
  tol_Operator :: string
  tol_Value :: string
  tol_Effect :: string

section \<open>Leases\<close>

record LeaseSpec =
  ls_VCpus :: int
  ls_Memory :: int
  ls_Pools :: int
  ls_VCenters :: int
  ls_MinVCenters :: int
  ls_Storage :: int
  ls_Networks :: int
  ls_RequiredPool :: string
  ls_PoolSelector :: "string gomap"
  ls_Tolerations :: "Toleration list"
  ls_NetworkType :: string
  ls_BoskosLeaseID :: string

record LeaseStatus =
  lst_FailureDomain :: FailureDomainSpec
  lst_PoolInfo :: "FailureDomainSpec list"
  lst_EnvVars :: string
  lst_EnvVarsMap :: "string gomap option"
  lst_Phase :: string
  lst_Conditions :: "Condition list"
  lst_JobLink :: string

record Lease =
  l_APIVersion :: string
  l_Kind :: string
  l_Meta :: ObjectMeta
  l_Spec :: LeaseSpec
  l_Status :: LeaseStatus

section \<open>Pools\<close>

record IBMPoolSpec =
  ibm_Pod :: string
  ibm_Datacenter :: string

record PoolSpec =
  ps_FailureDomain :: FailureDomainSpec
  ps_IBMPoolSpec :: IBMPoolSpec
  ps_VCpus :: int
  ps_OverCommitRatio :: string
  ps_Memory :: int
  ps_Storage :: int
  ps_Exclude :: bool
  ps_NoSchedule :: bool
  ps_Taints :: "Taint list"

record PoolStatus =
  pst_VCpusAvailable :: int
  pst_MemoryAvailable :: int
  pst_DatastoreAvailable :: int
  pst_NetworkAvailable :: int
  pst_SingleTenantNetworksTotal :: int
  pst_SingleTenantNetworksAvailable :: int
  pst_MultiTenantNetworksTotal :: int
  pst_MultiTenantNetworksAvailable :: int
  pst_LeaseCount :: int
  pst_Initialized :: bool

record Pool =
  p_APIVersion :: string
  p_Kind :: string
  p_Meta :: ObjectMeta
  p_Spec :: PoolSpec
  p_Status :: PoolStatus

section \<open>Networks\<close>

record NetworkSpec =
  ns_PortGroupName :: string
  ns_VlanId :: string
  ns_PodName :: "string option"
  ns_DatacenterName :: "string option"
  ns_Cidr :: "int option"
  ns_Gateway :: "string option"
  ns_IpAddressCount :: "nat option"
  ns_Netmask :: "string option"
  ns_SubnetType :: "string option"
  ns_MachineNetworkCidr :: string
  ns_IpAddresses :: "string list"
  ns_CidrIPv6 :: int
  ns_GatewayIPv6 :: string
  ns_IpV6prefix :: string
  ns_StartIPv6Address :: string
  ns_PrimaryRouterHostname :: string
  ns_Nameservers :: "string list"

record Network =
  n_APIVersion :: string
  n_Kind :: string
  n_Meta :: ObjectMeta
  n_Spec :: NetworkSpec

section \<open>Shorthands for embedded and nested fields\<close>

abbreviation "l_Name l \<equiv> om_Name (l_Meta l)"
abbreviation "l_Namespace l \<equiv> om_Namespace (l_Meta l)"
abbreviation "l_Labels l \<equiv> om_Labels (l_Meta l)"
abbreviation "l_OwnerReferences l \<equiv> om_OwnerReferences (l_Meta l)"
abbreviation "l_CreationTimestamp l \<equiv> om_CreationTimestamp (l_Meta l)"
abbreviation "l_DeletionTimestamp l \<equiv> om_DeletionTimestamp (l_Meta l)"
abbreviation "l_Phase l \<equiv> lst_Phase (l_Status l)"
abbreviation "l_Conditions l \<equiv> lst_Conditions (l_Status l)"
abbreviation "p_Name p \<equiv> om_Name (p_Meta p)"
abbreviation "p_Labels p \<equiv> om_Labels (p_Meta p)"
abbreviation "p_Server p \<equiv> fd_Server (ps_FailureDomain (p_Spec p))"
abbreviation "p_Topology p \<equiv> fd_Topology (ps_FailureDomain (p_Spec p))"
abbreviation "n_Name n \<equiv> om_Name (n_Meta n)"
abbreviation "n_PortGroupName n \<equiv> ns_PortGroupName (n_Spec n)"
abbreviation "n_VlanId n \<equiv> ns_VlanId (n_Spec n)"

definition set_owner_refs :: "OwnerReference list \<Rightarrow> Lease \<Rightarrow> Lease" where
  "set_owner_refs refs l = l\<lparr>l_Meta := (l_Meta l)\<lparr>om_OwnerReferences := refs\<rparr>\<rparr>"

definition set_phase :: "string \<Rightarrow> Lease \<Rightarrow> Lease" where
  "set_phase ph l = l\<lparr>l_Status := (l_Status l)\<lparr>lst_Phase := ph\<rparr>\<rparr>"

definition set_conditions :: "Condition list \<Rightarrow> Lease \<Rightarrow> Lease" where
  "set_conditions cs l = l\<lparr>l_Status := (l_Status l)\<lparr>lst_Conditions := cs\<rparr>\<rparr>"

definition set_status_networks :: "string list \<Rightarrow> Lease \<Rightarrow> Lease" where
  "set_status_networks ns l =
     l\<lparr>l_Status := (l_Status l)\<lparr>lst_FailureDomain := (lst_FailureDomain (l_Status l))\<lparr>fd_Topology :=
        (fd_Topology (lst_FailureDomain (l_Status l)))\<lparr>tp_Networks := ns\<rparr>\<rparr>\<rparr>\<rparr>"

named_theorems lease_upd \<open>how the lease setters act on each field\<close>

lemma set_owner_refs_simps [simp, lease_upd]:
  "l_OwnerReferences (set_owner_refs refs l) = refs"
  "l_Spec (set_owner_refs refs l) = l_Spec l"
  "l_Status (set_owner_refs refs l) = l_Status l"
  "om_Name (l_Meta (set_owner_refs refs l)) = l_Name l"
  "om_Labels (l_Meta (set_owner_refs refs l)) = l_Labels l"
  "om_Namespace (l_Meta (set_owner_refs refs l)) = l_Namespace l"
  by (simp_all add: set_owner_refs_def)

lemma set_phase_simps [simp, lease_upd]:
  "l_Phase (set_phase ph l) = ph"
  "l_Spec (set_phase ph l) = l_Spec l"
  "l_Meta (set_phase ph l) = l_Meta l"
  "lst_Conditions (l_Status (set_phase ph l)) = l_Conditions l"
  by (simp_all add: set_phase_def)

lemma set_conditions_simps [simp, lease_upd]:
  "l_Conditions (set_conditions cs l) = cs"
  "l_Spec (set_conditions cs l) = l_Spec l"
  "l_Meta (set_conditions cs l) = l_Meta l"
  "lst_Phase (l_Status (set_conditions cs l)) = l_Phase l"
  by (simp_all add: set_conditions_def)

section \<open>Default objects\<close>

text \<open>
  The zero value of each struct, which Go gives to a variable that has no initialiser;
  the examples of the development are built from them.
\<close>

definition zero_meta :: ObjectMeta where
  "zero_meta = \<lparr>om_Name = [], om_Namespace = [], om_UID = [], om_Labels = [], om_Annotations = None,
     om_Finalizers = None, om_OwnerReferences = [], om_CreationTimestamp = 0,
     om_DeletionTimestamp = None\<rparr>"

definition zero_topology :: Topology where
  "zero_topology = \<lparr>tp_Datacenter = [], tp_ComputeCluster = [], tp_Networks = [], tp_Datastore = [],
     tp_ResourcePool = [], tp_Folder = [], tp_Template = []\<rparr>"

definition zero_failure_domain :: FailureDomainSpec where
  "zero_failure_domain = \<lparr>fd_Name = [], fd_Region = [], fd_Zone = [], fd_Server = [],
     fd_Topology = zero_topology, fd_ShortName = []\<rparr>"

definition zero_lease_spec :: LeaseSpec where
  "zero_lease_spec = \<lparr>ls_VCpus = 0, ls_Memory = 0, ls_Pools = 0, ls_VCenters = 0, ls_MinVCenters = 0,
     ls_Storage = 0, ls_Networks = 0, ls_RequiredPool = [], ls_PoolSelector = [], ls_Tolerations = [],
     ls_NetworkType = [], ls_BoskosLeaseID = []\<rparr>"

definition zero_lease_status :: LeaseStatus where
  "zero_lease_status = \<lparr>lst_FailureDomain = zero_failure_domain, lst_PoolInfo = [], lst_EnvVars = [],
     lst_EnvVarsMap = None, lst_Phase = [], lst_Conditions = [], lst_JobLink = []\<rparr>"

definition zero_lease :: Lease where
  "zero_lease = \<lparr>l_APIVersion = [], l_Kind = [], l_Meta = zero_meta, l_Spec = zero_lease_spec,
     l_Status = zero_lease_status\<rparr>"

definition zero_pool_spec :: PoolSpec where
  "zero_pool_spec = \<lparr>ps_FailureDomain = zero_failure_domain,
     ps_IBMPoolSpec = \<lparr>ibm_Pod = [], ibm_Datacenter = []\<rparr>, ps_VCpus = 0, ps_OverCommitRatio = [],
     ps_Memory = 0, ps_Storage = 0, ps_Exclude = False, ps_NoSchedule = False, ps_Taints = []\<rparr>"

definition zero_pool_status :: PoolStatus where
  "zero_pool_status = \<lparr>pst_VCpusAvailable = 0, pst_MemoryAvailable = 0, pst_DatastoreAvailable = 0,
     pst_NetworkAvailable = 0, pst_SingleTenantNetworksTotal = 0,
     pst_SingleTenantNetworksAvailable = 0, pst_MultiTenantNetworksTotal = 0,
     pst_MultiTenantNetworksAvailable = 0, pst_LeaseCount = 0, pst_Initialized = False\<rparr>"

definition zero_pool :: Pool where
  "zero_pool = \<lparr>p_APIVersion = [], p_Kind = [], p_Meta = zero_meta, p_Spec = zero_pool_spec,
     p_Status = zero_pool_status\<rparr>"

definition zero_network_spec :: NetworkSpec where
  "zero_network_spec = \<lparr>ns_PortGroupName = [], ns_VlanId = [], ns_PodName = None,
     ns_DatacenterName = None, ns_Cidr = None, ns_Gateway = None, ns_IpAddressCount = None,
     ns_Netmask = None, ns_SubnetType = None, ns_MachineNetworkCidr = [], ns_IpAddresses = [],
     ns_CidrIPv6 = 0, ns_GatewayIPv6 = [], ns_IpV6prefix = [], ns_StartIPv6Address = [],
     ns_PrimaryRouterHostname = [], ns_Nameservers = []\<rparr>"

definition zero_network :: Network where
  "zero_network = \<lparr>n_APIVersion = [], n_Kind = [], n_Meta = zero_meta, n_Spec = zero_network_spec\<rparr>"

lemmas zero_defs = zero_meta_def zero_topology_def zero_failure_domain_def zero_lease_spec_def
  zero_lease_status_def zero_lease_def zero_pool_spec_def zero_pool_status_def zero_pool_def
  zero_network_spec_def zero_network_def

text \<open>Small builders for concrete pools, used by the examples.\<close>

definition mk_pool :: "string \<Rightarrow> string \<Rightarrow> int \<Rightarrow> int \<Rightarrow> Pool" where
  "mk_pool name server cpus mem =
     zero_pool\<lparr>p_Kind := ''Pool'', p_Meta := zero_meta\<lparr>om_Name := name, om_UID := name\<rparr>,
       p_Spec := zero_pool_spec\<lparr>ps_FailureDomain := zero_failure_domain\<lparr>fd_Server := server\<rparr>,
         ps_VCpus := cpus, ps_Memory := mem\<rparr>,
       p_Status := zero_pool_status\<lparr>pst_VCpusAvailable := cpus, pst_MemoryAvailable := mem\<rparr>\<rparr>"

lemma mk_pool_simps [simp]:
  "p_Name (mk_pool n s c m) = n" "p_Server (mk_pool n s c m) = s"
  "p_Kind (mk_pool n s c m) = ''Pool''" "p_Labels (mk_pool n s c m) = []"
  "ps_VCpus (p_Spec (mk_pool n s c m)) = c" "ps_Memory (p_Spec (mk_pool n s c m)) = m"
  "ps_Exclude (p_Spec (mk_pool n s c m)) = False" "ps_NoSchedule (p_Spec (mk_pool n s c m)) = False"
  "ps_Taints (p_Spec (mk_pool n s c m)) = []"
  "pst_VCpusAvailable (p_Status (mk_pool n s c m)) = c"
  "pst_MemoryAvailable (p_Status (mk_pool n s c m)) = m"
  by (simp_all add: mk_pool_def zero_defs)

lemma mk_pool_inject [simp]:
  "mk_pool n s c m = mk_pool n' s' c' m' \<longleftrightarrow> n = n' \<and> s = s' \<and> c = c' \<and> m = m'"
  by (metis mk_pool_simps(1,2,5,6))

end
