(* ===== verification/TopCounts.thy ===== *)
theory TopCounts
  imports GoPrelude
begin

text \<open>
  Counting pools per vCenter and taking the largest counts: the combinatorics behind the
  satisfiability check and the vCenter filters. \<open>tally\<close> is the loop that increments a
  per-key counter in a Go map.
\<close>

section \<open>Counting with a map\<close>

definition tally_step :: "('a \<Rightarrow> string) \<Rightarrow> int gomap \<Rightarrow> 'a \<Rightarrow> int gomap" where
  "tally_step key m x = gset (key x) (gget_default 0 m (key x) + 1) m"

definition tally :: "('a \<Rightarrow> string) \<Rightarrow> 'a list \<Rightarrow> int gomap" where
  "tally key xs = foldl (tally_step key) [] xs"

lemma tally_snoc: "tally key (xs @ [x]) = tally_step key (tally key xs) x"
  by (simp add: tally_def)

lemma tally_Nil [simp]: "tally key [] = []"
  by (simp add: tally_def)

lemma tally_ok [simp]: "gomap_ok (tally key xs)"
  by (induction xs rule: rev_induct) (simp_all add: tally_snoc tally_step_def)

lemma tally_keys: "fst ` set (tally key xs) = key ` set xs"
  by (induction xs rule: rev_induct) (simp_all add: tally_snoc tally_step_def dom_gset)

lemma tally_get: "gget_default 0 (tally key xs) k = int (length (filter (\<lambda>x. key x = k) xs))"
  by (induction xs rule: rev_induct) (auto simp: tally_snoc tally_step_def)

lemma tally_vals:
  "map snd (tally key xs) = map (\<lambda>k. int (length (filter (\<lambda>x. key x = k) xs))) (map fst (tally key xs))"
proof -
  have "snd kv = int (length (filter (\<lambda>x. key x = fst kv) xs))" if "kv \<in> set (tally key xs)" for kv
    using that tally_get [of key xs "fst kv"] gomap_in_set_iff [OF tally_ok [of key xs], of "fst kv" "snd kv"]
    by (simp add: gget_default_def)
  then show ?thesis by simp
qed

lemma length_tally: "length (tally key xs) = card (key ` set xs)"
  using tally_ok [of key xs] tally_keys [of key xs]
  by (metis distinct_card gomap_ok_def length_map list.set_map)

section \<open>The largest values of a function on a finite set\<close>

lemma sum_le_top:
  assumes "sorted_wrt (\<lambda>x y. f y \<le> f x) xs" "distinct xs" "S \<subseteq> set xs" "card S \<le> k"
  shows "sum f S \<le> sum_list (map (f :: 'a \<Rightarrow> int) (take k xs))
    \<or> (\<exists>x \<in> set xs. f x < 0)"
  using assms
proof (induction xs arbitrary: S k)
  case (Cons x xs)
  show ?case
  proof (cases "\<exists>y \<in> set (x # xs). f y < 0")
    case nonneg: False
    show ?thesis
    proof (cases "S = {}")
      case True
      have "0 \<le> sum_list (map f (take k (x # xs)))"
        using nonneg by (intro sum_list_nonneg) (auto simp: not_less dest!: in_set_takeD)
      with True show ?thesis by simp
    next
      case False
      have fin: "finite S" using Cons.prems(3) finite_subset by blast
      then obtain k' where k: "k = Suc k'"
        using False Cons.prems(4) by (cases k) auto
      obtain y where y: "y \<in> S" "x \<in> S \<Longrightarrow> y = x" using False by auto
      then have sub: "S - {y} \<subseteq> set xs" using Cons.prems(3) by auto
      have "card (S - {y}) \<le> k'" using Cons.prems(4) k y(1) fin by simp
      then have "sum f (S - {y}) \<le> sum_list (map f (take k' xs))"
        using Cons.IH [OF _ _ sub] Cons.prems(1,2) nonneg by auto
      moreover have "f y \<le> f x" using Cons.prems(1,3) y by auto
      moreover have "sum f S = f y + sum f (S - {y})" using fin y(1) by (simp add: sum.remove)
      ultimately show ?thesis using k by simp
    qed
  qed simp
qed simp

definition top_sum :: "nat \<Rightarrow> int list \<Rightarrow> int" where
  "top_sum k counts = sum_list (take k (rev (sort counts)))"

lemma sorted_desc_list:
  assumes "finite V"
  obtains xs :: "'a list" where "set xs = V" "distinct xs"
    "sorted_wrt (\<lambda>x y. f y \<le> (f x :: int)) xs"
proof -
  obtain ys where ys: "set ys = V" "distinct ys" using assms finite_distinct_list by blast
  have "sorted (map f (sort_key f ys))" by simp
  then have "sorted_wrt (\<lambda>x y. f y \<le> f x) (rev (sort_key f ys))"
    by (simp add: sorted_wrt_rev sorted_map)
  with ys that [of "rev (sort_key f ys)"] show ?thesis by simp
qed

lemma rev_sort_map:
  assumes "sorted_wrt (\<lambda>x y. f y \<le> (f x :: int)) xs" "mset zs = mset (map f xs)"
  shows "rev (sort zs) = map f xs"
proof -
  have "sorted (rev (map f xs))"
    using assms(1) by (simp add: sorted_wrt_rev sorted_wrt_map flip: rev_map)
  then have "sort zs = rev (map f xs)"
    using assms(2) by (metis mset_rev properties_for_sort)
  then show ?thesis by simp
qed

text \<open>
  The sum of the \<open>k\<close> largest counts is the best that at most \<open>k\<close> keys can reach, and some
  choice of keys reaches it.
\<close>

lemma top_sum_upper:
  assumes "distinct ks" "\<And>x. x \<in> set ks \<Longrightarrow> 0 \<le> f x" "S \<subseteq> set ks" "card S \<le> k"
  shows "sum f S \<le> top_sum k (map f ks)"
proof -
  obtain xs where xs: "set xs = set ks" "distinct xs" "sorted_wrt (\<lambda>x y. f y \<le> f x) xs"
    using sorted_desc_list [of "set ks" f] by auto
  have "mset (map f ks) = mset (map f xs)"
    using xs(1,2) assms(1) by (metis mset_map set_eq_iff_mset_eq_distinct)
  then have "rev (sort (map f ks)) = map f xs" by (rule rev_sort_map [OF xs(3)])
  moreover have "sum f S \<le> sum_list (map f (take k xs))"
    using sum_le_top [OF xs(3,2) _ assms(4)] xs(1) assms(2,3) by fastforce
  ultimately show ?thesis by (simp add: top_sum_def take_map)
qed

lemma top_sum_reached:
  assumes "distinct ks"
  obtains S where "S \<subseteq> set ks" "card S = min k (length ks)" "sum f S = top_sum k (map f ks)"
proof -
  obtain xs where xs: "set xs = set ks" "distinct xs" "sorted_wrt (\<lambda>x y. f y \<le> f x) xs"
    using sorted_desc_list [of "set ks" f] by auto
  have len: "length xs = length ks" using xs(1,2) assms by (metis distinct_card)
  have "mset (map f ks) = mset (map f xs)"
    using xs(1,2) assms(1) by (metis mset_map set_eq_iff_mset_eq_distinct)
  then have eq: "rev (sort (map f ks)) = map f xs" by (rule rev_sort_map [OF xs(3)])
  show ?thesis
  proof
    show "set (take k xs) \<subseteq> set ks" using xs(1) by (metis set_take_subset)
    show "card (set (take k xs)) = min k (length ks)"
      using xs(2) len by (simp add: distinct_card min.commute)
    show "sum f (set (take k xs)) = top_sum k (map f ks)"
      using xs(2) eq by (simp add: top_sum_def take_map sum.distinct_set_conv_list)
  qed
qed

text \<open>Counting by key: the elements whose key lies in a set of keys.\<close>

lemma sum_length_filter:
  assumes "finite S"
  shows "(\<Sum>k\<in>S. int (length (filter (\<lambda>x. key x = k) xs))) =
    int (length (filter (\<lambda>x. key x \<in> S) xs))"
proof (induction xs)
  case (Cons x xs)
  have "(\<Sum>k\<in>S. int (length (filter (\<lambda>y. key y = k) (x # xs)))) =
      (\<Sum>k\<in>S. (if k = key x then 1 else 0)) + (\<Sum>k\<in>S. int (length (filter (\<lambda>y. key y = k) xs)))"
    by (simp add: sum.distrib [symmetric]) (rule sum.cong, auto)
  with Cons assms show ?case by (simp add: sum.delta)
qed simp

lemma length_filter_card:
  "distinct xs \<Longrightarrow> length (filter P xs) = card {x \<in> set xs. P x}"
  by (metis distinct_card distinct_filter set_filter)

text \<open>One element for each of a given set of keys.\<close>

lemma representatives:
  assumes "T \<subseteq> key ` Q"
  obtains R where "R \<subseteq> Q" "key ` R = T" "card R = card T" "inj_on key R"
proof -
  obtain R where "R \<subseteq> Q" "inj_on key R" "T = key ` R"
    using assms by (metis subset_image_inj)
  with that show ?thesis by (metis card_image)
qed

end
