(* ===== verification/PoolMatch.thy ===== *)
theory PoolMatch
  imports ApiTypes TopCounts
begin

text \<open>
  Matching a lease against pools (\<^verbatim>\<open>pkg/utils/pools.go\<close>, first half): tolerations, label
  selectors, the structural match, the vCenters in use, and the satisfiability check that fails a
  lease no inventory could ever serve.
\<close>

section \<open>Tolerations and selectors\<close>

definition tolerationMatchesTaint :: "Toleration \<Rightarrow> Taint \<Rightarrow> bool" where
  "tolerationMatchesTaint toleration taint =
     (if tol_Effect toleration \<noteq> [] \<and> tol_Effect toleration \<noteq> ta_Effect taint then False
      else if tol_Operator toleration = TolerationOpExists then
        tol_Key toleration = [] \<or> tol_Key toleration = ta_Key taint
      else tol_Key toleration = ta_Key taint \<and> tol_Value toleration = ta_Value taint)"

definition LeaseToleratesPoolTaints :: "Lease \<Rightarrow> Pool \<Rightarrow> bool" where
  "LeaseToleratesPoolTaints lease pool =
     (if ps_Taints (p_Spec pool) = [] then True
      else list_all (\<lambda>taint. list_ex (\<lambda>tol. tolerationMatchesTaint tol taint)
             (ls_Tolerations (l_Spec lease))) (ps_Taints (p_Spec pool)))"

definition PoolMatchesSelector :: "Lease \<Rightarrow> Pool \<Rightarrow> bool" where
  "PoolMatchesSelector lease pool =
     (if ls_PoolSelector (l_Spec lease) = [] then True
      else list_all (\<lambda>(key, value).
             case gget (p_Labels pool) key of None \<Rightarrow> False | Some poolValue \<Rightarrow> poolValue = value)
           (ls_PoolSelector (l_Spec lease)))"

section \<open>vCenters in use\<close>

definition vcenters_step :: "bool gomap \<Rightarrow> Pool \<Rightarrow> bool gomap" where
  "vcenters_step m pool = (if p_Server pool \<noteq> [] then gset (p_Server pool) True m else m)"

definition GetVCentersInUse :: "Pool list \<Rightarrow> bool gomap" where
  "GetVCentersInUse assignedPools = foldl vcenters_step [] assignedPools"

text \<open>\<open>None\<close> is the nil map: \<open>MinVCenters\<close> is unset or already met.\<close>

definition GetDiversityExcludedVCenters :: "Lease \<Rightarrow> Pool list \<Rightarrow> bool gomap option" where
  "GetDiversityExcludedVCenters lease assignedPools =
     (if ls_MinVCenters (l_Spec lease) \<le> 0 then None
      else let vcentersInUse = GetVCentersInUse assignedPools in
        if int (length vcentersInUse) \<ge> ls_MinVCenters (l_Spec lease) then None
        else Some vcentersInUse)"

section \<open>The structural match\<close>

definition name_match :: "Lease \<Rightarrow> Pool \<Rightarrow> bool" where
  "name_match lease pool \<longleftrightarrow>
     ls_RequiredPool (l_Spec lease) \<noteq> [] \<and> ls_RequiredPool (l_Spec lease) = p_Name pool"

definition poolMatchesStructural :: "Lease \<Rightarrow> Pool \<Rightarrow> bool" where
  "poolMatchesStructural lease pool =
     (if ps_NoSchedule (p_Spec pool) then False
      else if \<not> name_match lease pool \<and> ps_Exclude (p_Spec pool) then False
      else if ls_RequiredPool (l_Spec lease) \<noteq> [] \<and> \<not> name_match lease pool then False
      else if \<not> PoolMatchesSelector lease pool then False
      else if \<not> LeaseToleratesPoolTaints lease pool then False
      else True)"

definition structuralPoolsPerVCenter :: "Lease \<Rightarrow> Pool list \<Rightarrow> int gomap" where
  "structuralPoolsPerVCenter lease allPools =
     foldl (\<lambda>m pool. if \<not> poolMatchesStructural lease pool then m
                      else gset (p_Server pool) (gget_default 0 m (p_Server pool) + 1) m) [] allPools"

definition CountDistinctVCenters :: "Lease \<Rightarrow> Pool list \<Rightarrow> int" where
  "CountDistinctVCenters lease allPools = int (length (structuralPoolsPerVCenter lease allPools))"

text \<open>
  The order in which the counts leave the map does not matter: without a cap they are added
  up, with a cap they are sorted in descending order, and a sorted list of integers is unique.
\<close>

definition MaxAchievablePools :: "Lease \<Rightarrow> Pool list \<Rightarrow> int" where
  "MaxAchievablePools lease allPools =
     (let poolsPerVCenter = structuralPoolsPerVCenter lease allPools;
          counts = map snd poolsPerVCenter
      in if ls_VCenters (l_Spec lease) \<le> 0 then sum_list counts
         else let sorted_counts = rev (sort counts);
                  n = min (ls_VCenters (l_Spec lease)) (int (length counts))
              in sum_list (take (nat n) sorted_counts))"

section \<open>Satisfiability\<close>

definition minVCentersUnsatisfiableReason :: "Lease \<Rightarrow> int \<Rightarrow> Pool list \<Rightarrow> string option" where
  "minVCentersUnsatisfiableReason lease requiredPools allPools =
     (let minVCenters = ls_MinVCenters (l_Spec lease) in
      if minVCenters \<le> 0 then None
      else if minVCenters > requiredPools then
        Some (''lease requires a minimum of '' @ show_int minVCenters @ '' vcenters but only requests ''
          @ show_int requiredPools @ '' pool(s): each pool resides on exactly one vCenter'')
      else if ls_VCenters (l_Spec lease) > 0 \<and> minVCenters > ls_VCenters (l_Spec lease) then
        Some (''lease minimum vcenters ('' @ show_int minVCenters
          @ '') exceeds its maximum vcenters cap ('' @ show_int (ls_VCenters (l_Spec lease)) @ '')'')
      else let distinctVCenters = CountDistinctVCenters lease allPools in
        if distinctVCenters < minVCenters then
          Some (''lease requires at least '' @ show_int minVCenters
            @ '' distinct vcenters but only '' @ show_int distinctVCenters
            @ '' vcenter(s) have structurally matching pools'')
        else None)"

fun required_pool_loop :: "string \<Rightarrow> Pool list \<Rightarrow> string option" where
  "required_pool_loop req [] = Some (''required pool '' @ quote req @ '' does not exist'')"
| "required_pool_loop req (pool # pools) =
     (if p_Name pool \<noteq> req then required_pool_loop req pools
      else if ps_NoSchedule (p_Spec pool) then
        Some (''required pool '' @ quote req @ '' is disabled and cannot be scheduled'')
      else None)"

definition requiredPoolUnsatisfiableReason :: "Lease \<Rightarrow> Pool list \<Rightarrow> string option" where
  "requiredPoolUnsatisfiableReason lease allPools =
     (if ls_RequiredPool (l_Spec lease) = [] then None
      else required_pool_loop (ls_RequiredPool (l_Spec lease)) allPools)"

definition required_pools :: "Lease \<Rightarrow> int" where
  "required_pools lease = (if ls_Pools (l_Spec lease) = 0 then 1 else ls_Pools (l_Spec lease))"

definition IsLeaseSatisfiable :: "Lease \<Rightarrow> Pool list \<Rightarrow> bool \<times> string" where
  "IsLeaseSatisfiable lease allPools =
     (let requiredPools = required_pools lease in
      case minVCentersUnsatisfiableReason lease requiredPools allPools of
        Some reason \<Rightarrow> (False, reason)
      | None \<Rightarrow>
          let maxAchievable = MaxAchievablePools lease allPools in
          if maxAchievable \<ge> requiredPools then (True, [])
          else case requiredPoolUnsatisfiableReason lease allPools of
            Some reason \<Rightarrow> (False, reason)
          | None \<Rightarrow>
              (False, ''lease requires '' @ show_int requiredPools @ '' pool(s) (vcenters cap ''
                 @ show_int (ls_VCenters (l_Spec lease)) @ '') but at most '' @ show_int maxAchievable
                 @ '' are structurally achievable given the known pool inventory''))"

section \<open>Helper lemmas\<close>

lemma vcenters_loop_ok: "gomap_ok m \<Longrightarrow> gomap_ok (foldl vcenters_step m ps)"
  by (induction ps arbitrary: m) (auto simp: vcenters_step_def)

lemma vcenters_loop_keys:
  "fst ` set (foldl vcenters_step m ps) = fst ` set m \<union> (p_Server ` set ps - {[]})"
  by (induction ps arbitrary: m) (auto simp: vcenters_step_def dom_gset)

lemma GetVCentersInUse_ok [simp]: "gomap_ok (GetVCentersInUse ps)"
  by (simp add: GetVCentersInUse_def vcenters_loop_ok)

lemma GetVCentersInUse_keys: "fst ` set (GetVCentersInUse ps) = p_Server ` set ps - {[]}"
  by (simp add: GetVCentersInUse_def vcenters_loop_keys)

lemma GetVCentersInUse_length: "length (GetVCentersInUse ps) = card (p_Server ` set ps - {[]})"
  using GetVCentersInUse_ok [of ps] GetVCentersInUse_keys [of ps]
  by (metis distinct_card gomap_ok_def length_map list.set_map)

lemma GetVCentersInUse_snoc:
  "GetVCentersInUse (ps @ [p]) = vcenters_step (GetVCentersInUse ps) p"
  by (simp add: GetVCentersInUse_def)

lemma structuralPoolsPerVCenter_tally:
  "structuralPoolsPerVCenter lease ps = tally p_Server (filter (poolMatchesStructural lease) ps)"
proof -
  have "foldl (\<lambda>m pool. if \<not> poolMatchesStructural lease pool then m
         else gset (p_Server pool) (gget_default 0 m (p_Server pool) + 1) m) m ps =
        foldl (tally_step p_Server) m (filter (poolMatchesStructural lease) ps)" for m
    by (induction ps arbitrary: m) (simp_all add: tally_step_def)
  then show ?thesis by (simp add: structuralPoolsPerVCenter_def tally_def)
qed

lemma poolMatchesStructural_iff:
  "poolMatchesStructural lease pool \<longleftrightarrow>
     \<not> ps_NoSchedule (p_Spec pool) \<and>
     (ps_Exclude (p_Spec pool) \<longrightarrow> name_match lease pool) \<and>
     (ls_RequiredPool (l_Spec lease) \<noteq> [] \<longrightarrow> p_Name pool = ls_RequiredPool (l_Spec lease)) \<and>
     PoolMatchesSelector lease pool \<and> LeaseToleratesPoolTaints lease pool"
  by (auto simp: poolMatchesStructural_def name_match_def)

end
