(* ===== verification/Satisfiability.thy ===== *)
theory Satisfiability
  imports PoolMatch
begin

text \<open>
  The contract of the satisfiability check: the specification says which sets of pools would
  serve a lease, and the check of \<open>pools.go\<close> decides exactly whether such a set exists.
\<close>

section \<open>Specification\<close>

definition matching :: "Lease \<Rightarrow> Pool list \<Rightarrow> Pool set" where
  "matching lease ps = {p \<in> set ps. poolMatchesStructural lease p}"

text \<open>
  A set of pools serves a lease structurally: each pool matches, there are as many as the
  lease asks for, and they lie on at most \<open>VCenters\<close> and at least \<open>MinVCenters\<close> vCenters, where
  these are set.
\<close>

definition serves :: "Lease \<Rightarrow> Pool list \<Rightarrow> Pool set \<Rightarrow> bool" where
  "serves lease ps P \<longleftrightarrow>
     P \<subseteq> matching lease ps \<and> int (card P) = required_pools lease \<and>
     (ls_VCenters (l_Spec lease) > 0 \<longrightarrow> int (card (p_Server ` P)) \<le> ls_VCenters (l_Spec lease)) \<and>
     (ls_MinVCenters (l_Spec lease) > 0 \<longrightarrow> ls_MinVCenters (l_Spec lease) \<le> int (card (p_Server ` P)))"

section \<open>What the counters compute\<close>

lemma finite_matching [simp]: "finite (matching lease ps)"
  by (simp add: matching_def)

lemma CountDistinctVCenters_eq:
  "CountDistinctVCenters lease ps = int (card (p_Server ` matching lease ps))"
  by (simp add: CountDistinctVCenters_def structuralPoolsPerVCenter_tally length_tally matching_def)

definition on_vcenters :: "Lease \<Rightarrow> Pool list \<Rightarrow> string set \<Rightarrow> Pool set" where
  "on_vcenters lease ps S = {p \<in> matching lease ps. p_Server p \<in> S}"

lemma on_vcenters_all [simp]: "on_vcenters lease ps (p_Server ` matching lease ps) = matching lease ps"
  by (auto simp: on_vcenters_def)

definition vc_count :: "Lease \<Rightarrow> Pool list \<Rightarrow> string \<Rightarrow> int" where
  "vc_count lease ps v =
     int (length (filter (\<lambda>p. p_Server p = v) (filter (poolMatchesStructural lease) ps)))"

lemma vc_count_nonneg [simp]: "0 \<le> vc_count lease ps v"
  by (simp add: vc_count_def)

lemma vc_count_vals:
  "map snd (structuralPoolsPerVCenter lease ps) =
     map (vc_count lease ps) (map fst (structuralPoolsPerVCenter lease ps))"
  unfolding structuralPoolsPerVCenter_tally tally_vals by (simp add: vc_count_def)

lemma card_on_vcenters:
  assumes "distinct ps" "finite S"
  shows "int (card (on_vcenters lease ps S)) = sum (vc_count lease ps) S"
proof -
  have "{x \<in> set (filter (poolMatchesStructural lease) ps). p_Server x \<in> S} = on_vcenters lease ps S"
    by (auto simp: on_vcenters_def matching_def)
  then have "card (on_vcenters lease ps S) =
      length (filter (\<lambda>p. p_Server p \<in> S) (filter (poolMatchesStructural lease) ps))"
    using assms(1) by (simp only: length_filter_card distinct_filter)
  then show ?thesis by (simp only: vc_count_def [abs_def] sum_length_filter [OF assms(2)])
qed

lemma vcenter_keys:
  "distinct (map fst (structuralPoolsPerVCenter lease ps))"
  "set (map fst (structuralPoolsPerVCenter lease ps)) = p_Server ` matching lease ps"
  using tally_ok [of p_Server "filter (poolMatchesStructural lease) ps"]
    tally_keys [of p_Server "filter (poolMatchesStructural lease) ps"]
  by (simp_all add: structuralPoolsPerVCenter_tally gomap_ok_def matching_def)

lemma MaxAchievablePools_no_cap:
  assumes "distinct ps" "ls_VCenters (l_Spec lease) \<le> 0"
  shows "MaxAchievablePools lease ps = int (card (matching lease ps))"
proof -
  let ?ks = "map fst (structuralPoolsPerVCenter lease ps)"
  let ?f = "vc_count lease ps"
  have "MaxAchievablePools lease ps = sum_list (map ?f ?ks)"
    using assms(2) by (simp add: MaxAchievablePools_def Let_def vc_count_vals)
  also have "\<dots> = sum ?f (p_Server ` matching lease ps)"
    by (simp only: sum.distinct_set_conv_list [OF vcenter_keys(1), symmetric] vcenter_keys(2))
  finally show ?thesis
    using card_on_vcenters [OF assms(1), of "p_Server ` matching lease ps" lease] by simp
qed

lemma MaxAchievablePools_cap:
  assumes "ls_VCenters (l_Spec lease) > 0"
  shows "MaxAchievablePools lease ps = top_sum (nat (ls_VCenters (l_Spec lease)))
    (map (vc_count lease ps) (map fst (structuralPoolsPerVCenter lease ps)))"
proof -
  let ?c = "rev (sort (map snd (structuralPoolsPerVCenter lease ps)))"
  have "take (nat (min (ls_VCenters (l_Spec lease)) (int (length ?c)))) ?c =
      take (nat (ls_VCenters (l_Spec lease))) ?c"
    by (simp add: min_def)
  with assms show ?thesis
    unfolding MaxAchievablePools_def Let_def top_sum_def vc_count_vals [symmetric] by simp
qed

text \<open>The cap in force, as a bound on the number of vCenters.\<close>

definition vcenter_cap :: "Lease \<Rightarrow> Pool list \<Rightarrow> nat" where
  "vcenter_cap lease ps = (if ls_VCenters (l_Spec lease) > 0 then nat (ls_VCenters (l_Spec lease))
     else card (p_Server ` matching lease ps))"

lemma MaxAchievablePools_upper:
  assumes "distinct ps" "S \<subseteq> p_Server ` matching lease ps" "card S \<le> vcenter_cap lease ps"
  shows "int (card (on_vcenters lease ps S)) \<le> MaxAchievablePools lease ps"
proof (cases "ls_VCenters (l_Spec lease) > 0")
  case True
  let ?ks = "map fst (structuralPoolsPerVCenter lease ps)"
  note ks = vcenter_keys [of lease ps]
  have "finite S" using assms(2) by (rule finite_subset) simp
  moreover have "sum (vc_count lease ps) S \<le>
      top_sum (nat (ls_VCenters (l_Spec lease))) (map (vc_count lease ps) ?ks)"
    using assms(2,3) True ks by (intro top_sum_upper) (simp_all add: vcenter_cap_def)
  ultimately show ?thesis
    by (simp only: MaxAchievablePools_cap [OF True] card_on_vcenters [OF assms(1)])
next
  case False
  have "card (on_vcenters lease ps S) \<le> card (matching lease ps)"
    by (rule card_mono) (auto simp: on_vcenters_def)
  with False show ?thesis by (simp add: MaxAchievablePools_no_cap [OF assms(1)])
qed

lemma MaxAchievablePools_reached:
  assumes "distinct ps"
  obtains S where "S \<subseteq> p_Server ` matching lease ps"
    "card S = min (vcenter_cap lease ps) (card (p_Server ` matching lease ps))"
    "int (card (on_vcenters lease ps S)) = MaxAchievablePools lease ps"
proof (cases "ls_VCenters (l_Spec lease) > 0")
  case True
  let ?ks = "map fst (structuralPoolsPerVCenter lease ps)"
  let ?f = "vc_count lease ps"
  note ks = vcenter_keys [of lease ps]
  obtain S where S: "S \<subseteq> set ?ks" "card S = min (nat (ls_VCenters (l_Spec lease))) (length ?ks)"
      "sum ?f S = top_sum (nat (ls_VCenters (l_Spec lease))) (map ?f ?ks)"
    using top_sum_reached [OF ks(1), of "nat (ls_VCenters (l_Spec lease))" ?f] by metis
  have "length ?ks = card (p_Server ` matching lease ps)" using ks by (metis distinct_card)
  moreover have "finite S" using S(1) by (rule finite_subset) simp
  ultimately show ?thesis
    using that [of S] S ks(2) True
    by (simp add: vcenter_cap_def MaxAchievablePools_cap card_on_vcenters [OF assms])
next
  case False
  with that [of "p_Server ` matching lease ps"] show ?thesis
    by (simp add: vcenter_cap_def MaxAchievablePools_no_cap [OF assms])
qed

section \<open>The check decides the specification\<close>

lemma IsLeaseSatisfiable_fst:
  "fst (IsLeaseSatisfiable lease ps) \<longleftrightarrow>
     minVCentersUnsatisfiableReason lease (required_pools lease) ps = None \<and>
     required_pools lease \<le> MaxAchievablePools lease ps"
  by (auto simp: IsLeaseSatisfiable_def Let_def split: option.splits)

lemma minVCenters_None_iff:
  "minVCentersUnsatisfiableReason lease r ps = None \<longleftrightarrow>
     ls_MinVCenters (l_Spec lease) \<le> 0 \<or>
     ls_MinVCenters (l_Spec lease) \<le> r \<and>
     (ls_VCenters (l_Spec lease) > 0 \<longrightarrow> ls_MinVCenters (l_Spec lease) \<le> ls_VCenters (l_Spec lease)) \<and>
     ls_MinVCenters (l_Spec lease) \<le> int (card (p_Server ` matching lease ps))"
  by (auto simp: minVCentersUnsatisfiableReason_def Let_def CountDistinctVCenters_eq)

lemma satisfiable_selection:
  assumes "distinct ps" "0 \<le> ls_Pools (l_Spec lease)" "fst (IsLeaseSatisfiable lease ps)"
  shows "\<exists>P. serves lease ps P"
proof -
  let ?V = "p_Server ` matching lease ps"
  define m where "m = nat (ls_MinVCenters (l_Spec lease))"
  define r where "r = nat (required_pools lease)"
  have r: "int r = required_pools lease"
    using assms(2) by (simp add: r_def required_pools_def)
  obtain S where S: "S \<subseteq> ?V" "card S = min (vcenter_cap lease ps) (card ?V)"
      "int (card (on_vcenters lease ps S)) = MaxAchievablePools lease ps"
    using MaxAchievablePools_reached [OF assms(1)] by metis
  have max: "r \<le> card (on_vcenters lease ps S)"
    using assms(3) S(3) r by (simp add: IsLeaseSatisfiable_fst)
  have m: "m \<le> r" "m \<le> card S"
    using assms(3) r S(2) by (auto simp: IsLeaseSatisfiable_fst minVCenters_None_iff m_def vcenter_cap_def)
  obtain T where T: "T \<subseteq> S" "card T = m" using m(2) by (metis obtain_subset_with_card_n)
  have servers: "p_Server ` on_vcenters lease ps S = S" using S(1) by (auto simp: on_vcenters_def)
  then obtain R where R: "R \<subseteq> on_vcenters lease ps S" "p_Server ` R = T" "card R = m"
    using T representatives [of T p_Server "on_vcenters lease ps S"] by metis
  obtain P where P: "R \<subseteq> P" "P \<subseteq> on_vcenters lease ps S" "card P = r"
    using exists_subset_between [of R r "on_vcenters lease ps S"] R m(1) max
    by (auto simp: on_vcenters_def)
  have fin: "finite P" "finite S"
    by (rule finite_subset [OF P(2)], simp add: on_vcenters_def) (rule finite_subset [OF S(1)], simp)
  have "p_Server ` P \<subseteq> S" using P(2) servers by blast
  then have upper: "card (p_Server ` P) \<le> card S" by (rule card_mono [OF fin(2)])
  have "m \<le> card (p_Server ` P)"
    using P(1) R(2) T(2) fin(1) by (metis card_mono finite_imageI image_mono)
  with upper P(2,3) S(2) r show ?thesis
    by (intro exI [of _ P]) (auto simp: serves_def on_vcenters_def m_def vcenter_cap_def)
qed

lemma selection_satisfiable:
  assumes "distinct ps" "serves lease ps P"
  shows "fst (IsLeaseSatisfiable lease ps)"
proof -
  let ?S = "p_Server ` P"
  have P: "P \<subseteq> matching lease ps" "int (card P) = required_pools lease"
    using assms(2) by (auto simp: serves_def)
  then have fin: "finite P" by (simp add: finite_subset)
  have S: "?S \<subseteq> p_Server ` matching lease ps" using P(1) by blast
  have cards: "card ?S \<le> card P" "card ?S \<le> card (p_Server ` matching lease ps)"
    using fin S by (auto intro: card_image_le card_mono)
  have "card ?S \<le> vcenter_cap lease ps"
    using assms(2) cards(2) by (auto simp: serves_def vcenter_cap_def)
  then have "int (card (on_vcenters lease ps ?S)) \<le> MaxAchievablePools lease ps"
    by (rule MaxAchievablePools_upper [OF assms(1) S])
  moreover have "card P \<le> card (on_vcenters lease ps ?S)"
    using P(1) by (intro card_mono) (auto simp: on_vcenters_def)
  ultimately have "required_pools lease \<le> MaxAchievablePools lease ps" using P(2) by simp
  moreover have "minVCentersUnsatisfiableReason lease (required_pools lease) ps = None"
    using assms(2) cards P(2) unfolding serves_def minVCenters_None_iff by linarith
  ultimately show ?thesis by (simp add: IsLeaseSatisfiable_fst)
qed

text \<open>
  C4: The satisfiability check is sound and complete: a lease passes it exactly when the known
  inventory contains a set of structurally matching pools of the requested size that lies on at
  most \<open>VCenters\<close> and at least \<open>MinVCenters\<close> vCenters.
\<close>

theorem IsLeaseSatisfiable_correct:
  assumes "distinct allPools" "0 \<le> ls_Pools (l_Spec lease)"
  shows "fst (IsLeaseSatisfiable lease allPools) \<longleftrightarrow> (\<exists>P. serves lease allPools P)"
  using satisfiable_selection [OF assms] selection_satisfiable [OF assms(1)] by blast

text \<open>
  C18: \<open>MaxAchievablePools\<close> is the largest number of structurally matching pools that lie on at most
  \<open>VCenters\<close> vCenters (on any number of them when there is no cap): no choice of vCenters offers
  more, and some choice offers that many.
\<close>

theorem MaxAchievablePools_maximal:
  assumes "distinct allPools"
  shows "(\<forall>S \<subseteq> p_Server ` matching lease allPools. card S \<le> vcenter_cap lease allPools \<longrightarrow>
      int (card (on_vcenters lease allPools S)) \<le> MaxAchievablePools lease allPools) \<and>
    (\<exists>S \<subseteq> p_Server ` matching lease allPools. card S \<le> vcenter_cap lease allPools \<and>
      int (card (on_vcenters lease allPools S)) = MaxAchievablePools lease allPools)"
proof (intro conjI allI impI)
  show "\<exists>S \<subseteq> p_Server ` matching lease allPools. card S \<le> vcenter_cap lease allPools \<and>
      int (card (on_vcenters lease allPools S)) = MaxAchievablePools lease allPools"
    using MaxAchievablePools_reached [OF assms] by (metis min.cobounded1)
qed (rule MaxAchievablePools_upper [OF assms])

section \<open>Witnesses\<close>

definition example_pools :: "Pool list" where
  "example_pools = [mk_pool ''a1'' ''vc-a'' 24 96, mk_pool ''a2'' ''vc-a'' 16 64,
     mk_pool ''b1'' ''vc-b'' 32 128, mk_pool ''c1'' ''vc-c'' 8 32]"

definition example_lease :: Lease where
  "example_lease = zero_lease\<lparr>l_Meta := zero_meta\<lparr>om_Name := ''lease''\<rparr>,
     l_Spec := zero_lease_spec\<lparr>ls_VCpus := 8, ls_Memory := 32, ls_Pools := 3, ls_VCenters := 2,
       ls_MinVCenters := 2, ls_Networks := 1\<rparr>\<rparr>"

lemma example_lease_simps [simp]:
  "ls_VCpus (l_Spec example_lease) = 8" "ls_Memory (l_Spec example_lease) = 32"
  "ls_Pools (l_Spec example_lease) = 3" "ls_VCenters (l_Spec example_lease) = 2"
  "ls_MinVCenters (l_Spec example_lease) = 2" "ls_Networks (l_Spec example_lease) = 1"
  "ls_RequiredPool (l_Spec example_lease) = []" "ls_PoolSelector (l_Spec example_lease) = []"
  "ls_Tolerations (l_Spec example_lease) = []" "l_OwnerReferences example_lease = []"
  by (simp_all add: example_lease_def zero_defs)

lemma example_pools_distinct [simp]: "distinct example_pools"
  by (simp add: example_pools_def)

lemma example_structural: "p \<in> set example_pools \<Longrightarrow> poolMatchesStructural example_lease p"
  by (auto simp: example_pools_def poolMatchesStructural_def name_match_def PoolMatchesSelector_def
      LeaseToleratesPoolTaints_def)

lemma example_per_vcenter:
  "structuralPoolsPerVCenter example_lease example_pools = [(''vc-a'', 2), (''vc-b'', 1), (''vc-c'', 1)]"
  using example_structural
  by (simp add: structuralPoolsPerVCenter_def example_pools_def gget_default_def)

lemma example_max: "MaxAchievablePools example_lease example_pools = 3"
  by (simp add: MaxAchievablePools_def example_per_vcenter sort_key_def)

theorem IsLeaseSatisfiable_correct_witness:
  "fst (IsLeaseSatisfiable example_lease example_pools) \<and>
   (\<exists>P. serves example_lease example_pools P)"
proof -
  have "fst (IsLeaseSatisfiable example_lease example_pools)"
    by (simp add: IsLeaseSatisfiable_def Let_def minVCentersUnsatisfiableReason_def
        CountDistinctVCenters_def example_per_vcenter example_max required_pools_def)
  with IsLeaseSatisfiable_correct [of example_pools example_lease] show ?thesis by simp
qed

theorem MaxAchievablePools_maximal_witness:
  "\<exists>S \<subseteq> p_Server ` matching example_lease example_pools. card S \<le> 2 \<and>
     card (on_vcenters example_lease example_pools S) = 3"
  using MaxAchievablePools_maximal [of example_pools example_lease]
  by (simp add: example_max vcenter_cap_def)

end
