(* ===== verification/NetworkSelect.thy ===== *)
theory NetworkSelect
  imports ApiTypes
begin

text \<open>
  Which networks a lease may use (\<^verbatim>\<open>pkg/controller/leases.go\<close>, first part, and the package
  variables of \<^verbatim>\<open>context.go\<close>): the networks of a pool, the free ones among them, the networks
  of sibling leases (leases with the same boskos id) and the port groups several pools have in common.
\<close>

section \<open>The cache of the controllers\<close>

record cache =
  ca_pools :: "Pool gomap"
  ca_leases :: "Lease gomap"
  ca_networks :: "Network gomap"

abbreviation "BoskosIdLabel \<equiv> ''boskos-lease-id''"

definition cache_ok :: "cache \<Rightarrow> bool" where
  "cache_ok ca \<longleftrightarrow> gomap_ok (ca_pools ca) \<and> gomap_ok (ca_leases ca) \<and> gomap_ok (ca_networks ca)"

section \<open>Networks of a pool\<close>

text \<open>\<open>None\<close>: a network without \<open>PodName\<close> is reached and its nil pointer is dereferenced.\<close>

fun first_match :: "Pool \<Rightarrow> string \<Rightarrow> Network list \<Rightarrow> Network option option" where
  "first_match pool networkName [] = Some None"
| "first_match pool networkName (network # ns) =
     (case ns_PodName (n_Spec network) of
        None \<Rightarrow> None
      | Some pod \<Rightarrow>
          if pod = ibm_Pod (ps_IBMPoolSpec (p_Spec pool)) \<and> n_PortGroupName network = networkName
          then Some (Some network) else first_match pool networkName ns)"

fun networks_loop :: "choices \<Rightarrow> Network gomap \<Rightarrow> Pool \<Rightarrow> string list \<Rightarrow> Network gomap \<Rightarrow> Network gomap option" where
  "networks_loop os networks pool [] acc = Some acc"
| "networks_loop os networks pool (portGroupPath # paths) acc =
     do { r \<leftarrow> first_match pool (path_base portGroupPath) (range_vals (sub 0 os) networks);
          networks_loop (sub 1 os) networks pool paths
            (case r of None \<Rightarrow> acc | Some network \<Rightarrow> gset (n_Name network) network acc) }"

definition getNetworksForPool :: "choices \<Rightarrow> cache \<Rightarrow> Pool \<Rightarrow> Network gomap option" where
  "getNetworksForPool os ca pool =
     networks_loop os (ca_networks ca) pool (tp_Networks (p_Topology pool)) []"

definition getNetworkType :: "Network \<Rightarrow> string" where
  "getNetworkType network =
     (case gget (om_Labels (n_Meta network)) NetworkTypeLabel of
        Some val \<Rightarrow> val | None \<Rightarrow> NetworkTypeSingleTenant)"

definition count_pool_networks :: "Lease \<Rightarrow> Network gomap \<Rightarrow> int" where
  "count_pool_networks lease poolNetworksMap =
     foldl (\<lambda>n ref. if or_Kind ref = ''Network'' \<and> gget poolNetworksMap (or_Name ref) \<noteq> None
                     then n + 1 else n) 0 (l_OwnerReferences lease)"

fun poolMissingNetworks :: "choices \<Rightarrow> cache \<Rightarrow> Lease \<Rightarrow> Pool list \<Rightarrow> string option option" where
  "poolMissingNetworks os ca lease [] = Some None"
| "poolMissingNetworks os ca lease (pool # pools) =
     do { poolNetworksMap \<leftarrow> getNetworksForPool (sub 0 os) ca pool;
          if count_pool_networks lease poolNetworksMap = 0 then Some (Some (p_Name pool))
          else poolMissingNetworks (sub 1 os) ca lease pools }"

section \<open>Free networks\<close>

definition has_owner :: "cache \<Rightarrow> Network \<Rightarrow> bool" where
  "has_owner ca network \<longleftrightarrow>
     list_ex (\<lambda>(k, lease). list_ex (\<lambda>ref. or_Name ref = n_Name network \<and> or_Kind ref = n_Kind network)
       (l_OwnerReferences lease)) (ca_leases ca)"

definition getAvailableNetworks :: "choices \<Rightarrow> cache \<Rightarrow> Pool \<Rightarrow> string \<Rightarrow> Network list option" where
  "getAvailableNetworks os ca pool networkType =
     do { networksInPool \<leftarrow> getNetworksForPool (sub 0 os) ca pool;
          Some (filter (\<lambda>network. getNetworkType network = networkType \<and> \<not> has_owner ca network)
                  (range_vals (sub 1 os) networksInPool)) }"

fun first_server :: "string \<Rightarrow> Pool list \<Rightarrow> string \<times> string" where
  "first_server server [] = ([], [])"
| "first_server server (pool # pools) =
     (if p_Server pool = server
      then (ibm_Datacenter (ps_IBMPoolSpec (p_Spec pool)), ibm_Pod (ps_IBMPoolSpec (p_Spec pool)))
      else first_server server pools)"

definition getIBMDatacenterAndPod :: "choices \<Rightarrow> cache \<Rightarrow> string \<Rightarrow> string \<times> string" where
  "getIBMDatacenterAndPod os ca server = first_server server (range_vals os (ca_pools ca))"

section \<open>Networks of sibling leases\<close>

definition network_only :: "Lease \<Rightarrow> bool" where
  "network_only lease \<longleftrightarrow> ls_VCpus (l_Spec lease) = 0 \<and> ls_Memory (l_Spec lease) = 0"

fun lease_networks :: "choices \<Rightarrow> Network gomap \<Rightarrow> OwnerReference list \<Rightarrow> Network list" where
  "lease_networks os networks [] = []"
| "lease_networks os networks (ref # refs) =
     (if or_Kind ref \<noteq> ''Network'' then []
      else filter (\<lambda>network. n_Name network = or_Name ref \<and> om_UID (n_Meta network) = or_UID ref)
             (range_vals (sub 0 os) networks))
     @ lease_networks (sub 1 os) networks refs"

fun common_networks_loop :: "choices \<Rightarrow> cache \<Rightarrow> Lease \<Rightarrow> string \<Rightarrow> Lease list \<Rightarrow> Network list option" where
  "common_networks_loop os ca lease leaseID [] = None"
| "common_networks_loop os ca lease leaseID (other # rest) =
     (if l_Name other = l_Name lease then common_networks_loop (sub 1 os) ca lease leaseID rest
      else if network_only other then common_networks_loop (sub 1 os) ca lease leaseID rest
      else if gget (l_Labels other) BoskosIdLabel \<noteq> Some leaseID
           then common_networks_loop (sub 1 os) ca lease leaseID rest
      else let foundNetworks = lease_networks (sub 0 os) (ca_networks ca) (l_OwnerReferences other) in
        if foundNetworks \<noteq> [] then Some foundNetworks
        else common_networks_loop (sub 1 os) ca lease leaseID rest)"

definition getCommonNetworksForLease :: "choices \<Rightarrow> cache \<Rightarrow> Lease \<Rightarrow> string + Network list" where
  "getCommonNetworksForLease os ca lease =
     (if network_only lease then Inl (''network-only lease '' @ l_Name lease)
      else case gget (l_Labels lease) BoskosIdLabel of
        None \<Rightarrow> Inl (''no lease label found for '' @ l_Name lease)
      | Some leaseID \<Rightarrow>
          (case common_networks_loop (sub 1 os) ca lease leaseID (range_vals (sub 0 os) (ca_leases ca)) of
             Some foundNetworks \<Rightarrow> Inr foundNetworks
           | None \<Rightarrow> Inl (''no common network found for '' @ l_Name lease)))"

definition sibling_port_groups :: "Network list \<Rightarrow> bool gomap" where
  "sibling_port_groups candidates =
     foldl (\<lambda>m n. if n_PortGroupName n = [] then m else gset (n_PortGroupName n) True m) [] candidates"

definition resolveCommonNetworksForPool ::
  "choices \<Rightarrow> cache \<Rightarrow> Network list \<Rightarrow> Pool \<Rightarrow> Network gomap \<Rightarrow> string \<Rightarrow> Network list option" where
  "resolveCommonNetworksForPool os ca candidates currentPool poolNetworksMap networkType =
     (let poolFiltered = filter (\<lambda>n. gget poolNetworksMap (n_Name n) \<noteq> None) candidates in
      if poolFiltered = [] then
        do { available \<leftarrow> getAvailableNetworks os ca currentPool networkType;
             Some (filter (\<lambda>n. gget_default False (sibling_port_groups candidates) (n_PortGroupName n)) available) }
      else Some poolFiltered)"

section \<open>Port groups common to several pools\<close>

definition port_group_set :: "Network list \<Rightarrow> bool gomap \<Rightarrow> bool gomap" where
  "port_group_set ns m = foldl (\<lambda>m n. gset (n_PortGroupName n) True m) m ns"

definition pool_port_groups :: "choices \<Rightarrow> cache \<Rightarrow> bool \<Rightarrow> Pool \<Rightarrow> string \<Rightarrow> bool gomap option" where
  "pool_port_groups os ca allowMultiToUseSingle pool networkType =
     do { ns \<leftarrow> getAvailableNetworks (sub 0 os) ca pool networkType;
          if allowMultiToUseSingle \<and> networkType = NetworkTypeMultiTenant
          then do { ss \<leftarrow> getAvailableNetworks (sub 1 os) ca pool NetworkTypeSingleTenant;
                    Some (port_group_set ss (port_group_set ns [])) }
          else Some (port_group_set ns []) }"

fun common_loop :: "choices \<Rightarrow> cache \<Rightarrow> bool \<Rightarrow> string \<Rightarrow> Pool list \<Rightarrow> bool gomap \<Rightarrow> bool gomap option" where
  "common_loop os ca allow networkType [] common = Some common"
| "common_loop os ca allow networkType (pool # pools) common =
     do { portGroups \<leftarrow> pool_port_groups (sub 0 os) ca allow pool networkType;
          common_loop (sub 1 os) ca allow networkType pools
            (filter (\<lambda>(name, _). gget_default False portGroups name) common) }"

definition commonPortGroupNames :: "choices \<Rightarrow> cache \<Rightarrow> bool \<Rightarrow> Pool list \<Rightarrow> string \<Rightarrow> bool gomap option" where
  "commonPortGroupNames os ca allow pools networkType =
     (case pools of
        [] \<Rightarrow> Some []
      | pool # rest \<Rightarrow>
          do { portGroups \<leftarrow> pool_port_groups (sub 0 os) ca allow pool networkType;
               common_loop (sub 1 os) ca allow networkType rest portGroups })"

section \<open>Pools of sibling leases\<close>

definition known_pool_names :: "Lease \<Rightarrow> string list" where
  "known_pool_names sibling =
     (let owned = map or_Name (filter (\<lambda>ref. or_Kind ref = ''Pool'') (l_OwnerReferences sibling)) in
      if owned = [] \<and> ls_RequiredPool (l_Spec sibling) \<noteq> [] then [ls_RequiredPool (l_Spec sibling)] else owned)"

fun sibling_pool_names_loop ::
  "choices \<Rightarrow> cache \<Rightarrow> string list \<Rightarrow> string list \<times> Pool list \<Rightarrow> string list \<times> Pool list" where
  "sibling_pool_names_loop os ca [] acc = acc"
| "sibling_pool_names_loop os ca (name # names) (seen, found) =
     sibling_pool_names_loop (sub 1 os) ca names
       (if name \<in> set seen then (seen, found)
        else case find (\<lambda>pool. p_Name pool = name) (range_vals (sub 0 os) (ca_pools ca)) of
          None \<Rightarrow> (seen, found)
        | Some pool \<Rightarrow> (name # seen, found @ [pool]))"

fun sibling_loop ::
  "choices \<Rightarrow> cache \<Rightarrow> Lease \<Rightarrow> string \<Rightarrow> Lease list \<Rightarrow> string list \<times> Pool list \<Rightarrow> string list \<times> Pool list" where
  "sibling_loop os ca lease leaseID [] acc = acc"
| "sibling_loop os ca lease leaseID (sibling # rest) acc =
     sibling_loop (sub 1 os) ca lease leaseID rest
       (if l_Name sibling = l_Name lease \<or> l_DeletionTimestamp sibling \<noteq> None then acc
        else if network_only sibling then acc
        else if gget (l_Labels sibling) BoskosIdLabel \<noteq> Some leaseID then acc
        else sibling_pool_names_loop (sub 0 os) ca (known_pool_names sibling) acc)"

definition resolveSiblingPools :: "choices \<Rightarrow> cache \<Rightarrow> Lease \<Rightarrow> Lease list \<Rightarrow> Pool list" where
  "resolveSiblingPools os ca lease candidates =
     (case gget (l_Labels lease) BoskosIdLabel of
        None \<Rightarrow> []
      | Some leaseID \<Rightarrow> snd (sibling_loop os ca lease leaseID candidates ([], [])))"

section \<open>Port groups already held\<close>

fun contain_loop :: "Network gomap \<Rightarrow> Network \<Rightarrow> OwnerReference list \<Rightarrow> bool option" where
  "contain_loop poolNetworks network [] = Some False"
| "contain_loop poolNetworks network (owner # refs) =
     (if or_Kind owner \<noteq> ''Network'' then contain_loop poolNetworks network refs
      else case gget poolNetworks (or_Name owner) of
        None \<Rightarrow> contain_loop poolNetworks network refs
      | Some poolNetwork \<Rightarrow>
          if n_VlanId poolNetwork = n_VlanId network then
            do { a \<leftarrow> ns_DatacenterName (n_Spec poolNetwork);
                 b \<leftarrow> ns_DatacenterName (n_Spec network);
                 if a = b then Some True else contain_loop poolNetworks network refs }
          else contain_loop poolNetworks network refs)"

definition doesLeaseContainPortGroup :: "choices \<Rightarrow> cache \<Rightarrow> Lease \<Rightarrow> Pool \<Rightarrow> Network \<Rightarrow> bool option" where
  "doesLeaseContainPortGroup os ca lease pool network =
     do { poolNetworks \<leftarrow> getNetworksForPool os ca pool;
          contain_loop poolNetworks network (l_OwnerReferences lease) }"

end
