(* ===== verification/GoFloat.thy ===== *)
theory GoFloat
  imports GoPrelude
begin

text \<open>
  Binary floating point as the source uses it: \<open>float64\<close> arithmetic with rounding to nearest
  even, conversion to \<open>int\<close>, and \<open>strconv.ParseFloat\<close>. A finite value is the rational number it
  denotes; the sign of zero is not kept, since the source never divides by a computed zero
  and never prints one. A conversion of a value outside the 64-bit range gives the smallest
  integer, as on amd64.
\<close>

section \<open>Values and rounding\<close>

datatype gofloat = Fin rat | PInf | MInf | NaN

definition pow2 :: "int \<Rightarrow> rat" where
  "pow2 e = (if e \<ge> 0 then 2 ^ nat e else 1 / 2 ^ nat (- e))"

function log2 :: "int \<Rightarrow> int" where
  "log2 n = (if n < 2 then 0 else log2 (n div 2) + 1)"
  by pat_completeness auto
termination
  by (relation "measure nat") auto

declare log2.simps [simp del]

definition ilog2 :: "rat \<Rightarrow> int" where
  "ilog2 x =
     (if x \<ge> 1 then log2 \<lfloor>x\<rfloor>
      else let y = \<lceil>1 / x\<rceil> in if y \<le> 1 then 0 else - (log2 (y - 1) + 1))"

definition round_half_even :: "rat \<Rightarrow> int" where
  "round_half_even x =
     (let f = \<lfloor>x\<rfloor>; d = x - of_int f in
      if d < 1 / 2 then f else if d > 1 / 2 then f + 1 else if even f then f else f + 1)"

definition round_float :: "int \<Rightarrow> int \<Rightarrow> int \<Rightarrow> rat \<Rightarrow> gofloat" where
  "round_float prec emin emax x =
     (if x = 0 then Fin 0
      else let q = pow2 (max (ilog2 \<bar>x\<bar> - prec + 1) emin);
               r = of_int (round_half_even (x / q)) * q
           in if \<bar>r\<bar> \<ge> pow2 emax then (if x > 0 then PInf else MInf) else Fin r)"

abbreviation "round64 \<equiv> round_float 53 (- 1074) 1024"
abbreviation "round32 \<equiv> round_float 24 (- 149) 128"

section \<open>Arithmetic\<close>

definition f64_of_int :: "int \<Rightarrow> gofloat" where
  "f64_of_int i = round64 (of_int i)"

definition f_neg :: "gofloat \<Rightarrow> gofloat" where
  "f_neg x = (case x of Fin a \<Rightarrow> Fin (- a) | PInf \<Rightarrow> MInf | MInf \<Rightarrow> PInf | NaN \<Rightarrow> NaN)"

definition inf_of_sign :: "bool \<Rightarrow> gofloat" where
  "inf_of_sign pos = (if pos then PInf else MInf)"

fun f64_add :: "gofloat \<Rightarrow> gofloat \<Rightarrow> gofloat" where
  "f64_add (Fin a) (Fin b) = round64 (a + b)"
| "f64_add (Fin a) y = y"
| "f64_add x (Fin b) = x"
| "f64_add PInf PInf = PInf"
| "f64_add MInf MInf = MInf"
| "f64_add x y = NaN"

definition f64_sub :: "gofloat \<Rightarrow> gofloat \<Rightarrow> gofloat" where
  "f64_sub x y = f64_add x (f_neg y)"

fun f64_mul :: "gofloat \<Rightarrow> gofloat \<Rightarrow> gofloat" where
  "f64_mul (Fin a) (Fin b) = round64 (a * b)"
| "f64_mul NaN y = NaN"
| "f64_mul x NaN = NaN"
| "f64_mul (Fin a) PInf = (if a = 0 then NaN else inf_of_sign (a > 0))"
| "f64_mul (Fin a) MInf = (if a = 0 then NaN else inf_of_sign (a < 0))"
| "f64_mul PInf (Fin b) = (if b = 0 then NaN else inf_of_sign (b > 0))"
| "f64_mul MInf (Fin b) = (if b = 0 then NaN else inf_of_sign (b < 0))"
| "f64_mul PInf y = y"
| "f64_mul MInf y = f_neg y"

fun f64_div :: "gofloat \<Rightarrow> gofloat \<Rightarrow> gofloat" where
  "f64_div (Fin a) (Fin b) =
     (if b = 0 then (if a = 0 then NaN else inf_of_sign (a > 0)) else round64 (a / b))"
| "f64_div NaN y = NaN"
| "f64_div x NaN = NaN"
| "f64_div (Fin a) y = Fin 0"
| "f64_div PInf (Fin b) = inf_of_sign (b \<ge> 0)"
| "f64_div MInf (Fin b) = inf_of_sign (b < 0)"
| "f64_div x y = NaN"

fun f64_lt :: "gofloat \<Rightarrow> gofloat \<Rightarrow> bool" where
  "f64_lt (Fin a) (Fin b) = (a < b)"
| "f64_lt (Fin a) PInf = True"
| "f64_lt MInf (Fin b) = True"
| "f64_lt MInf PInf = True"
| "f64_lt x y = False"

definition f64_to_int :: "gofloat \<Rightarrow> int" where
  "f64_to_int x =
     (case x of
        Fin a \<Rightarrow> let t = (if a \<ge> 0 then \<lfloor>a\<rfloor> else \<lceil>a\<rceil>) in if int64 t then t else - (2 ^ 63)
      | _ \<Rightarrow> - (2 ^ 63))"

section \<open>ParseFloat\<close>

definition lower_char :: "char \<Rightarrow> char" where
  "lower_char c = (let n = (of_char c :: nat) in if 65 \<le> n \<and> n \<le> 90 then char_of (n + 32) else c)"

definition digit_val :: "int \<Rightarrow> char \<Rightarrow> int option" where
  "digit_val base c =
     (let n = (of_char (lower_char c) :: int) in
      if 48 \<le> n \<and> n \<le> 57 then Some (n - 48)
      else if base = 16 \<and> 97 \<le> n \<and> n \<le> 102 then Some (n - 87)
      else None)"

text \<open>
  The mantissa loop: the digits read so far as a number, how many of them follow the point,
  whether a point, a digit and an underscore were seen, and the unread rest.
\<close>

record mantissa =
  m_val :: int
  m_frac :: nat
  m_dot :: bool
  m_digits :: bool
  m_under :: bool

fun read_mantissa :: "int \<Rightarrow> mantissa \<Rightarrow> string \<Rightarrow> mantissa \<times> string" where
  "read_mantissa base m [] = (m, [])"
| "read_mantissa base m (c # cs) =
     (if c = CHR ''_'' then read_mantissa base (m\<lparr>m_under := True\<rparr>) cs
      else if c = CHR ''.'' then
        (if m_dot m then (m, c # cs) else read_mantissa base (m\<lparr>m_dot := True\<rparr>) cs)
      else case digit_val base c of
        Some d \<Rightarrow> read_mantissa base
          (m\<lparr>m_val := m_val m * base + d, m_frac := (if m_dot m then Suc (m_frac m) else m_frac m),
             m_digits := True\<rparr>) cs
      | None \<Rightarrow> (m, c # cs))"

fun read_exp :: "int \<Rightarrow> bool \<Rightarrow> string \<Rightarrow> int \<times> bool \<times> string" where
  "read_exp e u [] = (e, u, [])"
| "read_exp e u (c # cs) =
     (if c = CHR ''_'' then read_exp e True cs
      else case digit_val 10 c of
        Some d \<Rightarrow> read_exp (if e < 10000 then e * 10 + d else e) u cs
      | None \<Rightarrow> (e, u, c # cs))"

definition strip_sign :: "string \<Rightarrow> bool \<times> string" where
  "strip_sign s = (case s of
      [] \<Rightarrow> (False, s)
    | c # cs \<Rightarrow> if c = CHR ''-'' then (True, cs) else if c = CHR ''+'' then (False, cs) else (False, s))"

fun underscore_loop :: "bool \<Rightarrow> char \<Rightarrow> string \<Rightarrow> bool" where
  "underscore_loop hex saw [] = (saw \<noteq> CHR ''_'')"
| "underscore_loop hex saw (c # cs) =
     (if digit_val (if hex then 16 else 10) c \<noteq> None then underscore_loop hex (CHR ''0'') cs
      else if c = CHR ''_'' then (if saw \<noteq> CHR ''0'' then False else underscore_loop hex (CHR ''_'') cs)
      else if saw = CHR ''_'' then False
      else underscore_loop hex (CHR ''!'') cs)"

definition underscoreOK :: "string \<Rightarrow> bool" where
  "underscoreOK s =
     (case snd (strip_sign s) of
        c # d # cs \<Rightarrow>
          if c = CHR ''0'' \<and> lower_char d \<in> {CHR ''b'', CHR ''o'', CHR ''x''}
          then underscore_loop (lower_char d = CHR ''x'') (CHR ''0'') cs
          else underscore_loop False (CHR ''^'') (c # d # cs)
      | cs \<Rightarrow> underscore_loop False (CHR ''^'') cs)"

text \<open>The exact value of a numeral, \<open>None\<close> for a syntax error.\<close>

definition read_float :: "string \<Rightarrow> rat option" where
  "read_float s =
     (let (neg, s1) = strip_sign s;
          hex = (case s1 of c # d # _ # _ \<Rightarrow> c = CHR ''0'' \<and> lower_char d = CHR ''x'' | _ \<Rightarrow> False);
          base = (if hex then 16 else 10);
          (m, s2) = read_mantissa base
             \<lparr>m_val = 0, m_frac = 0, m_dot = False, m_digits = False, m_under = False\<rparr>
             (if hex then drop 2 s1 else s1);
          val = (if neg then -1 else 1) * of_int (m_val m) / of_int (base ^ m_frac m)
      in if \<not> m_digits m then None
         else case s2 of
           [] \<Rightarrow> if hex \<or> (m_under m \<and> \<not> underscoreOK s) then None else Some val
         | c # s3 \<Rightarrow>
             if lower_char c \<noteq> (if hex then CHR ''p'' else CHR ''e'') \<or> s3 = [] then None
             else let (eneg, s4) = strip_sign s3 in
               if s4 = [] \<or> digit_val 10 (hd s4) = None then None
               else let (e, u, rest) = read_exp 0 (m_under m) s4 in
                 if rest \<noteq> [] \<or> (u \<and> \<not> underscoreOK s) then None
                 else Some (if eneg then val / of_int ((if hex then 2 else 10) ^ nat e)
                            else val * of_int ((if hex then 2 else 10) ^ nat e)))"

definition parse_special :: "string \<Rightarrow> gofloat option" where
  "parse_special s =
     (let (neg, s1) = strip_sign s; t = map lower_char s1 in
      if t = ''inf'' \<or> t = ''infinity'' then Some (if neg then MInf else PInf)
      else if map lower_char s = ''nan'' then Some NaN else None)"

text \<open>\<open>None\<close> stands for a non-nil error: a syntax error, or a value out of range.\<close>

definition ParseFloat :: "string \<Rightarrow> nat \<Rightarrow> gofloat option" where
  "ParseFloat s bitSize =
     (case parse_special s of
        Some f \<Rightarrow> Some f
      | None \<Rightarrow>
          (case read_float s of
             None \<Rightarrow> None
           | Some x \<Rightarrow> (case (if bitSize = 32 then round32 x else round64 x) of
                Fin y \<Rightarrow> Some (Fin y) | _ \<Rightarrow> None)))"

section \<open>Exactness\<close>

lemma pow2_pos [simp]: "0 < pow2 e"
  by (simp add: pow2_def)

lemma pow2_powi: "pow2 e = 2 powi e"
  by (cases "e \<ge> 0") (simp_all add: pow2_def power_int_def inverse_eq_divide power_one_over)

lemma pow2_neq_0 [simp]: "pow2 e \<noteq> 0"
  using pow2_pos [of e] by linarith

lemma pow2_add: "pow2 (a + b) = pow2 a * pow2 b"
  unfolding pow2_powi by (rule power_int_add) simp

lemma pow2_0 [simp]: "pow2 0 = 1"
  by (simp add: pow2_def)

lemma pow2_mono: "a \<le> b \<Longrightarrow> pow2 a \<le> pow2 b"
proof -
  assume "a \<le> b"
  then have "pow2 (b - a) \<ge> 1" by (simp add: pow2_def)
  then have "pow2 a * 1 \<le> pow2 a * pow2 (b - a)" by (intro mult_left_mono) (simp_all add: less_imp_le)
  then show ?thesis by (simp flip: pow2_add)
qed

lemma log2_nonneg: "0 \<le> log2 n"
  by (induction n rule: log2.induct) (simp add: log2.simps)

lemma log2_bounds: "0 < n \<Longrightarrow> 2 ^ nat (log2 n) \<le> n \<and> n < 2 * 2 ^ nat (log2 n)"
proof (induction n rule: log2.induct)
  case (1 n)
  show ?case
  proof (cases "n < 2")
    case True
    with 1 show ?thesis by (simp add: log2.simps [of n])
  next
    case False
    then have "2 ^ nat (log2 (n div 2)) \<le> n div 2 \<and> n div 2 < 2 * 2 ^ nat (log2 (n div 2))"
      using 1 by simp
    moreover have "nat (log2 n) = Suc (nat (log2 (n div 2)))"
      using False log2_nonneg [of "n div 2"] by (simp add: log2.simps [of n] nat_add_distrib)
    ultimately show ?thesis by simp linarith
  qed
qed

lemma ilog2_lower:
  assumes "0 < x" shows "pow2 (ilog2 x) \<le> x"
proof (cases "x \<ge> 1")
  case True
  then have "2 ^ nat (log2 \<lfloor>x\<rfloor>) \<le> \<lfloor>x\<rfloor>" using log2_bounds [of "\<lfloor>x\<rfloor>"] by simp
  then have "(2::rat) ^ nat (log2 \<lfloor>x\<rfloor>) \<le> x" by (simp add: le_floor_iff)
  with True log2_nonneg [of "\<lfloor>x\<rfloor>"] show ?thesis by (simp add: ilog2_def pow2_def)
next
  case False
  define y where "y = \<lceil>1 / x\<rceil>"
  have "1 / x > 1" using assms False by simp
  then have y: "1 < y" unfolding y_def by (simp add: less_ceiling_iff)
  define n where "n = nat (1 + log2 (y - 1))"
  have n: "(2::int) ^ n = 2 * 2 ^ nat (log2 (y - 1))"
    using log2_nonneg [of "y - 1"] by (simp add: n_def nat_add_distrib)
  have "y \<le> 2 ^ n" using log2_bounds [of "y - 1"] y n by simp
  then have "1 / x \<le> of_int (2 ^ n)" unfolding y_def by (simp only: ceiling_le_iff)
  then have "1 / 2 ^ n \<le> x" using assms by (simp add: field_simps)
  with False y log2_nonneg [of "y - 1"] show ?thesis
    by (simp add: ilog2_def pow2_def Let_def n_def flip: y_def)
qed

lemma round_half_even_int [simp]: "round_half_even (of_int m) = m"
  by (simp add: round_half_even_def)

text \<open>A number with a mantissa of 53 bits is represented exactly.\<close>

lemma round64_exact:
  assumes "\<bar>m\<bar> < 2 ^ 53" "- 1074 \<le> k" "k \<le> 900"
  shows "round64 (of_int m * pow2 k) = Fin (of_int m * pow2 k)"
proof (cases "m = 0")
  case False
  let ?x = "of_int m * pow2 k :: rat"
  have x: "?x \<noteq> 0" "0 < \<bar>?x\<bar>" using False by auto
  have "\<bar>of_int m :: rat\<bar> < 2 ^ 53"
    using assms(1) by (metis of_int_abs of_int_less_iff of_int_numeral of_int_power)
  then have "\<bar>?x\<bar> < 2 ^ 53 * pow2 k" by (simp add: abs_mult abs_of_pos)
  also have "\<dots> = pow2 (53 + k)" by (simp add: pow2_add) (simp add: pow2_def)
  finally have lt: "\<bar>?x\<bar> < pow2 (53 + k)" .
  define e where "e = max (ilog2 \<bar>?x\<bar> - 53 + 1) (- 1074)"
  have "pow2 (ilog2 \<bar>?x\<bar>) < pow2 (53 + k)" using ilog2_lower [OF x(2)] lt by linarith
  then have "ilog2 \<bar>?x\<bar> < 53 + k" using pow2_mono [of "53 + k" "ilog2 \<bar>?x\<bar>"] by linarith
  then have e: "e \<le> k" using assms(2) by (simp add: e_def)
  have "pow2 (k - e) = of_int (2 ^ nat (k - e))" using e by (simp add: pow2_def)
  then have "?x / pow2 e = of_int (m * 2 ^ nat (k - e))"
    using pow2_add [of e "k - e"] pow2_pos [of e] by (simp add: field_simps)
  then have r: "of_int (round_half_even (?x / pow2 e)) * pow2 e = ?x"
    using pow2_pos [of e] by (metis less_numeral_extra(3) nonzero_eq_divide_eq round_half_even_int)
  have "pow2 (53 + k) \<le> pow2 1024" using assms(3) by (intro pow2_mono) simp
  with r x lt show ?thesis
    unfolding round_float_def Let_def e_def by simp
qed (simp add: round_float_def)

lemma f64_of_int_exact: "\<bar>i\<bar> < 2 ^ 53 \<Longrightarrow> f64_of_int i = Fin (of_int i)"
  using round64_exact [of i 0] by (simp add: f64_of_int_def)

text \<open>For evaluation: an integer of 53 bits needs no rounding.\<close>

lemma round_float_code [code]:
  "round_float prec emin emax x =
     (if prec = 53 \<and> emin = - 1074 \<and> emax = 1024 \<and> x = of_int \<lfloor>x\<rfloor> \<and> \<bar>\<lfloor>x\<rfloor>\<bar> < 2 ^ 53 then Fin x
      else if x = 0 then Fin 0
      else let q = pow2 (max (ilog2 \<bar>x\<bar> - prec + 1) emin);
               r = of_int (round_half_even (x / q)) * q
           in if \<bar>r\<bar> \<ge> pow2 emax then (if x > 0 then PInf else MInf) else Fin r)"
proof (cases "prec = 53 \<and> emin = - 1074 \<and> emax = 1024 \<and> x = of_int \<lfloor>x\<rfloor> \<and> \<bar>\<lfloor>x\<rfloor>\<bar> < 2 ^ 53")
  case True
  with round64_exact [of "\<lfloor>x\<rfloor>" 0] show ?thesis by auto
qed (simp only: round_float_def if_False)

lemma f64_mul_one: "\<bar>i\<bar> < 2 ^ 53 \<Longrightarrow> f64_to_int (f64_mul (f64_of_int i) (Fin 1)) = i"
  using round64_exact [of i 0] by (simp add: f64_of_int_exact f64_to_int_def int64_def) linarith

section \<open>No overflow on moderate values\<close>

lemma round_half_even_near: "\<bar>of_int (round_half_even y) - y\<bar> \<le> 1"
proof -
  have "of_int \<lfloor>y\<rfloor> \<le> y" "y < of_int \<lfloor>y\<rfloor> + 1" using floor_correct [of y] by simp_all
  then show ?thesis by (auto simp: round_half_even_def Let_def)
qed

lemma round64_finite:
  assumes "\<bar>x\<bar> \<le> pow2 1000"
  shows "\<exists>r. round64 x = Fin r \<and> \<bar>r\<bar> \<le> 2 * \<bar>x\<bar> + 1"
proof (cases "x = 0")
  case False
  define q where "q = pow2 (max (ilog2 \<bar>x\<bar> - 53 + 1) (- 1074))"
  have "pow2 (ilog2 \<bar>x\<bar> - 53 + 1) \<le> \<bar>x\<bar>"
    using ilog2_lower [of "\<bar>x\<bar>"] pow2_mono [of "ilog2 \<bar>x\<bar> - 53 + 1" "ilog2 \<bar>x\<bar>"] False by simp
  moreover have "pow2 (- 1074) \<le> 1" using pow2_mono [of "- 1074" 0] by simp
  ultimately have q: "0 < q" "q \<le> \<bar>x\<bar> + 1" by (auto simp: q_def max_def)
  have "of_int (round_half_even (x / q)) * q - x = (of_int (round_half_even (x / q)) - x / q) * q"
    using q(1) by (simp add: field_simps)
  also have "\<bar>\<dots>\<bar> \<le> 1 * q"
    unfolding abs_mult using round_half_even_near [of "x / q"] q(1) by (intro mult_mono) auto
  finally have near: "\<bar>of_int (round_half_even (x / q)) * q\<bar> \<le> 2 * \<bar>x\<bar> + 1" using q(2) by linarith
  also have "\<dots> < pow2 1024"
  proof -
    have "pow2 1024 = 16777216 * pow2 1000" "1 \<le> pow2 1000"
      using pow2_add [of 24 1000] pow2_mono [of 0 1000] by (simp_all add: pow2_def [of 24])
    with assms show ?thesis by linarith
  qed
  finally show ?thesis using False near by (simp add: round_float_def Let_def q_def)
qed (simp add: round_float_def)

lemma f64_ratio_finite:
  assumes "\<bar>a\<bar> < 2 ^ 53" "0 < b" "b < 2 ^ 53"
  shows "\<exists>r. f64_div (f64_of_int a) (f64_of_int b) = Fin r \<and> \<bar>r\<bar> \<le> 2 ^ 54 + 1"
proof -
  let ?x = "of_int a / of_int b :: rat"
  have "\<bar>of_int a :: rat\<bar> \<le> 2 ^ 53"
    using assms(1) by (metis less_imp_le of_int_abs of_int_le_iff of_int_numeral of_int_power)
  moreover have "\<bar>?x\<bar> \<le> \<bar>of_int a\<bar>"
    using assms(2) divide_left_mono [of 1 "of_int b :: rat" "\<bar>of_int a\<bar>"] by (simp add: abs_divide)
  ultimately have x: "\<bar>?x\<bar> \<le> 2 ^ 53" by linarith
  have "pow2 53 \<le> pow2 1000" by (rule pow2_mono) simp
  then have "(2::rat) ^ 53 \<le> pow2 1000" by (simp add: pow2_def [of 53])
  with x obtain r where r: "round64 ?x = Fin r" "\<bar>r\<bar> \<le> 2 * \<bar>?x\<bar> + 1"
    using round64_finite [of ?x] by force
  with x assms show ?thesis by (auto simp: f64_of_int_exact)
qed

lemma f64_add_finite:
  assumes "\<bar>r\<bar> \<le> 2 ^ 54 + 1" "\<bar>s\<bar> \<le> 2 ^ 54 + 1"
  shows "\<exists>t. f64_add (Fin r) (Fin s) = Fin t"
proof -
  have "pow2 60 \<le> pow2 1000" by (rule pow2_mono) simp
  then have "(2::rat) ^ 60 \<le> pow2 1000" by (simp add: pow2_def [of 60])
  moreover have "\<bar>r + s\<bar> \<le> 2 ^ 60" using assms by simp
  ultimately have "\<bar>r + s\<bar> \<le> pow2 1000" by linarith
  then show ?thesis using round64_finite by auto
qed

end
