(* ===== verification/ApiClient.thy ===== *)
theory ApiClient
  imports NetworkSelect GoFloat
begin

text \<open>
  The world of the controllers: the Kubernetes API server behind the controller-runtime client, the cache
  of theory \<open>NetworkSelect\<close> and the Prometheus metrics. The client is not part of the program; its
  calls are a record of functions over an abstract server state, and theorems hold for every such
  record unless they name what they rely on. A metric call is an event appended to a trace.
\<close>

section \<open>The client\<close>

datatype api_error = NotFound string | ApiError string

primrec err_text :: "api_error \<Rightarrow> string" where
  "err_text (NotFound s) = s"
| "err_text (ApiError s) = s"

text \<open>
  An update writes the server's answer back into the object it was called with: the result is that
  answer. \<open>api_stamp\<close> is \<open>Format(time.RFC3339)\<close>, which reads the local time zone, and \<open>api_name\<close> what the
  random name generator, a third-party package, returns in the reconcile at hand.
\<close>

record 's api =
  api_get_lease :: "string \<Rightarrow> string \<Rightarrow> 's \<Rightarrow> api_error + Lease"
  api_get_pool :: "string \<Rightarrow> string \<Rightarrow> 's \<Rightarrow> api_error + Pool"
  api_get_network :: "string \<Rightarrow> string \<Rightarrow> 's \<Rightarrow> api_error + Network"
  api_update_lease :: "Lease \<Rightarrow> 's \<Rightarrow> (string + Lease) \<times> 's"
  api_status_lease :: "Lease \<Rightarrow> 's \<Rightarrow> (string + Lease) \<times> 's"
  api_delete_lease :: "Lease \<Rightarrow> 's \<Rightarrow> (string + unit) \<times> 's"
  api_update_pool :: "Pool \<Rightarrow> 's \<Rightarrow> (string + Pool) \<times> 's"
  api_status_pool :: "Pool \<Rightarrow> 's \<Rightarrow> (string + Pool) \<times> 's"
  api_update_network :: "Network \<Rightarrow> 's \<Rightarrow> (string + Network) \<times> 's"
  api_list_leases :: "string \<Rightarrow> 's \<Rightarrow> string + Lease list"
  api_list_namespaces :: "'s \<Rightarrow> string + string list"
  api_stamp :: "int \<Rightarrow> string"
  api_name :: string

text \<open>
  The request of a reconcile, \<open>client.IgnoreNotFound\<close>, and the outcome of a reconcile: an error, or a result with the time after
  which the request is queued again, if any.
\<close>

record request =
  rq_Namespace :: string
  rq_Name :: string

datatype reconcile_result = Done | RequeueAfter int | Failed string

definition ignore_not_found :: "api_error \<Rightarrow> reconcile_result" where
  "ignore_not_found e = (case e of NotFound s \<Rightarrow> Done | ApiError s \<Rightarrow> Failed s)"

section \<open>Metrics\<close>

datatype metric =
    MInc string "string gomap"
  | MDec string "string gomap"
  | MAdd string "string gomap" gofloat
  | MSet string "string gomap" gofloat
  | MReset string

section \<open>The world\<close>

record 's world =
  w_cache :: cache
  w_server :: 's
  w_metrics :: "metric list"

definition emit :: "metric list \<Rightarrow> 's world \<Rightarrow> 's world" where
  "emit ms w = w\<lparr>w_metrics := w_metrics w @ ms\<rparr>"

definition set_server :: "'s \<Rightarrow> 's world \<Rightarrow> 's world" where
  "set_server s w = w\<lparr>w_server := s\<rparr>"

definition put_lease :: "string \<Rightarrow> Lease \<Rightarrow> 's world \<Rightarrow> 's world" where
  "put_lease k l w = w\<lparr>w_cache := (w_cache w)\<lparr>ca_leases := gset k l (ca_leases (w_cache w))\<rparr>\<rparr>"

definition drop_lease :: "string \<Rightarrow> 's world \<Rightarrow> 's world" where
  "drop_lease k w = w\<lparr>w_cache := (w_cache w)\<lparr>ca_leases := gdelete k (ca_leases (w_cache w))\<rparr>\<rparr>"

definition put_pool :: "string \<Rightarrow> Pool \<Rightarrow> 's world \<Rightarrow> 's world" where
  "put_pool k p w = w\<lparr>w_cache := (w_cache w)\<lparr>ca_pools := gset k p (ca_pools (w_cache w))\<rparr>\<rparr>"

definition drop_pool :: "string \<Rightarrow> 's world \<Rightarrow> 's world" where
  "drop_pool k w = w\<lparr>w_cache := (w_cache w)\<lparr>ca_pools := gdelete k (ca_pools (w_cache w))\<rparr>\<rparr>"

definition put_network :: "string \<Rightarrow> Network \<Rightarrow> 's world \<Rightarrow> 's world" where
  "put_network k n w = w\<lparr>w_cache := (w_cache w)\<lparr>ca_networks := gset k n (ca_networks (w_cache w))\<rparr>\<rparr>"

lemma world_simps [simp]:
  "w_cache (emit ms w) = w_cache w" "w_server (emit ms w) = w_server w" "w_metrics (emit ms w) = w_metrics w @ ms"
  "w_cache (set_server s w) = w_cache w" "w_server (set_server s w) = s" "w_metrics (set_server s w) = w_metrics w"
  "w_server (put_lease k l w) = w_server w" "w_metrics (put_lease k l w) = w_metrics w"
  "w_server (drop_lease k w) = w_server w" "w_metrics (drop_lease k w) = w_metrics w"
  "w_server (put_pool k p w) = w_server w" "w_server (drop_pool k w) = w_server w"
  "w_server (put_network k n w) = w_server w"
  by (simp_all add: emit_def set_server_def put_lease_def drop_lease_def put_pool_def drop_pool_def put_network_def)

lemma put_lease_cache [simp]:
  "ca_leases (w_cache (put_lease k l w)) = gset k l (ca_leases (w_cache w))"
  "ca_pools (w_cache (put_lease k l w)) = ca_pools (w_cache w)"
  "ca_networks (w_cache (put_lease k l w)) = ca_networks (w_cache w)"
  "ca_leases (w_cache (drop_lease k w)) = gdelete k (ca_leases (w_cache w))"
  "ca_pools (w_cache (drop_lease k w)) = ca_pools (w_cache w)"
  "ca_networks (w_cache (drop_lease k w)) = ca_networks (w_cache w)"
  by (simp_all add: put_lease_def drop_lease_def)

lemma put_pool_cache [simp]:
  "ca_pools (w_cache (put_pool k p w)) = gset k p (ca_pools (w_cache w))"
  "ca_leases (w_cache (put_pool k p w)) = ca_leases (w_cache w)"
  "ca_networks (w_cache (put_pool k p w)) = ca_networks (w_cache w)"
  "ca_pools (w_cache (drop_pool k w)) = gdelete k (ca_pools (w_cache w))"
  "ca_leases (w_cache (drop_pool k w)) = ca_leases (w_cache w)"
  "ca_networks (w_cache (drop_pool k w)) = ca_networks (w_cache w)"
  "ca_networks (w_cache (put_network k n w)) = gset k n (ca_networks (w_cache w))"
  "ca_pools (w_cache (put_network k n w)) = ca_pools (w_cache w)"
  "ca_leases (w_cache (put_network k n w)) = ca_leases (w_cache w)"
  by (simp_all add: put_pool_def drop_pool_def put_network_def)

lemma cache_ok_world [simp]:
  "cache_ok (w_cache w) \<Longrightarrow> cache_ok (w_cache (put_lease k l w))"
  "cache_ok (w_cache w) \<Longrightarrow> cache_ok (w_cache (drop_lease k w))"
  "cache_ok (w_cache w) \<Longrightarrow> cache_ok (w_cache (put_pool k p w))"
  "cache_ok (w_cache w) \<Longrightarrow> cache_ok (w_cache (drop_pool k w))"
  "cache_ok (w_cache w) \<Longrightarrow> cache_ok (w_cache (put_network k n w))"
  by (simp_all add: cache_ok_def)

definition object_key :: "string \<Rightarrow> string \<Rightarrow> string" where
  "object_key ns name = ns @ ''/'' @ name"

section \<open>A server for examples\<close>

text \<open>It knows one object of each kind, whatever the name asked for, and answers every write with what was sent.\<close>

definition echo_api :: "Lease \<Rightarrow> Pool \<Rightarrow> Network \<Rightarrow> unit api" where
  "echo_api lease pool network =
     \<lparr>api_get_lease = (\<lambda>_ _ _. Inr lease), api_get_pool = (\<lambda>_ _ _. Inr pool), api_get_network = (\<lambda>_ _ _. Inr network),
      api_update_lease = (\<lambda>l s. (Inr l, s)), api_status_lease = (\<lambda>l s. (Inr l, s)), api_delete_lease = (\<lambda>_ s. (Inr (), s)),
      api_update_pool = (\<lambda>p s. (Inr p, s)), api_status_pool = (\<lambda>p s. (Inr p, s)), api_update_network = (\<lambda>n s. (Inr n, s)),
      api_list_leases = (\<lambda>_ _. Inr []), api_list_namespaces = (\<lambda>_. Inr []),
      api_stamp = (\<lambda>_. ''2024-01-01T00:00:00Z''), api_name = ''happy_einstein''\<rparr>"

lemma echo_api_simps [simp]:
  "api_get_lease (echo_api l p n) ns nm s = Inr l" "api_get_pool (echo_api l p n) ns nm s = Inr p"
  "api_get_network (echo_api l p n) ns nm s = Inr n" "api_update_lease (echo_api l p n) x s = (Inr x, s)"
  "api_status_lease (echo_api l p n) x s = (Inr x, s)" "api_update_pool (echo_api l p n) y s = (Inr y, s)"
  "api_status_pool (echo_api l p n) y s = (Inr y, s)" "api_update_network (echo_api l p n) z s = (Inr z, s)"
  "api_list_leases (echo_api l p n) ns s = Inr []" "api_name (echo_api l p n) = ''happy_einstein''"
  "api_list_namespaces (echo_api l p n) s = Inr []" "api_delete_lease (echo_api l p n) x s = (Inr (), s)"
  by (simp_all add: echo_api_def)

end
