(* ===== verification/NetworkView.thy ===== *)
theory NetworkView
  imports NetworkSelect
begin

text \<open>
  What the network selection of theory \<open>NetworkSelect\<close> computes, stated over the cache instead of over
  the loops: the networks of a pool, the free ones, the networks and pools of sibling leases and
  the port groups that several pools share.
\<close>

section \<open>The networks of a pool\<close>

definition net_in_pool :: "cache \<Rightarrow> Pool \<Rightarrow> Network \<Rightarrow> bool" where
  "net_in_pool ca pool n \<longleftrightarrow> n \<in> snd ` set (ca_networks ca) \<and>
     ns_PodName (n_Spec n) = Some (ibm_Pod (ps_IBMPoolSpec (p_Spec pool))) \<and>
     n_PortGroupName n \<in> path_base ` set (tp_Networks (p_Topology pool))"

text \<open>
  An inventory the selection is exact on: every network has a pod, names identify networks, and so
  do pod and port group.
\<close>

definition inventory_ok :: "cache \<Rightarrow> bool" where
  "inventory_ok ca \<longleftrightarrow> cache_ok ca \<and>
     (\<forall>n \<in> snd ` set (ca_networks ca). ns_PodName (n_Spec n) \<noteq> None) \<and>
     inj_on n_Name (snd ` set (ca_networks ca)) \<and>
     inj_on (\<lambda>n. (ns_PodName (n_Spec n), n_PortGroupName n)) (snd ` set (ca_networks ca))"

lemma inventory_cache_ok: "inventory_ok ca \<Longrightarrow> cache_ok ca"
  by (simp add: inventory_ok_def)

lemma first_match_found:
  "first_match pool nm ns = Some (Some n) \<Longrightarrow>
   n \<in> set ns \<and> ns_PodName (n_Spec n) = Some (ibm_Pod (ps_IBMPoolSpec (p_Spec pool))) \<and> n_PortGroupName n = nm"
  by (induction ns) (auto split: option.splits if_splits)

lemma first_match_absent:
  "first_match pool nm ns = Some None \<Longrightarrow> n \<in> set ns \<Longrightarrow>
   \<not> (ns_PodName (n_Spec n) = Some (ibm_Pod (ps_IBMPoolSpec (p_Spec pool))) \<and> n_PortGroupName n = nm)"
  by (induction ns) (auto split: option.splits if_splits)

lemma first_match_total:
  "\<forall>n \<in> set ns. ns_PodName (n_Spec n) \<noteq> None \<Longrightarrow> first_match pool nm ns \<noteq> None"
  by (induction ns) (auto split: option.splits)

lemma networks_loop_sound:
  assumes "choices_ok os" "gomap_ok nets" "gomap_ok acc"
    and "networks_loop os nets pool paths acc = Some m" "gget m k = Some n"
  shows "gomap_ok m \<and> (gget acc k = Some n \<or> n_Name n = k \<and> n \<in> snd ` set nets \<and>
    ns_PodName (n_Spec n) = Some (ibm_Pod (ps_IBMPoolSpec (p_Spec pool))) \<and>
    n_PortGroupName n \<in> path_base ` set paths)"
  using assms
proof (induction paths arbitrary: os acc)
  case (Cons path paths)
  from Cons.prems(4) obtain r where r: "first_match pool (path_base path) (range_vals (sub 0 os) nets) = Some r"
    and rest: "networks_loop (sub 1 os) nets pool paths
      (case r of None \<Rightarrow> acc | Some network \<Rightarrow> gset (n_Name network) network acc) = Some m"
    by (auto split: Option.bind_splits)
  show ?case
  proof (cases r)
    case None
    with Cons.IH [OF _ Cons.prems(2,3) _ Cons.prems(5), of "sub 1 os"] Cons.prems(1) rest show ?thesis by auto
  next
    case (Some network)
    have ok: "gomap_ok (gset (n_Name network) network acc)" using Cons.prems(3) by simp
    have "gomap_ok m \<and> (gget (gset (n_Name network) network acc) k = Some n \<or> n_Name n = k \<and> n \<in> snd ` set nets \<and>
        ns_PodName (n_Spec n) = Some (ibm_Pod (ps_IBMPoolSpec (p_Spec pool))) \<and>
        n_PortGroupName n \<in> path_base ` set paths)"
      using Cons.IH [OF _ Cons.prems(2) ok _ Cons.prems(5), of "sub 1 os"] Cons.prems(1) rest Some by simp
    moreover have "network \<in> snd ` set nets \<and> ns_PodName (n_Spec network) = Some (ibm_Pod (ps_IBMPoolSpec (p_Spec pool))) \<and>
        n_PortGroupName network = path_base path"
      using first_match_found [OF r [unfolded Some]] Cons.prems(1,2) by simp
    ultimately show ?thesis by (cases "k = n_Name network") auto
  qed
qed simp

lemma networks_loop_ok:
  "gomap_ok acc \<Longrightarrow> networks_loop os nets pool paths acc = Some m \<Longrightarrow> gomap_ok m"
proof (induction paths arbitrary: os acc)
  case (Cons path paths)
  from Cons.prems(2) obtain r where
    "networks_loop (sub 1 os) nets pool paths
      (case r of None \<Rightarrow> acc | Some network \<Rightarrow> gset (n_Name network) network acc) = Some m"
    by (auto split: Option.bind_splits)
  from Cons.IH [OF _ this] Cons.prems(1) show ?case by (cases r) simp_all
qed simp

lemma networks_loop_total:
  assumes "choices_ok os" "gomap_ok nets" "\<forall>n \<in> snd ` set nets. ns_PodName (n_Spec n) \<noteq> None"
  shows "networks_loop os nets pool paths acc \<noteq> None"
  using assms(1)
proof (induction paths arbitrary: os acc)
  case (Cons path paths)
  have "\<forall>n \<in> set (range_vals (sub 0 os) nets). ns_PodName (n_Spec n) \<noteq> None"
    using assms(2,3) Cons.prems by simp
  from first_match_total [OF this, of pool "path_base path"] obtain r where
    "first_match pool (path_base path) (range_vals (sub 0 os) nets) = Some r" by auto
  with Cons show ?case by simp
qed simp

text \<open>An entry survives the rest of the loop when names identify networks.\<close>

lemma networks_loop_keeps:
  assumes "choices_ok os" "gomap_ok nets" "inj_on n_Name (snd ` set nets)"
    and "networks_loop os nets pool paths acc = Some m" "n \<in> snd ` set nets" "gget acc (n_Name n) = Some n"
  shows "gget m (n_Name n) = Some n"
  using assms(1,4,6)
proof (induction paths arbitrary: os acc)
  case (Cons path paths)
  from Cons.prems(2) obtain r where r: "first_match pool (path_base path) (range_vals (sub 0 os) nets) = Some r"
    and rest: "networks_loop (sub 1 os) nets pool paths
      (case r of None \<Rightarrow> acc | Some network \<Rightarrow> gset (n_Name network) network acc) = Some m"
    by (auto split: Option.bind_splits)
  have "gget (case r of None \<Rightarrow> acc | Some network \<Rightarrow> gset (n_Name network) network acc) (n_Name n) = Some n"
  proof (cases r)
    case (Some network)
    then have "network \<in> snd ` set nets" using first_match_found [OF r [unfolded Some]] Cons.prems(1) assms(2) by simp
    then show ?thesis using Some Cons.prems(3) assms(3,5) by (auto dest: inj_onD)
  qed (simp add: Cons.prems)
  with Cons.IH [OF _ rest] Cons.prems(1) show ?case by simp
qed simp

lemma networks_loop_complete:
  assumes "choices_ok os" "gomap_ok nets" "inj_on n_Name (snd ` set nets)"
    and "inj_on (\<lambda>n. (ns_PodName (n_Spec n), n_PortGroupName n)) (snd ` set nets)"
    and "networks_loop os nets pool paths acc = Some m" "n \<in> snd ` set nets"
    and "ns_PodName (n_Spec n) = Some (ibm_Pod (ps_IBMPoolSpec (p_Spec pool)))"
    and "n_PortGroupName n \<in> path_base ` set paths"
  shows "gget m (n_Name n) = Some n"
  using assms(1,5,8)
proof (induction paths arbitrary: os acc)
  case (Cons path paths)
  from Cons.prems(2) obtain r where r: "first_match pool (path_base path) (range_vals (sub 0 os) nets) = Some r"
    and rest: "networks_loop (sub 1 os) nets pool paths
      (case r of None \<Rightarrow> acc | Some network \<Rightarrow> gset (n_Name network) network acc) = Some m"
    by (auto split: Option.bind_splits)
  have vals: "set (range_vals (sub 0 os) nets) = snd ` set nets" using Cons.prems(1) assms(2) by simp
  show ?case
  proof (cases "n_PortGroupName n = path_base path")
    case True
    have "r = Some n"
    proof (cases r)
      case None
      from first_match_absent [OF r [unfolded None], of n] True assms(6,7) vals show ?thesis by simp
    next
      case (Some n')
      from first_match_found [OF r [unfolded Some]] have
        "n' \<in> snd ` set nets" "ns_PodName (n_Spec n') = ns_PodName (n_Spec n)" "n_PortGroupName n' = n_PortGroupName n"
        using True assms(7) vals by simp_all
      with Some show ?thesis using inj_onD [OF assms(4), of n' n] assms(6) by simp
    qed
    with networks_loop_keeps [OF _ assms(2,3) rest assms(6)] Cons.prems(1) show ?thesis by simp
  next
    case False
    with Cons.IH [OF _ rest] Cons.prems show ?thesis by auto
  qed
qed simp

section \<open>The interface of the network inventory\<close>

text \<open>
  What the rest of the controller relies on: the map from names to networks that a pool offers holds
  only networks of the pool, each under its own name; on a good inventory it holds all of them
  and computing it does not panic.
\<close>

locale network_view =
  fixes nets :: "choices \<Rightarrow> cache \<Rightarrow> Pool \<Rightarrow> Network gomap option"
  assumes view_ok: "nets os ca pool = Some m \<Longrightarrow> gomap_ok m"
    and view_sound: "choices_ok os \<Longrightarrow> cache_ok ca \<Longrightarrow> nets os ca pool = Some m \<Longrightarrow> gget m k = Some n \<Longrightarrow>
      n_Name n = k \<and> net_in_pool ca pool n"
    and view_total: "choices_ok os \<Longrightarrow> inventory_ok ca \<Longrightarrow> nets os ca pool \<noteq> None"
    and view_complete: "choices_ok os \<Longrightarrow> inventory_ok ca \<Longrightarrow> nets os ca pool = Some m \<Longrightarrow>
      net_in_pool ca pool n \<Longrightarrow> gget m (n_Name n) = Some n"
begin

lemma vals_sound:
  assumes "choices_ok os" "choices_ok os'" "cache_ok ca" "nets os ca pool = Some m" "n \<in> set (range_vals os' m)"
  shows "net_in_pool ca pool n \<and> gget m (n_Name n) = Some n"
proof -
  from assms(2,5) view_ok [OF assms(4)] obtain k where "(k, n) \<in> set m" by auto
  then have "gget m k = Some n" using gomap_in_set_iff [OF view_ok [OF assms(4)]] by blast
  with view_sound [OF assms(1,3,4) this] show ?thesis by auto
qed

lemma vals_exact:
  assumes "choices_ok os" "choices_ok os'" "inventory_ok ca" "nets os ca pool = Some m"
  shows "set (range_vals os' m) = {n. net_in_pool ca pool n}"
proof (intro set_eqI iffI)
  fix n assume "n \<in> {n. net_in_pool ca pool n}"
  then have "(n_Name n, n) \<in> set m"
    using view_complete [OF assms(1,3,4)] by (simp add: map_of_SomeD)
  then show "n \<in> set (range_vals os' m)" using assms(2) view_ok [OF assms(4)] by force
qed (use vals_sound [OF assms(1,2) inventory_cache_ok [OF assms(3)] assms(4)] in auto)

lemma vals_distinct:
  assumes "choices_ok os" "choices_ok os'" "cache_ok ca" "nets os ca pool = Some m"
  shows "distinct (range_vals os' m)"
proof -
  have inj: "inj_on snd (set m)"
    using view_sound [OF assms(1,3,4)] gomap_in_set_iff [OF view_ok [OF assms(4)]]
    by (intro inj_onI) (auto simp: prod_eq_iff, metis)
  have "distinct m" using view_ok [OF assms(4)] by (simp add: gomap_ok_def distinct_map)
  then have "distinct (map snd m)" using inj by (simp add: distinct_map)
  then show ?thesis
    using mset_range_vals [OF assms(2) view_ok [OF assms(4)]] by (metis mset_eq_imp_distinct_iff)
qed

end

interpretation pn: network_view getNetworksForPool
proof (unfold_locales, goal_cases)
  case (1 os ca pool m)
  then show ?case unfolding getNetworksForPool_def by (rule networks_loop_ok [rotated]) simp
next
  case (2 os ca pool m k n)
  then show ?case
    using networks_loop_sound [of os "ca_networks ca" "[]" pool _ m k n]
    by (auto simp: getNetworksForPool_def net_in_pool_def cache_ok_def)
next
  case (3 os ca pool)
  then show ?case
    using networks_loop_total unfolding getNetworksForPool_def inventory_ok_def cache_ok_def by blast
next
  case (4 os ca pool m n)
  then show ?case
    using networks_loop_complete unfolding getNetworksForPool_def inventory_ok_def cache_ok_def net_in_pool_def
    by blast
qed

section \<open>Free networks\<close>

lemma has_owner_iff:
  "has_owner ca n \<longleftrightarrow> (\<exists>l \<in> snd ` set (ca_leases ca). \<exists>ref \<in> set (l_OwnerReferences l).
     or_Name ref = n_Name n \<and> or_Kind ref = n_Kind n)"
  by (force simp: has_owner_def list_ex_iff)

lemma getAvailableNetworks_sound:
  assumes "choices_ok os" "cache_ok ca" "getAvailableNetworks os ca pool ty = Some ns" "n \<in> set ns"
  shows "net_in_pool ca pool n \<and> getNetworkType n = ty \<and> \<not> has_owner ca n"
proof -
  from assms(3) obtain m where m: "getNetworksForPool (sub 0 os) ca pool = Some m"
    and ns: "ns = filter (\<lambda>n. getNetworkType n = ty \<and> \<not> has_owner ca n) (range_vals (sub 1 os) m)"
    by (auto simp: getAvailableNetworks_def split: Option.bind_splits)
  with pn.vals_sound [OF _ _ assms(2) m, of "sub 1 os" n] assms(1,4) show ?thesis by simp
qed

lemma getAvailableNetworks_exact:
  assumes "choices_ok os" "inventory_ok ca"
  shows "\<exists>ns. getAvailableNetworks os ca pool ty = Some ns \<and> distinct ns \<and>
    set ns = {n. net_in_pool ca pool n \<and> getNetworkType n = ty \<and> \<not> has_owner ca n}"
proof -
  have ok: "choices_ok (sub 0 os)" "choices_ok (sub 1 os)" using assms(1) by simp_all
  obtain m where m: "getNetworksForPool (sub 0 os) ca pool = Some m" using pn.view_total [OF ok(1) assms(2)] by auto
  have "set (range_vals (sub 1 os) m) = {n. net_in_pool ca pool n}" by (rule pn.vals_exact [OF ok assms(2) m])
  moreover have "distinct (range_vals (sub 1 os) m)"
    by (rule pn.vals_distinct [OF ok inventory_cache_ok [OF assms(2)] m])
  ultimately show ?thesis using m by (auto simp: getAvailableNetworks_def)
qed

text \<open>The free networks of a pool and a type.\<close>

definition free_networks :: "cache \<Rightarrow> Pool \<Rightarrow> string \<Rightarrow> Network set" where
  "free_networks ca pool ty = {n. net_in_pool ca pool n \<and> getNetworkType n = ty \<and> \<not> has_owner ca n}"

section \<open>Networks and pools of sibling leases\<close>

text \<open>Another lease of the same boskos id that asks for CPUs or memory.\<close>

definition sibling_of :: "Lease \<Rightarrow> Lease \<Rightarrow> bool" where
  "sibling_of lease other \<longleftrightarrow> l_Name other \<noteq> l_Name lease \<and> \<not> network_only other \<and>
     gget (l_Labels other) BoskosIdLabel \<noteq> None \<and>
     gget (l_Labels other) BoskosIdLabel = gget (l_Labels lease) BoskosIdLabel"

definition owns_network :: "Lease \<Rightarrow> Network \<Rightarrow> bool" where
  "owns_network l n \<longleftrightarrow> (\<exists>ref \<in> set (l_OwnerReferences l).
     or_Kind ref = ''Network'' \<and> or_Name ref = n_Name n \<and> or_UID ref = om_UID (n_Meta n))"

lemma set_lease_networks:
  assumes "choices_ok os" "gomap_ok nets"
  shows "set (lease_networks os nets refs) = {n \<in> snd ` set nets. \<exists>ref \<in> set refs.
    or_Kind ref = ''Network'' \<and> or_Name ref = n_Name n \<and> or_UID ref = om_UID (n_Meta n)}"
  using assms(1) by (induction refs arbitrary: os) (auto simp: assms(2))

lemma common_networks_loop_Some:
  assumes "choices_ok os" "cache_ok ca" "common_networks_loop os ca lease i ls = Some ns"
    and "gget (l_Labels lease) BoskosIdLabel = Some i"
  shows "\<exists>other \<in> set ls. sibling_of lease other \<and> ns \<noteq> [] \<and>
    set ns = {n \<in> snd ` set (ca_networks ca). owns_network other n}"
  using assms(1,3)
proof (induction ls arbitrary: os)
  case (Cons other rest)
  let ?fn = "lease_networks (sub 0 os) (ca_networks ca) (l_OwnerReferences other)"
  let ?go = "sibling_of lease other \<and> ?fn \<noteq> []"
  have loop: "common_networks_loop os ca lease i (other # rest) =
      (if ?go then Some ?fn else common_networks_loop (sub 1 os) ca lease i rest)"
    using assms(4) by (auto simp: sibling_of_def Let_def)
  show ?case
  proof (cases ?go)
    case True
    have "set ?fn = {n \<in> snd ` set (ca_networks ca). owns_network other n}"
      using set_lease_networks [of "sub 0 os" "ca_networks ca"] Cons.prems(1) assms(2)
      by (simp add: owns_network_def cache_ok_def)
    with True loop Cons.prems(2) show ?thesis by auto
  next
    case False
    have "common_networks_loop (sub 1 os) ca lease i rest = Some ns"
      using loop Cons.prems(2) unfolding if_not_P [OF False] by simp
    from Cons.IH [OF _ this] Cons.prems(1) show ?thesis by simp
  qed
qed simp

lemma common_networks_loop_None:
  assumes "choices_ok os" "cache_ok ca" "common_networks_loop os ca lease i ls = None"
    and "gget (l_Labels lease) BoskosIdLabel = Some i" "other \<in> set ls" "sibling_of lease other"
    and "n \<in> snd ` set (ca_networks ca)"
  shows "\<not> owns_network other n"
  using assms(1,3,5)
proof (induction ls arbitrary: os)
  case (Cons x rest)
  let ?fn = "lease_networks (sub 0 os) (ca_networks ca) (l_OwnerReferences x)"
  have loop: "common_networks_loop os ca lease i (x # rest) =
      (if sibling_of lease x \<and> ?fn \<noteq> [] then Some ?fn else common_networks_loop (sub 1 os) ca lease i rest)"
    using assms(4) by (auto simp: sibling_of_def Let_def)
  then have no: "\<not> (sibling_of lease x \<and> ?fn \<noteq> [])"
    and rest: "common_networks_loop (sub 1 os) ca lease i rest = None"
    using Cons.prems(2) by (auto split: if_splits)
  show ?case
  proof (cases "x = other")
    case True
    then have "set ?fn = {}" using no assms(6) by simp
    then show ?thesis
      using set_lease_networks [of "sub 0 os" "ca_networks ca" "l_OwnerReferences x"] Cons.prems(1) assms(2,7) True
      by (auto simp: owns_network_def cache_ok_def)
  next
    case False
    with Cons.IH [OF _ rest] Cons.prems show ?thesis by simp
  qed
qed simp

lemma sibling_port_groups_iff:
  "gget_default False (sibling_port_groups ns) pg \<longleftrightarrow> pg \<noteq> [] \<and> pg \<in> n_PortGroupName ` set ns"
proof -
  have "gget_default False (foldl (\<lambda>m n. if n_PortGroupName n = [] then m else gset (n_PortGroupName n) True m) m ns) pg
      \<longleftrightarrow> gget_default False m pg \<or> (pg \<noteq> [] \<and> pg \<in> n_PortGroupName ` set ns)" for m
    by (induction ns arbitrary: m) auto
  then show ?thesis by (simp add: sibling_port_groups_def)
qed

section \<open>Port groups several pools offer\<close>

lemma port_group_set_iff:
  "gget_default False (port_group_set ns m) pg \<longleftrightarrow> gget_default False m pg \<or> pg \<in> n_PortGroupName ` set ns"
  by (induction ns arbitrary: m) (auto simp: port_group_set_def)

lemma gomap_ok_port_group_set: "gomap_ok m \<Longrightarrow> gomap_ok (port_group_set ns m)"
  by (induction ns arbitrary: m) (auto simp: port_group_set_def)

text \<open>The port groups on which the pool has a free network a lease of the type may take.\<close>

definition offers :: "cache \<Rightarrow> bool \<Rightarrow> string \<Rightarrow> Pool \<Rightarrow> string \<Rightarrow> bool" where
  "offers ca allow ty pool pg \<longleftrightarrow> (\<exists>n. net_in_pool ca pool n \<and> \<not> has_owner ca n \<and> n_PortGroupName n = pg \<and>
     (getNetworkType n = ty \<or>
      allow \<and> ty = NetworkTypeMultiTenant \<and> getNetworkType n = NetworkTypeSingleTenant))"

lemma pool_port_groups_exact:
  assumes "choices_ok os" "inventory_ok ca"
  shows "\<exists>m. pool_port_groups os ca allow pool ty = Some m \<and> gomap_ok m \<and>
    (\<forall>pg. gget_default False m pg \<longleftrightarrow> offers ca allow ty pool pg)"
proof -
  obtain ns where ns: "getAvailableNetworks (sub 0 os) ca pool ty = Some ns"
      "set ns = {n. net_in_pool ca pool n \<and> getNetworkType n = ty \<and> \<not> has_owner ca n}"
    using getAvailableNetworks_exact [of "sub 0 os" ca pool ty] assms by auto
  obtain ss where ss: "getAvailableNetworks (sub 1 os) ca pool NetworkTypeSingleTenant = Some ss"
      "set ss = {n. net_in_pool ca pool n \<and> getNetworkType n = NetworkTypeSingleTenant \<and> \<not> has_owner ca n}"
    using getAvailableNetworks_exact [of "sub 1 os" ca pool NetworkTypeSingleTenant] assms by auto
  show ?thesis
  proof (cases "allow \<and> ty = NetworkTypeMultiTenant")
    case True
    then have "pool_port_groups os ca allow pool ty = Some (port_group_set ss (port_group_set ns []))"
      using ns(1) ss(1) by (simp add: pool_port_groups_def)
    with True show ?thesis
      by (auto simp: port_group_set_iff gomap_ok_port_group_set ns(2) ss(2) offers_def)
  next
    case False
    then have "pool_port_groups os ca allow pool ty = Some (port_group_set ns [])"
      using ns(1) by (auto simp: pool_port_groups_def)
    with False show ?thesis
      by (auto simp: port_group_set_iff gomap_ok_port_group_set ns(2) offers_def)
  qed
qed

lemma gget_default_filter:
  "gomap_ok m \<Longrightarrow> gget_default False (filter (\<lambda>(k, _). P k) m) k \<longleftrightarrow> P k \<and> gget_default False m k"
  by (induction m) (auto simp: gget_default_def gomap_ok_def split: option.splits dest: map_of_SomeD)

lemma gomap_ok_filter: "gomap_ok m \<Longrightarrow> gomap_ok (filter P m)"
  by (simp add: gomap_ok_def distinct_map_filter)

lemma common_loop_exact:
  assumes "choices_ok os" "inventory_ok ca" "gomap_ok common"
  shows "\<exists>m. common_loop os ca allow ty pools common = Some m \<and>
    (\<forall>pg. gget_default False m pg \<longleftrightarrow> gget_default False common pg \<and> (\<forall>p \<in> set pools. offers ca allow ty p pg))"
  using assms(1,3)
proof (induction pools arbitrary: os common)
  case (Cons pool pools)
  obtain m where m: "pool_port_groups (sub 0 os) ca allow pool ty = Some m"
      "\<forall>pg. gget_default False m pg \<longleftrightarrow> offers ca allow ty pool pg"
    using pool_port_groups_exact [OF _ assms(2), of "sub 0 os" allow pool ty] Cons.prems(1) by auto
  let ?c = "filter (\<lambda>(name, _). gget_default False m name) common"
  from Cons.IH [of "sub 1 os" ?c] Cons.prems obtain m' where m': "common_loop (sub 1 os) ca allow ty pools ?c = Some m'"
      "\<forall>pg. gget_default False m' pg \<longleftrightarrow> gget_default False ?c pg \<and> (\<forall>p \<in> set pools. offers ca allow ty p pg)"
    by (auto simp: gomap_ok_filter)
  with m Cons.prems(2) show ?case by (auto simp: gget_default_filter)
qed simp

section \<open>Known pools of siblings\<close>

definition pools_inv :: "cache \<Rightarrow> string list \<times> Pool list \<Rightarrow> bool" where
  "pools_inv ca acc \<longleftrightarrow> set (fst acc) = p_Name ` set (snd acc) \<and> distinct (map p_Name (snd acc)) \<and>
     set (snd acc) \<subseteq> snd ` set (ca_pools ca)"

lemma sibling_names_step:
  assumes "choices_ok os" "cache_ok ca" "pools_inv ca (seen, found)"
  shows "\<exists>seen' found'. (if name \<in> set seen then (seen, found)
        else case find (\<lambda>pool. p_Name pool = name) (range_vals os (ca_pools ca)) of
          None \<Rightarrow> (seen, found) | Some pool \<Rightarrow> (name # seen, found @ [pool])) = (seen', found') \<and>
      pools_inv ca (seen', found') \<and>
      p_Name ` set found' = p_Name ` set found \<union> ({name} \<inter> p_Name ` snd ` set (ca_pools ca))"
proof (cases "name \<in> set seen")
  case True
  then have "name \<in> p_Name ` set found" using assms(3) by (simp add: pools_inv_def)
  with True assms(3) show ?thesis by auto
next
  case False
  have vals: "set (range_vals os (ca_pools ca)) = snd ` set (ca_pools ca)"
    using assms(1,2) by (simp add: cache_ok_def)
  show ?thesis
  proof (cases "find (\<lambda>pool. p_Name pool = name) (range_vals os (ca_pools ca))")
    case None
    then have "name \<notin> p_Name ` snd ` set (ca_pools ca)"
      unfolding find_None_iff vals by blast
    with None False assms(3) show ?thesis by auto
  next
    case (Some pool)
    then have pool: "p_Name pool = name" "pool \<in> snd ` set (ca_pools ca)"
      unfolding find_Some_iff vals [symmetric] by (auto simp: in_set_conv_nth)
    with Some False assms(3) show ?thesis by (auto simp: pools_inv_def)
  qed
qed

lemma sibling_pool_names_loop_exact:
  assumes "choices_ok os" "cache_ok ca" "pools_inv ca acc"
  shows "pools_inv ca (sibling_pool_names_loop os ca names acc) \<and>
    p_Name ` set (snd (sibling_pool_names_loop os ca names acc)) =
      p_Name ` set (snd acc) \<union> (set names \<inter> p_Name ` snd ` set (ca_pools ca))"
  using assms(1,3)
proof (induction names arbitrary: os acc)
  case (Cons name names)
  obtain seen found where acc: "acc = (seen, found)" by (cases acc)
  obtain seen' found' where step: "(if name \<in> set seen then (seen, found)
        else case find (\<lambda>pool. p_Name pool = name) (range_vals (sub 0 os) (ca_pools ca)) of
          None \<Rightarrow> (seen, found) | Some pool \<Rightarrow> (name # seen, found @ [pool])) = (seen', found')"
      "pools_inv ca (seen', found')"
      "p_Name ` set found' = p_Name ` set found \<union> ({name} \<inter> p_Name ` snd ` set (ca_pools ca))"
    using sibling_names_step [of "sub 0 os" ca seen found name] Cons.prems assms(2) acc by auto
  have "sibling_pool_names_loop os ca (name # names) acc = sibling_pool_names_loop (sub 1 os) ca names (seen', found')"
    using step(1) by (simp add: acc)
  with Cons.IH [OF _ step(2), of "sub 1 os"] Cons.prems(1) step(3) acc show ?case by auto
qed simp

definition live_sibling :: "Lease \<Rightarrow> Lease \<Rightarrow> bool" where
  "live_sibling lease other \<longleftrightarrow> sibling_of lease other \<and> l_DeletionTimestamp other = None"

lemma sibling_loop_exact:
  assumes "choices_ok os" "cache_ok ca" "pools_inv ca acc" "gget (l_Labels lease) BoskosIdLabel = Some i"
  shows "pools_inv ca (sibling_loop os ca lease i cands acc) \<and>
    p_Name ` set (snd (sibling_loop os ca lease i cands acc)) = p_Name ` set (snd acc) \<union>
      ((\<Union>c \<in> {c \<in> set cands. live_sibling lease c}. set (known_pool_names c)) \<inter> p_Name ` snd ` set (ca_pools ca))"
  using assms(1,3)
proof (induction cands arbitrary: os acc)
  case (Cons c cands)
  show ?case
  proof (cases "live_sibling lease c")
    case True
    let ?acc = "sibling_pool_names_loop (sub 0 os) ca (known_pool_names c) acc"
    have step: "sibling_loop os ca lease i (c # cands) acc = sibling_loop (sub 1 os) ca lease i cands ?acc"
      using True assms(4) by (simp add: live_sibling_def sibling_of_def)
    have names: "pools_inv ca ?acc" "p_Name ` set (snd ?acc) =
        p_Name ` set (snd acc) \<union> (set (known_pool_names c) \<inter> p_Name ` snd ` set (ca_pools ca))"
      using sibling_pool_names_loop_exact [of "sub 0 os" ca acc "known_pool_names c"] Cons.prems assms(2) by auto
    from Cons.IH [OF _ names(1), of "sub 1 os"] Cons.prems(1) show ?thesis
      unfolding step using True names(2) by auto
  next
    case False
    then have "sibling_loop os ca lease i (c # cands) acc = sibling_loop (sub 1 os) ca lease i cands acc"
      using assms(4) by (auto simp: live_sibling_def sibling_of_def)
    with Cons.IH [OF _ Cons.prems(2), of "sub 1 os"] Cons.prems(1) False show ?thesis by auto
  qed
qed simp

section \<open>Small builders for the examples\<close>

definition mk_network :: "string \<Rightarrow> string \<Rightarrow> string \<Rightarrow> Network" where
  "mk_network name pg vlan =
     zero_network\<lparr>n_Kind := ''Network'', n_Meta := zero_meta\<lparr>om_Name := name, om_UID := name\<rparr>,
       n_Spec := zero_network_spec\<lparr>ns_PortGroupName := pg, ns_VlanId := vlan, ns_PodName := Some ''pod'',
         ns_DatacenterName := Some ''dal10'', ns_Gateway := Some ''192.168.1.1''\<rparr>\<rparr>"

lemma mk_network_simps [simp]:
  "n_Name (mk_network n g v) = n" "n_PortGroupName (mk_network n g v) = g" "n_VlanId (mk_network n g v) = v"
  "n_Kind (mk_network n g v) = ''Network''" "ns_PodName (n_Spec (mk_network n g v)) = Some ''pod''"
  "om_UID (n_Meta (mk_network n g v)) = n" "ns_DatacenterName (n_Spec (mk_network n g v)) = Some ''dal10''"
  "getNetworkType (mk_network n g v) = NetworkTypeSingleTenant"
  by (simp_all add: mk_network_def getNetworkType_def zero_defs)

lemma mk_network_inject [simp]: "mk_network n g v = mk_network n' g' v' \<longleftrightarrow> n = n' \<and> g = g' \<and> v = v'"
  by (metis mk_network_simps(1-3))

definition mk_net_pool :: "string \<Rightarrow> string list \<Rightarrow> Pool" where
  "mk_net_pool name paths = zero_pool\<lparr>p_Kind := ''Pool'', p_Meta := zero_meta\<lparr>om_Name := name\<rparr>,
     p_Spec := zero_pool_spec\<lparr>ps_IBMPoolSpec := \<lparr>ibm_Pod = ''pod'', ibm_Datacenter = ''dal10''\<rparr>,
       ps_FailureDomain := zero_failure_domain\<lparr>fd_Topology := zero_topology\<lparr>tp_Networks := paths\<rparr>\<rparr>\<rparr>\<rparr>"

lemma mk_net_pool_simps [simp]:
  "p_Name (mk_net_pool n ps) = n" "tp_Networks (p_Topology (mk_net_pool n ps)) = ps"
  "ibm_Pod (ps_IBMPoolSpec (p_Spec (mk_net_pool n ps))) = ''pod''" "p_Kind (mk_net_pool n ps) = ''Pool''"
  by (simp_all add: mk_net_pool_def zero_defs)

definition mk_ref :: "string \<Rightarrow> string \<Rightarrow> OwnerReference" where
  "mk_ref kind name = \<lparr>or_APIVersion = [], or_Kind = kind, or_Name = name, or_UID = name\<rparr>"

lemma mk_ref_simps [simp]: "or_Kind (mk_ref k n) = k" "or_Name (mk_ref k n) = n" "or_UID (mk_ref k n) = n"
  by (simp_all add: mk_ref_def)

definition mk_lease :: "string \<Rightarrow> string \<Rightarrow> OwnerReference list \<Rightarrow> Lease" where
  "mk_lease name boskos refs = zero_lease\<lparr>l_Kind := ''Lease'', l_Meta := zero_meta\<lparr>om_Name := name,
     om_Labels := [(BoskosIdLabel, boskos)], om_OwnerReferences := refs\<rparr>,
     l_Spec := zero_lease_spec\<lparr>ls_VCpus := 8, ls_Memory := 32, ls_Pools := 1, ls_Networks := 1,
       ls_NetworkType := NetworkTypeSingleTenant\<rparr>\<rparr>"

lemma mk_lease_simps [simp]:
  "l_Name (mk_lease n b r) = n" "l_OwnerReferences (mk_lease n b r) = r"
  "l_Labels (mk_lease n b r) = [(BoskosIdLabel, b)]" "\<not> network_only (mk_lease n b r)"
  "l_DeletionTimestamp (mk_lease n b r) = None"
  by (simp_all add: mk_lease_def network_only_def zero_defs)

text \<open>Maps visited from the last entry to the first, and two networks on one port group of one pod.\<close>

definition rev_choices :: choices where
  "rev_choices = std_choices\<lparr>o_order := (\<lambda>_ ks. rev ks)\<rparr>"

lemma rev_choices_ok: "choices_ok rev_choices"
  using std_choices_ok by (simp add: choices_ok_def rev_choices_def)

definition twin_pool :: Pool where "twin_pool = mk_net_pool ''p1'' [''/dc/network/vlan-1'']"

definition twin_cache :: cache where
  "twin_cache = \<lparr>ca_pools = [], ca_leases = [],
     ca_networks = [(''ns/n1'', mk_network ''n1'' ''vlan-1'' ''1''), (''ns/n2'', mk_network ''n2'' ''vlan-1'' ''1'')]\<rparr>"

section \<open>Properties\<close>

text \<open>
  C34: On an inventory where every network has a pod and pod and port group identify it,
  \<open>getNetworksForPool\<close> does not panic and maps a name to a network exactly when that network
  is cached under this name, in the pod of the pool, and its port group ends one of the port group paths of the pool.
\<close>

theorem getNetworksForPool_exact:
  assumes "choices_ok os" "inventory_ok ca"
  shows "\<exists>m. getNetworksForPool os ca pool = Some m \<and>
    (\<forall>k n. gget m k = Some n \<longleftrightarrow> net_in_pool ca pool n \<and> n_Name n = k)"
proof -
  obtain m where m: "getNetworksForPool os ca pool = Some m" using pn.view_total [OF assms] by auto
  then show ?thesis
    using pn.view_sound [OF assms(1) inventory_cache_ok [OF assms(2)] m] pn.view_complete [OF assms m] by blast
qed

text \<open>
  When two networks share pod and port group (the two networks here), the network that
  \<open>getNetworksForPool\<close> finds for the pool depends on the order in which Go visits the map of networks.
\<close>

theorem getNetworksForPool_ambiguous:
  "\<exists>os os'. choices_ok os \<and> choices_ok os' \<and>
     getNetworksForPool os twin_cache twin_pool \<noteq> getNetworksForPool os' twin_cache twin_pool"
proof (intro exI conjI)
  show "choices_ok std_choices" by simp
  show "choices_ok rev_choices" by (rule rev_choices_ok)
  show "getNetworksForPool std_choices twin_cache twin_pool \<noteq> getNetworksForPool rev_choices twin_cache twin_pool"
    by (simp add: getNetworksForPool_def range_vals_def range_map_def std_choices_def rev_choices_def sub_def
        twin_cache_def twin_pool_def path_base_def)
qed

text \<open>
  \<open>getAvailableNetworks\<close> returns, without repetition, exactly the networks of the pool that have the
  type asked for and that no cached lease owns.
\<close>

theorem getAvailableNetworks_free:
  assumes "choices_ok os" "inventory_ok ca"
  shows "\<exists>ns. getAvailableNetworks os ca pool ty = Some ns \<and> distinct ns \<and>
    set ns = {n. net_in_pool ca pool n \<and> getNetworkType n = ty \<and> \<not> has_owner ca n}"
  by (rule getAvailableNetworks_exact [OF assms])

text \<open>
  C35: \<open>commonPortGroupNames\<close> holds exactly the port groups on which every one of the given pools has a
  free network of the type (or a single-tenant one where that is allowed).
\<close>

theorem commonPortGroupNames_exact:
  assumes "choices_ok os" "inventory_ok ca" "pools \<noteq> []"
  shows "\<exists>m. commonPortGroupNames os ca allow pools ty = Some m \<and>
    (\<forall>pg. gget_default False m pg \<longleftrightarrow> (\<forall>p \<in> set pools. offers ca allow ty p pg))"
proof -
  obtain pool rest where pools: "pools = pool # rest" using assms(3) by (cases pools) auto
  obtain m where m: "pool_port_groups (sub 0 os) ca allow pool ty = Some m" "gomap_ok m"
      "\<forall>pg. gget_default False m pg \<longleftrightarrow> offers ca allow ty pool pg"
    using pool_port_groups_exact [OF _ assms(2), of "sub 0 os" allow pool ty] assms(1) by auto
  with common_loop_exact [OF _ assms(2) m(2), of "sub 1 os" allow ty rest] assms(1) show ?thesis
    by (auto simp: commonPortGroupNames_def pools)
qed

text \<open>
  \<open>getCommonNetworksForLease\<close> on a lease with a boskos id that asks for CPUs or memory: it returns
  all cached networks some sibling lease owns, and at least one; it fails only
  when no sibling lease owns a cached network.
\<close>

theorem getCommonNetworksForLease_siblings:
  assumes "choices_ok os" "cache_ok ca" "\<not> network_only lease" "gget (l_Labels lease) BoskosIdLabel = Some i"
  shows "case getCommonNetworksForLease os ca lease of
      Inr ns \<Rightarrow> ns \<noteq> [] \<and> (\<exists>other \<in> snd ` set (ca_leases ca). sibling_of lease other \<and>
        set ns = {n \<in> snd ` set (ca_networks ca). owns_network other n})
    | Inl _ \<Rightarrow> \<forall>other \<in> snd ` set (ca_leases ca). \<forall>n \<in> snd ` set (ca_networks ca).
        sibling_of lease other \<longrightarrow> \<not> owns_network other n"
proof -
  let ?ls = "range_vals (sub 0 os) (ca_leases ca)"
  have vals: "set ?ls = snd ` set (ca_leases ca)" using assms(1,2) by (simp add: cache_ok_def)
  have ok: "choices_ok (sub 1 os)" using assms(1) by simp
  show ?thesis
  proof (cases "common_networks_loop (sub 1 os) ca lease i ?ls")
    case None
    then have "getCommonNetworksForLease os ca lease = Inl (''no common network found for '' @ l_Name lease)"
      using assms(3,4) by (simp add: getCommonNetworksForLease_def)
    with common_networks_loop_None [OF ok assms(2) None assms(4)] vals show ?thesis by simp
  next
    case (Some ns)
    then have "getCommonNetworksForLease os ca lease = Inr ns"
      using assms(3,4) by (simp add: getCommonNetworksForLease_def)
    with common_networks_loop_Some [OF ok assms(2) Some assms(4)] vals show ?thesis by auto
  qed
qed

text \<open>
  A lease constrained by a sibling never gets an unrelated network: what
  \<open>resolveCommonNetworksForPool\<close> returns is a network of the sibling that the pool offers too, or, when there is
  none, a free network of the pool on a port group of the sibling's networks.
\<close>

theorem resolveCommonNetworksForPool_related:
  assumes "choices_ok os" "cache_ok ca"
    and "resolveCommonNetworksForPool os ca cands pool m ty = Some ns" "n \<in> set ns"
  shows "(n \<in> set cands \<and> gget m (n_Name n) \<noteq> None) \<or>
    (\<forall>c \<in> set cands. gget m (n_Name c) = None) \<and>
    net_in_pool ca pool n \<and> getNetworkType n = ty \<and> \<not> has_owner ca n \<and> n_PortGroupName n \<in> n_PortGroupName ` set cands"
proof (cases "filter (\<lambda>n. gget m (n_Name n) \<noteq> None) cands = []")
  case True
  then obtain av where av: "getAvailableNetworks os ca pool ty = Some av"
    and ns: "ns = filter (\<lambda>n. gget_default False (sibling_port_groups cands) (n_PortGroupName n)) av"
    using assms(3) by (auto simp: resolveCommonNetworksForPool_def Let_def split: Option.bind_splits)
  then have "n \<in> set av" "n_PortGroupName n \<in> n_PortGroupName ` set cands"
    using assms(4) by (simp_all add: sibling_port_groups_iff)
  with getAvailableNetworks_sound [OF assms(1,2) av] True show ?thesis by (simp add: filter_empty_conv)
next
  case False
  then have "ns = filter (\<lambda>n. gget m (n_Name n) \<noteq> None) cands"
    using assms(3) by (simp add: resolveCommonNetworksForPool_def Let_def del: not_None_eq)
  with assms(4) show ?thesis by simp
qed

text \<open>
  \<open>resolveSiblingPools\<close> returns, each once, the cached pools that the live siblings of the lease are
  known to use: those they own, or the pool they require when they own none.
\<close>

theorem resolveSiblingPools_exact:
  assumes "choices_ok os" "cache_ok ca" "gget (l_Labels lease) BoskosIdLabel = Some i"
  shows "distinct (map p_Name (resolveSiblingPools os ca lease cands)) \<and>
    set (resolveSiblingPools os ca lease cands) \<subseteq> snd ` set (ca_pools ca) \<and>
    p_Name ` set (resolveSiblingPools os ca lease cands) =
      (\<Union>c \<in> {c \<in> set cands. live_sibling lease c}. set (known_pool_names c)) \<inter> p_Name ` snd ` set (ca_pools ca)"
proof -
  have "pools_inv ca ([], [])" by (simp add: pools_inv_def)
  from sibling_loop_exact [OF assms(1,2) this assms(3), of cands] assms(3) show ?thesis
    by (simp add: resolveSiblingPools_def pools_inv_def)
qed

section \<open>Witnesses\<close>

text \<open>Two networks in a pool; the first is owned by a sibling of the lease.\<close>

definition view_pool :: Pool where "view_pool = mk_net_pool ''p1'' [''/dc/network/vlan-1'', ''/dc/network/vlan-2'']"
definition view_n1 :: Network where "view_n1 = mk_network ''n1'' ''vlan-1'' ''1''"
definition view_n2 :: Network where "view_n2 = mk_network ''n2'' ''vlan-2'' ''2''"
definition view_sibling :: Lease where "view_sibling = mk_lease ''sibling'' ''job'' [mk_ref ''Pool'' ''p1'', mk_ref ''Network'' ''n1'']"
definition view_lease :: Lease where "view_lease = mk_lease ''lease'' ''job'' []"
definition view_cache :: cache where
  "view_cache = \<lparr>ca_pools = [(''ns/p1'', view_pool)], ca_leases = [(''ns/sibling'', view_sibling), (''ns/lease'', view_lease)],
     ca_networks = [(''ns/n1'', view_n1), (''ns/n2'', view_n2)]\<rparr>"

lemmas view_defs = view_pool_def view_n1_def view_n2_def view_sibling_def view_lease_def view_cache_def

lemma view_inventory: "inventory_ok view_cache"
  by (simp add: inventory_ok_def cache_ok_def gomap_ok_def view_defs)

lemma view_in_pool: "net_in_pool view_cache view_pool view_n1" "net_in_pool view_cache view_pool view_n2"
  by (simp_all add: net_in_pool_def view_defs path_base_def)

lemma view_owner: "has_owner view_cache view_n1" "\<not> has_owner view_cache view_n2"
  by (simp_all add: has_owner_iff view_defs)

theorem getNetworksForPool_exact_witness:
  "\<exists>m. getNetworksForPool std_choices view_cache view_pool = Some m \<and> gget m ''n1'' = Some view_n1"
  using getNetworksForPool_exact [OF std_choices_ok view_inventory, of view_pool] view_in_pool(1)
  by (auto simp: view_n1_def)

theorem getAvailableNetworks_free_witness:
  "\<exists>ns. getAvailableNetworks std_choices view_cache view_pool NetworkTypeSingleTenant = Some ns \<and>
     view_n2 \<in> set ns \<and> view_n1 \<notin> set ns"
  using getAvailableNetworks_free [OF std_choices_ok view_inventory, of view_pool NetworkTypeSingleTenant]
    view_in_pool view_owner by (auto simp: view_n2_def)

theorem commonPortGroupNames_exact_witness:
  "\<exists>m. commonPortGroupNames std_choices view_cache False [view_pool, view_pool] NetworkTypeSingleTenant = Some m \<and>
     gget_default False m ''vlan-2''"
proof -
  have "offers view_cache False NetworkTypeSingleTenant view_pool ''vlan-2''"
    unfolding offers_def using view_in_pool(2) view_owner(2) by (intro exI [of _ view_n2]) (simp add: view_n2_def)
  then show ?thesis
    using commonPortGroupNames_exact [OF std_choices_ok view_inventory, of "[view_pool, view_pool]" False NetworkTypeSingleTenant]
    by auto
qed

theorem getCommonNetworksForLease_siblings_witness:
  "\<exists>ns. getCommonNetworksForLease std_choices view_cache view_lease = Inr ns \<and> set ns = {view_n1}"
proof -
  have l: "\<not> network_only view_lease" "gget (l_Labels view_lease) BoskosIdLabel = Some ''job''"
    by (simp_all add: view_lease_def)
  have sib: "sibling_of view_lease l \<longleftrightarrow> l = view_sibling" if "l \<in> snd ` set (ca_leases view_cache)" for l
    using that by (auto simp: sibling_of_def view_defs)
  have own: "{n \<in> snd ` set (ca_networks view_cache). owns_network view_sibling n} = {view_n1}"
    by (auto simp: owns_network_def view_defs)
  have mem: "view_sibling \<in> snd ` set (ca_leases view_cache)" by (simp add: view_cache_def)
  note found = getCommonNetworksForLease_siblings [OF std_choices_ok inventory_cache_ok [OF view_inventory] l]
  show ?thesis
  proof (cases "getCommonNetworksForLease std_choices view_cache view_lease")
    case (Inl e)
    have "view_n1 \<in> snd ` set (ca_networks view_cache)" "owns_network view_sibling view_n1" using own by blast+
    with found [unfolded Inl sum.case] sib [OF mem] mem show ?thesis by blast
  next
    case (Inr ns)
    with found own sib show ?thesis by auto
  qed
qed

theorem resolveCommonNetworksForPool_related_witness:
  "net_in_pool view_cache view_pool view_n2 \<and> \<not> has_owner view_cache view_n2 \<and>
   resolveCommonNetworksForPool std_choices view_cache [mk_network ''far'' ''vlan-2'' ''2''] view_pool [] NetworkTypeSingleTenant
     = Some [view_n2]"
proof -
  have "resolveCommonNetworksForPool std_choices view_cache [mk_network ''far'' ''vlan-2'' ''2''] view_pool [] NetworkTypeSingleTenant
     = Some [view_n2]"
    by (simp add: resolveCommonNetworksForPool_def getAvailableNetworks_def getNetworksForPool_def view_defs
        range_vals_def gomap_ok_def path_base_def sibling_port_groups_iff has_owner_def)
  from resolveCommonNetworksForPool_related [OF std_choices_ok inventory_cache_ok [OF view_inventory] this, of view_n2] this
  show ?thesis by (auto simp: view_n2_def)
qed

theorem resolveSiblingPools_exact_witness:
  "p_Name ` set (resolveSiblingPools std_choices view_cache view_lease [view_sibling]) = {''p1''}"
proof -
  have "gget (l_Labels view_lease) BoskosIdLabel = Some ''job''" by (simp add: view_lease_def)
  moreover have "{c \<in> set [view_sibling]. live_sibling view_lease c} = {view_sibling}"
    by (auto simp: live_sibling_def sibling_of_def view_defs)
  ultimately show ?thesis
    using resolveSiblingPools_exact [OF std_choices_ok inventory_cache_ok [OF view_inventory], of view_lease "''job''" "[view_sibling]"]
    by (simp add: known_pool_names_def view_sibling_def view_cache_def view_pool_def)
qed

end
