(* ===== verification/LeaseMetrics.thy ===== *)
theory LeaseMetrics
  imports ApiClient NetworkView
begin

text \<open>
  \<open>updateLeaseMetrics\<close> and \<open>updateNetworkTypeMetrics\<close> of \<^verbatim>\<open>pkg/controller/leases.go\<close>, as the list of
  metric calls they make.
\<close>

section \<open>Metrics of the leases\<close>

fun first_pool_name :: "OwnerReference list \<Rightarrow> string" where
  "first_pool_name [] = []"
| "first_pool_name (ref # refs) = (if or_Kind ref = ''Pool'' then or_Name ref else first_pool_name refs)"

fun lease_events :: "choices \<Rightarrow> Lease list \<Rightarrow> metric list" where
  "lease_events os [] = []"
| "lease_events os (lease # rest) =
     [MInc ''leases_counts'' [(''phase'', l_Phase lease), (''networkType'', ls_NetworkType (l_Spec lease)),
        (''namespace'', l_Namespace lease)],
      MSet ''lease_age_seconds'' [(''namespace'', l_Namespace lease), (''lease'', l_Name lease),
        (''pool'', first_pool_name (l_OwnerReferences lease)), (''networkType'', ls_NetworkType (l_Spec lease))]
        (f64_of_int (time_now (sub 0 os) - l_CreationTimestamp lease))]
     @ lease_events (sub 1 os) rest"

section \<open>Metrics of the networks\<close>

definition count_up :: "string \<Rightarrow> gofloat gomap \<Rightarrow> gofloat gomap" where
  "count_up k m = gset k (f64_add (gget_default (Fin 0) m k) (Fin 1)) m"

definition network_lease_counts :: "Lease list \<Rightarrow> gofloat gomap" where
  "network_lease_counts leases =
     foldl (\<lambda>m lease. foldl (\<lambda>m ref. if or_Kind ref = ''Network'' then count_up (or_Name ref) m else m) m
       (l_OwnerReferences lease)) [] leases"

text \<open>The networks of one pool: the totals and the free ones by type, and the calls made on the way.\<close>

fun network_type_loop ::
  "Pool \<Rightarrow> gofloat gomap \<Rightarrow> Network list \<Rightarrow> gofloat gomap \<times> gofloat gomap \<times> metric list \<Rightarrow>
   gofloat gomap \<times> gofloat gomap \<times> metric list" where
  "network_type_loop pool counts [] acc = acc"
| "network_type_loop pool counts (network # ns) (totalByType, availByType, events) =
     (let netType = getNetworkType network;
          count = gget_default (Fin 0) counts (n_Name network)
      in network_type_loop pool counts ns
           (count_up netType totalByType,
            if count = Fin 0 then count_up netType availByType else availByType,
            events @ [MSet ''network_lease_count'' [(''namespace'', om_Namespace (p_Meta pool)), (''network'', n_Name network),
              (''networkType'', netType), (''pool'', p_Name pool)] count]))"

definition type_events :: "Pool \<Rightarrow> gofloat gomap \<Rightarrow> gofloat gomap \<Rightarrow> metric list" where
  "type_events pool availByType totals =
     concat (map (\<lambda>(netType, total).
       let labels = [(''namespace'', om_Namespace (p_Meta pool)), (''pool'', p_Name pool), (''networkType'', netType)] in
       [MSet ''pool_networks_total_by_type'' labels total,
        MSet ''pool_networks_available_by_type'' labels (gget_default (Fin 0) availByType netType)]) totals)"

fun pool_type_events :: "choices \<Rightarrow> cache \<Rightarrow> gofloat gomap \<Rightarrow> Pool list \<Rightarrow> metric list option" where
  "pool_type_events os ca counts [] = Some []"
| "pool_type_events os ca counts (pool # rest) =
     do { networksInPool \<leftarrow> getNetworksForPool (sub 0 os) ca pool;
          let (totalByType, availByType, events) =
            network_type_loop pool counts (range_vals (sub 1 os) networksInPool) ([], [], []);
          later \<leftarrow> pool_type_events (sub 3 os) ca counts rest;
          Some (events @ type_events pool availByType (range_map (sub 2 os) totalByType) @ later) }"

definition updateNetworkTypeMetrics :: "choices \<Rightarrow> 's world \<Rightarrow> 's world option" where
  "updateNetworkTypeMetrics os w =
     do { events \<leftarrow> pool_type_events (sub 2 os) (w_cache w)
            (network_lease_counts (range_vals (sub 0 os) (ca_leases (w_cache w))))
            (range_vals (sub 1 os) (ca_pools (w_cache w)));
          Some (emit ([MReset ''pool_networks_available_by_type'', MReset ''pool_networks_total_by_type'',
            MReset ''network_lease_count''] @ events) w) }"

definition updateLeaseMetrics :: "choices \<Rightarrow> 's world \<Rightarrow> 's world option" where
  "updateLeaseMetrics os w =
     updateNetworkTypeMetrics (sub 2 os)
       (emit ([MReset ''leases_counts'', MReset ''lease_age_seconds''] @
          lease_events (sub 1 os) (range_vals (sub 0 os) (ca_leases (w_cache w)))) w)"

section \<open>Lemmas\<close>

lemma updateLeaseMetrics_frame:
  "updateLeaseMetrics os w = Some w' \<Longrightarrow> w_cache w' = w_cache w \<and> w_server w' = w_server w"
  by (auto simp: updateLeaseMetrics_def updateNetworkTypeMetrics_def split: Option.bind_splits)

lemma pool_type_events_total:
  assumes "choices_ok os" "inventory_ok ca"
  shows "pool_type_events os ca counts ps \<noteq> None"
  using assms(1)
proof (induction ps arbitrary: os)
  case (Cons pool ps)
  obtain m where "getNetworksForPool (sub 0 os) ca pool = Some m"
    using pn.view_total [OF _ assms(2), of "sub 0 os" pool] Cons.prems by auto
  with Cons.IH [of "sub 3 os"] Cons.prems show ?case by (auto simp: Let_def split_beta)
qed simp

lemma updateLeaseMetrics_total:
  assumes "choices_ok os" "inventory_ok (w_cache w)"
  shows "\<exists>w'. updateLeaseMetrics os w = Some w'"
  using pool_type_events_total [OF _ assms(2), of "sub 2 (sub 2 os)"] assms(1)
  by (auto simp: updateLeaseMetrics_def updateNetworkTypeMetrics_def split: Option.bind_splits)

end
