(* ===== verification/Triggers.thy ===== *)
theory Triggers
  imports LeaseMetrics
begin

text \<open>
  \<open>triggerPoolUpdates\<close> and \<open>triggerLeaseUpdates\<close> of \<^verbatim>\<open>pkg/controller/leases.go\<close>: the controller reads
  cached objects anew, in place, and touches an annotation so that they are reconciled again.
\<close>

section \<open>Pools\<close>

definition annotate_pool :: "string \<Rightarrow> Pool \<Rightarrow> Pool" where
  "annotate_pool stamp pool =
     pool\<lparr>p_Meta := (p_Meta pool)\<lparr>om_Annotations :=
       Some (gset ''last-updated'' stamp (case om_Annotations (p_Meta pool) of None \<Rightarrow> [] | Some m \<Rightarrow> m))\<rparr>\<rparr>"

fun trigger_pools_loop :: "choices \<Rightarrow> 's api \<Rightarrow> Pool gomap \<Rightarrow> 's world \<Rightarrow> 's world" where
  "trigger_pools_loop os api [] w = w"
| "trigger_pools_loop os api ((key, pool) # rest) w =
     trigger_pools_loop (sub 1 os) api rest
       (case api_get_pool api (om_Namespace (p_Meta pool)) (p_Name pool) (w_server w) of
          Inl err \<Rightarrow> w
        | Inr got \<Rightarrow>
            (case api_update_pool api (annotate_pool (api_stamp api (time_now (sub 0 os))) got) (w_server w) of
               (Inl err, s) \<Rightarrow> put_pool key (annotate_pool (api_stamp api (time_now (sub 0 os))) got) (set_server s w)
             | (Inr answer, s) \<Rightarrow> put_pool key answer (set_server s w)))"

definition triggerPoolUpdates :: "choices \<Rightarrow> 's api \<Rightarrow> 's world \<Rightarrow> 's world" where
  "triggerPoolUpdates os api w = trigger_pools_loop (sub 0 os) api (range_map (sub 1 os) (ca_pools (w_cache w))) w"

section \<open>Leases\<close>

definition annotate_lease :: "string \<Rightarrow> Lease \<Rightarrow> Lease" where
  "annotate_lease stamp lease =
     lease\<lparr>l_Meta := (l_Meta lease)\<lparr>om_Annotations :=
       Some (gset ''last-updated'' stamp (case om_Annotations (l_Meta lease) of None \<Rightarrow> [] | Some m \<Rightarrow> m))\<rparr>\<rparr>"

text \<open>The scan for the oldest unfinished lease of the type, with its key in the cache.\<close>

fun trigger_scan ::
  "'s api \<Rightarrow> string \<Rightarrow> Lease gomap \<Rightarrow> 's world \<times> (string \<times> Lease) option \<Rightarrow> 's world \<times> (string \<times> Lease) option" where
  "trigger_scan api networkType [] acc = acc"
| "trigger_scan api networkType ((key, lease) # rest) (w, oldestLease) =
     trigger_scan api networkType rest
       (if ls_NetworkType (l_Spec lease) \<noteq> networkType then (w, oldestLease)
        else if l_Phase lease = PHASE_FULFILLED \<or> l_Phase lease = PHASE_FAILED then (w, oldestLease)
        else case api_get_lease api (l_Namespace lease) (l_Name lease) (w_server w) of
          Inl err \<Rightarrow> (w, oldestLease)
        | Inr got \<Rightarrow>
            (put_lease key got w,
             case oldestLease of
               None \<Rightarrow> Some (key, got)
             | Some (k, old) \<Rightarrow>
                 if l_CreationTimestamp got < l_CreationTimestamp old then Some (key, got) else oldestLease))"

definition triggerLeaseUpdates :: "choices \<Rightarrow> 's api \<Rightarrow> string \<Rightarrow> 's world \<Rightarrow> 's world" where
  "triggerLeaseUpdates os api networkType w =
     (case trigger_scan api networkType (range_map (sub 0 os) (ca_leases (w_cache w))) (w, None) of
        (w, None) \<Rightarrow> w
      | (w, Some (key, lease)) \<Rightarrow>
          let touched = annotate_lease (api_stamp api (time_now (sub 1 os))) lease in
          (case api_update_lease api touched (w_server w) of
             (Inl err, s) \<Rightarrow> put_lease key touched (set_server s w)
           | (Inr answer, s) \<Rightarrow> put_lease key answer (set_server s w)))"

section \<open>Lemmas\<close>

lemma trigger_pools_loop_frame:
  "ca_leases (w_cache (trigger_pools_loop os api kps w)) = ca_leases (w_cache w) \<and>
   ca_networks (w_cache (trigger_pools_loop os api kps w)) = ca_networks (w_cache w) \<and>
   w_metrics (trigger_pools_loop os api kps w) = w_metrics w \<and>
   (cache_ok (w_cache w) \<longrightarrow> cache_ok (w_cache (trigger_pools_loop os api kps w)))"
proof (induction kps arbitrary: os w)
  case (Cons kp kps)
  obtain k p where kp: "kp = (k, p)" by (cases kp)
  show ?case
    using Cons.IH unfolding kp
    by (auto simp: put_pool_def split: sum.splits prod.splits) (simp_all add: set_server_def cache_ok_def)
qed simp

end
