(* ===== verification/GoFormat.thy ===== *)
theory GoFormat
  imports GoPrelude
begin

text \<open>
  \<open>fmt.Sprintf\<close> called with a format and no operands, which is how every condition message of the
  controllers is made: a string without \<open>%\<close> is copied, \<open>%%\<close> becomes \<open>%\<close>, and every other
  directive becomes one of the error texts of the package \<^verbatim>\<open>fmt\<close>. Strings are byte strings;
  a verb outside ASCII is its UTF-8 sequence.
\<close>

section \<open>Parts of a directive\<close>

definition is_digit :: "char \<Rightarrow> bool" where
  "is_digit c \<longleftrightarrow> CHR ''0'' \<le> c \<and> c \<le> CHR ''9''"

definition is_flag :: "char \<Rightarrow> bool" where
  "is_flag c \<longleftrightarrow> c \<in> {CHR ''#'', CHR ''0'', CHR ''+'', CHR ''-'', CHR '' ''}"

text \<open>\<open>parsenum\<close>: is a number present, and the rest; a number above a million swallows the format.\<close>

fun too_large :: "nat \<Rightarrow> string \<Rightarrow> bool" where
  "too_large n [] = False"
| "too_large n (c # cs) = (n > 1000000 \<or> too_large (10 * n + (of_char c - 48)) cs)"

definition parsenum :: "string \<Rightarrow> bool \<times> string" where
  "parsenum s =
     (let ds = takeWhile is_digit s in
      if too_large 0 ds then (False, []) else (ds \<noteq> [], dropWhile is_digit s))"

text \<open>
  \<open>argNumber\<close>: an argument index in brackets. There are no operands, so every index is bad; the
  results are whether one was found, whether the argument numbers are still good, and the rest.
\<close>

definition arg_number :: "string \<Rightarrow> bool \<times> bool \<times> string" where
  "arg_number s =
     (case s of
        [] \<Rightarrow> (False, True, s)
      | c # cs \<Rightarrow>
          if c \<noteq> CHR ''['' then (False, True, s)
          else if length s \<ge> 3 \<and> CHR '']'' \<in> set cs then
            (let inner = takeWhile (\<lambda>x. x \<noteq> CHR '']'') cs;
                 ok = (fst (parsenum inner) \<and> snd (parsenum inner) = [])
             in (ok, False, tl (dropWhile (\<lambda>x. x \<noteq> CHR '']'') cs)))
          else (False, False, cs))"

definition verb_of :: "string \<Rightarrow> string \<times> string" where
  "verb_of s =
     (case s of
        [] \<Rightarrow> ([], [])
      | c # cs \<Rightarrow>
          if (of_char c :: nat) < 128 then ([c], cs)
          else let cont = (\<lambda>x. 128 \<le> (of_char x :: nat) \<and> (of_char x :: nat) < 192)
               in (c # takeWhile cont cs, dropWhile cont cs))"

definition width_part :: "string \<Rightarrow> bool \<Rightarrow> string \<times> bool \<times> bool \<times> string" where
  "width_part s afterIndex =
     (case s of
        c # cs \<Rightarrow>
          if c = CHR ''*'' then (''%!(BADWIDTH)'', False, True, cs)
          else (let (present, rest) = parsenum s in ([], afterIndex, \<not> (afterIndex \<and> present), rest))
      | [] \<Rightarrow> ([], afterIndex, True, []))"

definition prec_part :: "string \<Rightarrow> bool \<Rightarrow> string \<times> bool \<times> bool \<times> string" where
  "prec_part s afterIndex =
     (case s of
        c # cs \<Rightarrow>
          if c = CHR ''.'' then
            (let (after, good, rest) = arg_number cs in
             case rest of
               d # ds \<Rightarrow>
                 if d = CHR ''*'' then (''%!(BADPREC)'', False, good \<and> \<not> afterIndex, ds)
                 else ([], after, good \<and> \<not> afterIndex, snd (parsenum rest))
             | [] \<Rightarrow> ([], after, good \<and> \<not> afterIndex, []))
          else ([], afterIndex, True, s)
      | [] \<Rightarrow> ([], afterIndex, True, []))"

text \<open>What follows a \<open>%\<close>: the text it becomes and the rest of the format.\<close>

definition directive :: "string \<Rightarrow> string \<times> string" where
  "directive s =
     (let s1 = dropWhile is_flag s;
          (after1, good1, s2) = arg_number s1;
          (out1, after2, good2, s3) = width_part s2 after1;
          (out2, after3, good3, s4) = prec_part s3 after2;
          (good4, s5) = (if after3 then (True, s4) else (case arg_number s4 of (_, g, r) \<Rightarrow> (g, r)))
      in if s5 = [] then (out1 @ out2 @ ''%!(NOVERB)'', [])
         else let (verb, rest) = verb_of s5 in
           (out1 @ out2 @
             (if verb = ''%'' then ''%''
              else if \<not> (good1 \<and> good2 \<and> good3 \<and> good4) then ''%!'' @ verb @ ''(BADINDEX)''
              else ''%!'' @ verb @ ''(MISSING)''), rest))"

section \<open>The formatter\<close>

lemma length_parsenum: "length (snd (parsenum s)) \<le> length s"
  by (auto simp: parsenum_def Let_def length_dropWhile_le)

lemma length_arg_number: "length (snd (snd (arg_number s))) \<le> length s"
  by (auto simp: arg_number_def Let_def split: list.splits
      intro!: order_trans [OF diff_le_self] order_trans [OF length_dropWhile_le])

lemma length_width_part: "length (snd (snd (snd (width_part s a)))) \<le> length s"
proof (cases s)
  case (Cons c cs)
  with length_parsenum [of s] show ?thesis by (simp add: width_part_def split_beta)
qed (simp add: width_part_def)

lemma length_prec_part: "length (snd (snd (snd (prec_part s a)))) \<le> length s"
proof (cases s)
  case (Cons c cs)
  obtain after good rest where an: "arg_number cs = (after, good, rest)" by (cases "arg_number cs")
  have "length rest \<le> length cs" using length_arg_number [of cs] an by simp
  with Cons an length_parsenum [of rest] show ?thesis
    by (auto simp: prec_part_def split: list.splits)
qed (simp add: prec_part_def)

lemma length_verb_of: "length (snd (verb_of s)) \<le> length s"
  by (auto simp: verb_of_def Let_def le_SucI length_dropWhile_le split: list.splits)

lemma length_directive: "length (snd (directive s)) \<le> length s"
proof -
  let ?s1 = "dropWhile is_flag s"
  obtain a1 g1 s2 where 2: "arg_number ?s1 = (a1, g1, s2)" by (cases "arg_number ?s1")
  obtain o1 a2 g2 s3 where 3: "width_part s2 a1 = (o1, a2, g2, s3)" by (cases "width_part s2 a1")
  obtain o2 a3 g3 s4 where 4: "prec_part s3 a2 = (o2, a3, g3, s4)" by (cases "prec_part s3 a2")
  obtain a5 g5 s5 where 5: "arg_number s4 = (a5, g5, s5)" by (cases "arg_number s4")
  have le: "length ?s1 \<le> length s" "length s2 \<le> length ?s1" "length s3 \<le> length s2"
      "length s4 \<le> length s3" "length s5 \<le> length s4"
    using length_arg_number [of ?s1] length_width_part [of s2 a1] length_prec_part [of s3 a2]
      length_arg_number [of s4] 2 3 4 5
    by (simp_all add: length_dropWhile_le)
  have "snd (directive s) = [] \<or> snd (directive s) = snd (verb_of s4) \<or> snd (directive s) = snd (verb_of s5)"
    using 2 3 4 5 by (auto simp: directive_def Let_def split: prod.splits)
  with le length_verb_of [of s4] length_verb_of [of s5] show ?thesis by auto
qed

function sprintf0 :: "string \<Rightarrow> string" where
  "sprintf0 [] = []"
| "sprintf0 (c # cs) =
     (if c \<noteq> CHR ''%'' then c # sprintf0 cs else fst (directive cs) @ sprintf0 (snd (directive cs)))"
  by pat_completeness auto
termination
  by (relation "measure length") (auto simp: le_imp_less_Suc length_directive)

lemma sprintf0_id: "CHR ''%'' \<notin> set s \<Longrightarrow> sprintf0 s = s"
  by (induction s) auto

end
