(* ===== verification/Conditions.thy ===== *)
theory Conditions
  imports ApiTypes GoFormat
begin

text \<open>
  The condition list of a lease (\<^verbatim>\<open>pkg/utils/conditions\<close>): \<open>Set\<close>, its comparison helpers and
  the condition constructors. The interface a caller relies on is the locale
  \<open>condition_store\<close>; it is interpreted on \<open>Set\<close> itself.
\<close>

section \<open>The operations\<close>

definition lexicographicLess :: "Condition \<Rightarrow> Condition \<Rightarrow> bool" where
  "lexicographicLess i j \<longleftrightarrow> c_Type i < c_Type j"

definition hasSameState :: "Condition \<Rightarrow> Condition \<Rightarrow> bool" where
  "hasSameState i j \<longleftrightarrow> c_Type i = c_Type j \<and> c_Status i = c_Status j \<and> c_Reason i = c_Reason j \<and>
     c_Severity i = c_Severity j \<and> c_Message i = c_Message j"

text \<open>
  The loop of \<open>Set\<close> over the present conditions, with the flag \<open>exists\<close>: the first condition
  of the same type is replaced, with a new transition time, unless its state is the same.
\<close>

fun set_existing :: "int \<Rightarrow> Condition \<Rightarrow> Condition list \<Rightarrow> bool \<times> Condition list" where
  "set_existing now c [] = (False, [])"
| "set_existing now c (x # xs) =
     (if c_Type x = c_Type c then
        (if \<not> hasSameState x c then (True, c\<lparr>c_LastTransitionTime := now\<rparr> # xs) else (True, x # xs))
      else (case set_existing now c xs of (e, ys) \<Rightarrow> (e, x # ys)))"

definition upsert :: "int \<Rightarrow> Condition \<Rightarrow> Condition list \<Rightarrow> Condition list" where
  "upsert now c cs =
     (case set_existing now c cs of (exists, cs') \<Rightarrow>
        if exists then cs'
        else cs' @ [if c_LastTransitionTime c = 0 then c\<lparr>c_LastTransitionTime := now\<rparr> else c])"

definition GetConditions :: "Lease \<Rightarrow> Condition list" where
  "GetConditions l = l_Conditions l"

definition SetConditions :: "Condition list \<Rightarrow> Lease \<Rightarrow> Lease" where
  "SetConditions cs l = set_conditions cs l"

definition cond_Set :: "choices \<Rightarrow> Condition \<Rightarrow> Lease \<Rightarrow> Lease" where
  "cond_Set os c l =
     SetConditions (sort_slice os lexicographicLess (upsert (time_now os) c (GetConditions l))) l"

definition TrueCondition :: "string \<Rightarrow> Condition" where
  "TrueCondition t = \<lparr>c_Type = t, c_Status = ConditionTrue, c_Severity = [], c_LastTransitionTime = 0,
     c_Reason = [], c_Message = []\<rparr>"

definition FalseCondition :: "string \<Rightarrow> Condition" where
  "FalseCondition t = \<lparr>c_Type = t, c_Status = ConditionFalse, c_Severity = [], c_LastTransitionTime = 0,
     c_Reason = [], c_Message = []\<rparr>"

text \<open>The callers of the constructors with a reason pass a format and no operands.\<close>

definition TrueConditionWithReason :: "string \<Rightarrow> string \<Rightarrow> string \<Rightarrow> Condition" where
  "TrueConditionWithReason t reason messageFormat =
     (TrueCondition t)\<lparr>c_Reason := reason, c_Message := sprintf0 messageFormat\<rparr>"

definition FalseConditionWithReason :: "string \<Rightarrow> string \<Rightarrow> string \<Rightarrow> string \<Rightarrow> Condition" where
  "FalseConditionWithReason t reason severity messageFormat =
     (FalseCondition t)\<lparr>c_Reason := reason, c_Severity := severity, c_Message := sprintf0 messageFormat\<rparr>"

definition UnknownCondition :: "string \<Rightarrow> string \<Rightarrow> string \<Rightarrow> Condition" where
  "UnknownCondition t reason messageFormat =
     (TrueCondition t)\<lparr>c_Status := ConditionUnknown, c_Reason := reason, c_Message := sprintf0 messageFormat\<rparr>"

lemma condition_simps [simp]:
  "c_Type (TrueCondition t) = t" "c_Status (TrueCondition t) = ConditionTrue"
  "c_Type (FalseCondition t) = t" "c_Status (FalseCondition t) = ConditionFalse"
  "c_Type (FalseConditionWithReason t r s m) = t" "c_Status (FalseConditionWithReason t r s m) = ConditionFalse"
  "c_Message (FalseConditionWithReason t r s m) = sprintf0 m" "c_Reason (FalseConditionWithReason t r s m) = r"
  by (simp_all add: TrueCondition_def FalseCondition_def FalseConditionWithReason_def)

section \<open>Well-formed condition lists\<close>

text \<open>
  The CRD declares the list as a map keyed by type; \<open>Set\<close> also keeps it sorted by type.
\<close>

definition conds_ok :: "Condition list \<Rightarrow> bool" where
  "conds_ok cs \<longleftrightarrow> distinct (map c_Type cs)"

fun cond_get :: "string \<Rightarrow> Condition list \<Rightarrow> Condition option" where
  "cond_get t [] = None"
| "cond_get t (c # cs) = (if c_Type c = t then Some c else cond_get t cs)"

definition cond_status :: "string \<Rightarrow> Lease \<Rightarrow> string option" where
  "cond_status t l = map_option c_Status (cond_get t (l_Conditions l))"

lemma cond_get_Some_iff:
  "conds_ok cs \<Longrightarrow> cond_get t cs = Some c \<longleftrightarrow> c \<in> set cs \<and> c_Type c = t"
  by (induction cs) (auto simp: conds_ok_def)

lemma cond_get_None_iff: "cond_get t cs = None \<longleftrightarrow> t \<notin> c_Type ` set cs"
  by (induction cs) auto

lemma cond_get_mset:
  assumes "conds_ok cs" "mset cs' = mset cs"
  shows "cond_get t cs' = cond_get t cs"
proof -
  have ok: "conds_ok cs'"
    using assms by (metis conds_ok_def mset_eq_imp_distinct_iff mset_map)
  have "cond_get t cs' = Some c \<longleftrightarrow> cond_get t cs = Some c" for c
    using assms ok by (simp add: cond_get_Some_iff flip: set_mset_mset)
  then show ?thesis by (metis not_Some_eq)
qed

text \<open>What \<open>upsert\<close> stores for the type it writes.\<close>

definition stored :: "int \<Rightarrow> Condition \<Rightarrow> Condition option \<Rightarrow> Condition" where
  "stored now c old =
     (case old of
        Some x \<Rightarrow> if hasSameState x c then x else c\<lparr>c_LastTransitionTime := now\<rparr>
      | None \<Rightarrow> if c_LastTransitionTime c = 0 then c\<lparr>c_LastTransitionTime := now\<rparr> else c)"

lemma set_existing_fst: "fst (set_existing now c cs) \<longleftrightarrow> c_Type c \<in> c_Type ` set cs"
  by (induction cs) (auto split: prod.splits)

lemma set_existing_types: "map c_Type (snd (set_existing now c cs)) = map c_Type cs"
  by (induction cs) (auto split: prod.splits)

lemma set_existing_get_other:
  "t \<noteq> c_Type c \<Longrightarrow> cond_get t (snd (set_existing now c cs)) = cond_get t cs"
  by (induction cs) (auto split: prod.splits)

lemma set_existing_get_same:
  "cond_get (c_Type c) cs = Some x \<Longrightarrow>
   cond_get (c_Type c) (snd (set_existing now c cs)) = Some (stored now c (Some x))"
  by (induction cs) (auto simp: stored_def split: prod.splits if_splits)

lemma cond_get_append:
  "cond_get t (xs @ ys) = (case cond_get t xs of None \<Rightarrow> cond_get t ys | Some c \<Rightarrow> Some c)"
  by (induction xs) auto

lemma set_existing_absent: "c_Type c \<notin> c_Type ` set cs \<Longrightarrow> set_existing now c cs = (False, cs)"
  by (induction cs) auto

lemma upsert_get:
  "cond_get t (upsert now c cs) =
     (if t = c_Type c then Some (stored now c (cond_get t cs)) else cond_get t cs)"
proof (cases "c_Type c \<in> c_Type ` set cs")
  case True
  then have "upsert now c cs = snd (set_existing now c cs)"
    using set_existing_fst [of now c cs] by (auto simp: upsert_def split: prod.splits)
  moreover obtain x where "cond_get (c_Type c) cs = Some x"
    using True cond_get_None_iff [of "c_Type c" cs] by auto
  ultimately show ?thesis
    using set_existing_get_other set_existing_get_same by (metis option.inject)
next
  case False
  then have "cond_get (c_Type c) cs = None" by (simp add: cond_get_None_iff)
  with False show ?thesis
    by (auto simp: upsert_def set_existing_absent cond_get_append stored_def split: option.splits)
qed

lemma upsert_types:
  "map c_Type (upsert now c cs) =
     map c_Type cs @ (if c_Type c \<in> c_Type ` set cs then [] else [c_Type c])"
  using set_existing_fst [of now c cs] set_existing_types [of now c cs]
  by (auto simp: upsert_def split: prod.splits)

lemma upsert_conds_ok: "conds_ok cs \<Longrightarrow> conds_ok (upsert now c cs)"
  unfolding conds_ok_def upsert_types by auto

section \<open>Properties of Set\<close>

lemma cond_Set_frame [simp]:
  "l_Meta (cond_Set os c l) = l_Meta l" "l_Spec (cond_Set os c l) = l_Spec l"
  "l_Phase (cond_Set os c l) = l_Phase l" "l_Kind (cond_Set os c l) = l_Kind l"
  "lst_FailureDomain (l_Status (cond_Set os c l)) = lst_FailureDomain (l_Status l)"
  "lst_PoolInfo (l_Status (cond_Set os c l)) = lst_PoolInfo (l_Status l)"
  "lst_EnvVars (l_Status (cond_Set os c l)) = lst_EnvVars (l_Status l)"
  "lst_EnvVarsMap (l_Status (cond_Set os c l)) = lst_EnvVarsMap (l_Status l)"
  "lst_JobLink (l_Status (cond_Set os c l)) = lst_JobLink (l_Status l)"
  by (simp_all add: cond_Set_def SetConditions_def set_conditions_def)

lemma cond_Set_mset:
  "choices_ok os \<Longrightarrow>
   mset (l_Conditions (cond_Set os c l)) = mset (upsert (time_now os) c (l_Conditions l))"
  by (simp add: cond_Set_def SetConditions_def GetConditions_def)

lemma cond_Set_ok:
  "choices_ok os \<Longrightarrow> conds_ok (l_Conditions l) \<Longrightarrow> conds_ok (l_Conditions (cond_Set os c l))"
  using cond_Set_mset [of os c l] upsert_conds_ok [of "l_Conditions l" "time_now os" c]
  by (metis conds_ok_def mset_eq_imp_distinct_iff mset_map)

lemma cond_Set_get:
  assumes "choices_ok os" "conds_ok (l_Conditions l)"
  shows "cond_get t (l_Conditions (cond_Set os c l)) =
    (if t = c_Type c then Some (stored (time_now os) c (cond_get t (l_Conditions l)))
     else cond_get t (l_Conditions l))"
  using cond_get_mset [OF upsert_conds_ok cond_Set_mset] assms by (simp add: upsert_get)

lemma cond_Set_sorted:
  assumes "choices_ok os" "conds_ok (l_Conditions l)"
  shows "sorted_wrt (<) (map c_Type (l_Conditions (cond_Set os c l)))"
proof -
  let ?cs = "upsert (time_now os) c (l_Conditions l)"
  have "sorted_wrt (\<lambda>x y. \<not> lexicographicLess y x) (sort_slice os lexicographicLess ?cs)"
    by (rule sorted_sort_slice [OF assms(1)]) (auto simp: lexicographicLess_def)
  then have "sorted (map c_Type (l_Conditions (cond_Set os c l)))"
    by (simp add: cond_Set_def SetConditions_def GetConditions_def sorted_map lexicographicLess_def
        not_less)
  moreover have "distinct (map c_Type (l_Conditions (cond_Set os c l)))"
    using cond_Set_ok [OF assms] by (simp add: conds_ok_def)
  ultimately show ?thesis by (simp add: strict_sorted_iff)
qed

lemma hasSameState_stored: "hasSameState (stored now c old) c"
  by (auto simp: stored_def hasSameState_def split: option.splits)

lemma c_Status_stored [simp]: "c_Status (stored now c old) = c_Status c"
  by (auto simp: stored_def hasSameState_def split: option.splits)

lemma stored_twice: "stored now c (Some (stored now' c old)) = stored now' c old"
  using hasSameState_stored [of now' c old] by (simp add: stored_def)

text \<open>A sorted list with distinct types is determined by its lookups.\<close>

lemma conds_eqI:
  assumes "sorted_wrt (<) (map c_Type cs)" "sorted_wrt (<) (map c_Type cs')"
    "\<And>t. cond_get t cs = cond_get t cs'"
  shows "cs = cs'"
proof -
  have ok: "conds_ok cs" "conds_ok cs'"
    using assms(1,2) by (simp_all add: conds_ok_def strict_sorted_iff)
  have eq: "set cs = set cs'"
    using assms(3) ok by (metis cond_get_Some_iff subsetI subset_antisym)
  then have "map c_Type cs = map c_Type cs'"
    using assms(1,2) by (metis list.set_map strict_sorted_equal)
  then show ?thesis
    using ok eq by (metis conds_ok_def distinct_map map_inj_on sup.idem)
qed

section \<open>The interface of a condition store\<close>

text \<open>
  What the lease controller relies on: writing a condition keeps the store well formed,
  stores the condition under its type with the transition-time rule of \<open>stored\<close>, and leaves the
  conditions of other types alone. A run of writes is the left fold of \<open>put\<close>; each write has its
  own part of the choices.
\<close>

fun put_list :: "(choices \<Rightarrow> Condition \<Rightarrow> 'l \<Rightarrow> 'l) \<Rightarrow> choices \<Rightarrow> Condition list \<Rightarrow> 'l \<Rightarrow> 'l" where
  "put_list put os [] l = l"
| "put_list put os (c # cs) l = put_list put (sub 1 os) cs (put (sub 0 os) c l)"

locale condition_store =
  fixes put :: "choices \<Rightarrow> Condition \<Rightarrow> 'l \<Rightarrow> 'l"
    and view :: "'l \<Rightarrow> string \<Rightarrow> Condition option"
    and ok :: "'l \<Rightarrow> bool"
  assumes put_ok: "choices_ok os \<Longrightarrow> ok l \<Longrightarrow> ok (put os c l)"
    and put_same: "choices_ok os \<Longrightarrow> ok l \<Longrightarrow>
      view (put os c l) (c_Type c) = Some (stored (time_now os) c (view l (c_Type c)))"
    and put_other: "choices_ok os \<Longrightarrow> ok l \<Longrightarrow> t \<noteq> c_Type c \<Longrightarrow> view (put os c l) t = view l t"
begin

lemma put_list_ok: "choices_ok os \<Longrightarrow> ok l \<Longrightarrow> ok (put_list put os cs l)"
  by (induction cs arbitrary: os l) (auto simp: put_ok)

lemma put_list_other:
  "choices_ok os \<Longrightarrow> ok l \<Longrightarrow> t \<notin> c_Type ` set cs \<Longrightarrow> view (put_list put os cs l) t = view l t"
  by (induction cs arbitrary: os l) (auto simp: put_ok put_other)

lemma put_list_status:
  assumes "choices_ok os" "ok l" "distinct (map c_Type cs)" "c \<in> set cs"
  shows "map_option c_Status (view (put_list put os cs l) (c_Type c)) = Some (c_Status c)"
  using assms
proof (induction cs arbitrary: os l)
  case (Cons x cs)
  show ?case
  proof (cases "c = x")
    case True
    with Cons.prems have "view (put_list put os (x # cs) l) (c_Type c) = view (put (sub 0 os) x l) (c_Type x)"
      by (simp add: put_list_other put_ok)
    with True Cons.prems show ?thesis by (simp add: put_same)
  next
    case False
    with Cons show ?thesis by (simp add: put_ok)
  qed
qed simp

lemma put_twice:
  assumes "choices_ok os" "choices_ok os'" "ok l"
  shows "view (put os' c (put os c l)) t = view (put os c l) t"
  using assms by (cases "t = c_Type c") (simp_all add: put_ok put_same put_other stored_twice)

end

definition lease_conds_ok :: "Lease \<Rightarrow> bool" where
  "lease_conds_ok l \<longleftrightarrow> conds_ok (l_Conditions l)"

definition lease_cond :: "Lease \<Rightarrow> string \<Rightarrow> Condition option" where
  "lease_cond l t = cond_get t (l_Conditions l)"

interpretation lc: condition_store cond_Set lease_cond lease_conds_ok
  by unfold_locales (auto simp: lease_conds_ok_def lease_cond_def cond_Set_ok cond_Set_get)

definition set_conds :: "choices \<Rightarrow> Condition list \<Rightarrow> Lease \<Rightarrow> Lease" where
  "set_conds os cs l = put_list cond_Set os cs l"

lemma put_list_frame:
  "l_Meta (put_list cond_Set os cs l) = l_Meta l \<and> l_Spec (put_list cond_Set os cs l) = l_Spec l \<and>
   l_Phase (put_list cond_Set os cs l) = l_Phase l \<and> l_Kind (put_list cond_Set os cs l) = l_Kind l \<and>
   lst_FailureDomain (l_Status (put_list cond_Set os cs l)) = lst_FailureDomain (l_Status l) \<and>
   lst_PoolInfo (l_Status (put_list cond_Set os cs l)) = lst_PoolInfo (l_Status l) \<and>
   lst_EnvVarsMap (l_Status (put_list cond_Set os cs l)) = lst_EnvVarsMap (l_Status l)"
  by (induction cs arbitrary: os l) simp_all

lemma set_conds_frame [simp]:
  "l_Meta (set_conds os cs l) = l_Meta l" "l_Spec (set_conds os cs l) = l_Spec l"
  "l_Phase (set_conds os cs l) = l_Phase l" "l_Kind (set_conds os cs l) = l_Kind l"
  "lst_FailureDomain (l_Status (set_conds os cs l)) = lst_FailureDomain (l_Status l)"
  "lst_PoolInfo (l_Status (set_conds os cs l)) = lst_PoolInfo (l_Status l)"
  "lst_EnvVarsMap (l_Status (set_conds os cs l)) = lst_EnvVarsMap (l_Status l)"
  using put_list_frame by (simp_all add: set_conds_def)

lemma set_conds_ok: "choices_ok os \<Longrightarrow> lease_conds_ok l \<Longrightarrow> lease_conds_ok (set_conds os cs l)"
  by (simp add: set_conds_def lc.put_list_ok)

lemma set_conds_status:
  "choices_ok os \<Longrightarrow> lease_conds_ok l \<Longrightarrow> distinct (map c_Type cs) \<Longrightarrow> c \<in> set cs \<Longrightarrow>
   cond_status (c_Type c) (set_conds os cs l) = Some (c_Status c)"
  using lc.put_list_status [of os l cs c] by (simp add: cond_status_def set_conds_def lease_cond_def)

lemma set_conds_status_other:
  "choices_ok os \<Longrightarrow> lease_conds_ok l \<Longrightarrow> t \<notin> c_Type ` set cs \<Longrightarrow>
   cond_status t (set_conds os cs l) = cond_status t l"
  using lc.put_list_other [of os l t cs] by (simp add: cond_status_def set_conds_def lease_cond_def)

lemma cond_Set_eqI:
  "l_Conditions (cond_Set os c l) = l_Conditions l \<Longrightarrow> cond_Set os c l = l"
  by (simp add: cond_Set_def SetConditions_def set_conditions_def)

section \<open>Properties\<close>

text \<open>
  C33: \<open>Set\<close> refines the update of a map from condition types to conditions: seen as a map, the list afterwards is the
  map before with the type written set to the new state, under the old transition time when the state
  did not change. The list keeps one condition per type and is strictly sorted by type.
\<close>

theorem cond_Set_refines_map:
  assumes "choices_ok os" "lease_conds_ok l"
  shows "lease_cond (cond_Set os c l) = (lease_cond l)(c_Type c \<mapsto> stored (time_now os) c (lease_cond l (c_Type c))) \<and>
    lease_conds_ok (cond_Set os c l) \<and> sorted_wrt (<) (map c_Type (l_Conditions (cond_Set os c l))) \<and>
    hasSameState (stored (time_now os) c (lease_cond l (c_Type c))) c"
proof -
  have "lease_cond (cond_Set os c l) t = ((lease_cond l)(c_Type c \<mapsto> stored (time_now os) c (lease_cond l (c_Type c)))) t" for t
    using lc.put_same [OF assms] lc.put_other [OF assms] by (cases "t = c_Type c") simp_all
  then show ?thesis
    using lc.put_ok [OF assms] cond_Set_sorted [OF assms(1)] assms(2) hasSameState_stored
    by (auto simp: lease_conds_ok_def lease_cond_def)
qed

text \<open>
  \<open>Set\<close> is idempotent: setting the same condition again, at any later time, leaves
  the lease, and so the transition time of the condition, unchanged.
\<close>

theorem cond_Set_idempotent:
  assumes "choices_ok os" "choices_ok os'" "conds_ok (l_Conditions l)"
  shows "cond_Set os' c (cond_Set os c l) = cond_Set os c l"
proof (rule cond_Set_eqI, rule conds_eqI)
  have ok: "conds_ok (l_Conditions (cond_Set os c l))" using assms by (simp add: cond_Set_ok)
  show "sorted_wrt (<) (map c_Type (l_Conditions (cond_Set os' c (cond_Set os c l))))"
    by (rule cond_Set_sorted [OF assms(2) ok])
  show "sorted_wrt (<) (map c_Type (l_Conditions (cond_Set os c l)))"
    by (rule cond_Set_sorted [OF assms(1,3)])
  show "cond_get t (l_Conditions (cond_Set os' c (cond_Set os c l))) = cond_get t (l_Conditions (cond_Set os c l))" for t
    using lc.put_twice [of os os' l c t] assms by (simp add: lease_cond_def lease_conds_ok_def)
qed

text \<open>
  The message of a condition is used as a format: a percent sign in the text the controller passes
  (here the reason for an unknown required pool named \<open>ci%d\<close>) comes out as an error text.
\<close>

theorem message_percent_garbled:
  "c_Message (FalseConditionWithReason t r sev ''required pool ci%d not found'') =
     ''required pool ci%!d(MISSING) not found''"
  by (simp add: directive_def arg_number_def width_part_def prec_part_def parsenum_def verb_of_def
      is_flag_def is_digit_def)

section \<open>Witnesses\<close>

definition cond_lease :: Lease where
  "cond_lease = set_conditions [FalseCondition LeaseConditionTypeFulfilled, TrueCondition LeaseConditionTypePending] zero_lease"

lemma cond_lease_ok: "conds_ok (l_Conditions cond_lease)"
  by (simp add: conds_ok_def cond_lease_def)

theorem cond_Set_refines_map_witness:
  "lease_cond (cond_Set std_choices (FalseCondition LeaseConditionTypePending) cond_lease) LeaseConditionTypePending =
   Some ((FalseCondition LeaseConditionTypePending)\<lparr>c_LastTransitionTime := 1000\<rparr>)"
proof -
  have "lease_conds_ok cond_lease" using cond_lease_ok by (simp add: lease_conds_ok_def)
  from cond_Set_refines_map [OF std_choices_ok this, of "FalseCondition LeaseConditionTypePending"] show ?thesis
    by (simp add: stored_def lease_cond_def cond_lease_def hasSameState_def time_now_def std_choices_def)
qed

theorem cond_Set_idempotent_witness:
  "cond_Set std_choices (FalseCondition LeaseConditionTypePending)
     (cond_Set std_choices (FalseCondition LeaseConditionTypePending) cond_lease) =
   cond_Set std_choices (FalseCondition LeaseConditionTypePending) cond_lease"
  by (rule cond_Set_idempotent [OF std_choices_ok std_choices_ok cond_lease_ok])

end
