(* ===== verification/LeaseQueue.thy ===== *)
theory LeaseQueue
  imports NetworkView Conditions Satisfiability
begin

text \<open>
  The decisions about a lease that come before assignment (\<^verbatim>\<open>pkg/controller/leases.go\<close>): whether it has to
  wait for other leases, whether it can never be fulfilled, its initial status and the link
  to its CI job.
\<close>

section \<open>Waiting for other leases\<close>

definition delays :: "Lease \<Rightarrow> Lease \<Rightarrow> bool" where
  "delays lease curLease =
     (if l_Name curLease = l_Name lease then False
      else if ls_NetworkType (l_Spec curLease) \<noteq> ls_NetworkType (l_Spec lease) then False
      else
        let requiredPool =
              (if ls_Networks (l_Spec curLease) > 1 \<and> ls_RequiredPool (l_Spec curLease) = []
               then fd_Name (lst_FailureDomain (l_Status curLease)) else ls_RequiredPool (l_Spec curLease));
            wanted = ls_RequiredPool (l_Spec lease)
        in if l_Phase curLease = PHASE_FULFILLED then False
           else if l_Phase curLease = PHASE_FAILED then False
           else if l_Phase curLease = PHASE_PARTIAL then requiredPool = wanted \<or> wanted = []
           else if l_Phase curLease = PHASE_PENDING then
             (requiredPool = wanted \<or> requiredPool = [] \<or> wanted = []) \<and>
             l_CreationTimestamp curLease < l_CreationTimestamp lease
           else False)"

fun delay_loop :: "Lease \<Rightarrow> Lease list \<Rightarrow> bool" where
  "delay_loop lease [] = False"
| "delay_loop lease (curLease # rest) = (if delays lease curLease then True else delay_loop lease rest)"

definition shouldLeaseBeDelayed :: "choices \<Rightarrow> cache \<Rightarrow> Lease \<Rightarrow> bool" where
  "shouldLeaseBeDelayed os ca lease =
     (if l_Phase lease = PHASE_PENDING then delay_loop lease (range_vals os (ca_leases ca)) else False)"

section \<open>Unsatisfiable leases\<close>

definition release_refs :: "Lease \<Rightarrow> Lease" where
  "release_refs lease =
     set_owner_refs (filter (\<lambda>ref. or_Kind ref \<noteq> ''Pool'' \<and> or_Kind ref \<noteq> ''Network'') (l_OwnerReferences lease)) lease"

abbreviation "pending_networks \<equiv> [''/pending/network/pending'']"

definition clear_assignment :: "Lease \<Rightarrow> Lease" where
  "clear_assignment lease =
     set_status_networks pending_networks
       (lease\<lparr>l_Status := (l_Status lease)\<lparr>lst_PoolInfo := [], lst_EnvVarsMap := None\<rparr>\<rparr>)"

definition failLeaseIfUnsatisfiable :: "choices \<Rightarrow> Lease \<Rightarrow> Pool list \<Rightarrow> bool \<times> Lease" where
  "failLeaseIfUnsatisfiable os lease allPools =
     (case IsLeaseSatisfiable lease allPools of (ok, reason) \<Rightarrow>
        if ok then (False, lease)
        else (True, set_conds os
          [FalseConditionWithReason LeaseConditionTypeFulfilled ReasonLeaseUnschedulable ConditionSeverityError reason,
           FalseCondition LeaseConditionTypePending, FalseCondition LeaseConditionTypePartial,
           FalseCondition LeaseConditionTypeDelayed]
          (set_phase PHASE_FAILED (clear_assignment (release_refs lease)))))"

section \<open>The initial status\<close>

abbreviation "DEFAULT_PROW_JOB_URL_PREFIX \<equiv> ''https://prow.ci.openshift.org/view/''"
abbreviation "DEFAULT_PROW_GS_BUCKET \<equiv> ''test-platform-results''"

definition generateJobLink :: "Lease \<Rightarrow> string" where
  "generateJobLink lease =
     (case om_Annotations (l_Meta lease) of
        None \<Rightarrow> []
      | Some annotations \<Rightarrow>
          let ann = gget_default [] annotations;
              jobURLPrefix = (if ann ''prow-url-prefix'' = [] then DEFAULT_PROW_JOB_URL_PREFIX else ann ''prow-url-prefix'');
              prowGSBucket = (if ann ''prow-gs-bucket'' = [] then DEFAULT_PROW_GS_BUCKET else ann ''prow-gs-bucket'')
          in if ann ''prow-job-type'' = ''periodic'' then
               jobURLPrefix @ ''gs/'' @ prowGSBucket @ ''/logs/'' @ ann ''prow-job-name'' @ ''/'' @ ann ''prow-build-id''
             else if ann ''prow-job-type'' = ''presubmit'' then
               jobURLPrefix @ ''gs/'' @ prowGSBucket @ ''/pr-logs/pull/'' @ ann ''git-org'' @ ''_'' @ ann ''git-repo'' @ ''/'' @
               ann ''git-pr'' @ ''/'' @ ann ''prow-job-name'' @ ''/'' @ ann ''prow-build-id''
             else [])"

definition pending_failure_domain :: "FailureDomainSpec \<Rightarrow> FailureDomainSpec" where
  "pending_failure_domain fd =
     fd\<lparr>fd_Topology := (fd_Topology fd)\<lparr>tp_Datacenter := ''pending'', tp_Datastore := ''/pending/datastore/pending'',
          tp_ComputeCluster := ''/pending/host/pending'',
          tp_Networks := tp_Networks (fd_Topology fd) @ [''/pending/network/pending'']\<rparr>,
        fd_Server := ''pending'', fd_Zone := ''pending'', fd_Region := ''pending'', fd_Name := ''pending'',
        fd_ShortName := ''pending''\<rparr>"

definition pending_conditions :: "Condition list" where
  "pending_conditions =
     [FalseCondition LeaseConditionTypeFulfilled, FalseCondition LeaseConditionTypeDelayed,
      TrueCondition LeaseConditionTypePending, FalseCondition LeaseConditionTypePartial]"

definition init_status :: "choices \<Rightarrow> Lease \<Rightarrow> Lease" where
  "init_status os lease =
     set_conds os pending_conditions
       (lease\<lparr>l_Status := (l_Status lease)\<lparr>lst_Phase := PHASE_PENDING,
          lst_FailureDomain := pending_failure_domain (lst_FailureDomain (l_Status lease)),
          lst_JobLink := generateJobLink lease\<rparr>\<rparr>)"

section \<open>Lemmas\<close>

lemma delay_loop_iff: "delay_loop lease ls \<longleftrightarrow> (\<exists>c \<in> set ls. delays lease c)"
  by (induction ls) auto

lemma shouldLeaseBeDelayed_iff:
  assumes "choices_ok os" "cache_ok ca"
  shows "shouldLeaseBeDelayed os ca lease \<longleftrightarrow>
    l_Phase lease = PHASE_PENDING \<and> (\<exists>c \<in> snd ` set (ca_leases ca). delays lease c)"
  using assms by (simp add: shouldLeaseBeDelayed_def delay_loop_iff cache_ok_def)

lemma delays_older_or_partial:
  "delays lease c \<Longrightarrow> l_Phase c = PHASE_PARTIAL \<or>
     l_Phase c = PHASE_PENDING \<and> l_CreationTimestamp c < l_CreationTimestamp lease"
  by (simp add: delays_def Let_def split: if_splits)

lemma clear_assignment_simps [simp]:
  "l_Meta (clear_assignment l) = l_Meta l" "l_Spec (clear_assignment l) = l_Spec l"
  "l_Conditions (clear_assignment l) = l_Conditions l" "l_Phase (clear_assignment l) = l_Phase l"
  "lst_PoolInfo (l_Status (clear_assignment l)) = []" "lst_EnvVarsMap (l_Status (clear_assignment l)) = None"
  "tp_Networks (fd_Topology (lst_FailureDomain (l_Status (clear_assignment l)))) = pending_networks"
  by (simp_all add: clear_assignment_def set_status_networks_def)

lemma release_refs_simps [simp]:
  "l_Spec (release_refs l) = l_Spec l" "l_Status (release_refs l) = l_Status l"
  "l_OwnerReferences (release_refs l) =
     filter (\<lambda>ref. or_Kind ref \<noteq> ''Pool'' \<and> or_Kind ref \<noteq> ''Network'') (l_OwnerReferences l)"
  by (simp_all add: release_refs_def)

lemma set_phase_more [simp]:
  "lst_PoolInfo (l_Status (set_phase ph l)) = lst_PoolInfo (l_Status l)"
  "lst_EnvVarsMap (l_Status (set_phase ph l)) = lst_EnvVarsMap (l_Status l)"
  "lst_FailureDomain (l_Status (set_phase ph l)) = lst_FailureDomain (l_Status l)"
  by (simp_all add: set_phase_def)

section \<open>Properties\<close>

text \<open>
  C16: The queue makes progress: unless a lease is partially fulfilled, some pending
  lease of the cache does not have to wait, whatever the map order.
\<close>

theorem some_pending_lease_runs:
  assumes "choices_ok os" "cache_ok ca"
    and "\<exists>l \<in> snd ` set (ca_leases ca). l_Phase l = PHASE_PENDING"
    and "\<forall>l \<in> snd ` set (ca_leases ca). l_Phase l \<noteq> PHASE_PARTIAL"
  shows "\<exists>l \<in> snd ` set (ca_leases ca). l_Phase l = PHASE_PENDING \<and> \<not> shouldLeaseBeDelayed os ca l"
proof -
  let ?P = "{l \<in> snd ` set (ca_leases ca). l_Phase l = PHASE_PENDING}"
  have "finite ?P" "?P \<noteq> {}" using assms(3) by auto
  then obtain l where l: "l \<in> ?P" "\<forall>l' \<in> ?P. \<not> l_CreationTimestamp l' < l_CreationTimestamp l"
    using arg_min_if_finite [of ?P "\<lambda>l. l_CreationTimestamp l"] by blast
  have "\<not> shouldLeaseBeDelayed os ca l"
    using l assms(4) delays_older_or_partial unfolding shouldLeaseBeDelayed_iff [OF assms(1,2)] by blast
  with l(1) show ?thesis by blast
qed

text \<open>
  A lease waits only for a partially fulfilled lease or for a pending lease that was created before it;
  so no two pending leases wait for each other. A lease that is not pending never waits.
\<close>

theorem delayed_only_by_older:
  assumes "choices_ok os" "cache_ok ca" "shouldLeaseBeDelayed os ca lease"
  shows "l_Phase lease = PHASE_PENDING \<and> (\<exists>c \<in> snd ` set (ca_leases ca).
    l_Name c \<noteq> l_Name lease \<and> ls_NetworkType (l_Spec c) = ls_NetworkType (l_Spec lease) \<and>
    (l_Phase c = PHASE_PARTIAL \<or>
     l_Phase c = PHASE_PENDING \<and> l_CreationTimestamp c < l_CreationTimestamp lease))"
proof -
  from assms(3) obtain c where c: "l_Phase lease = PHASE_PENDING" "c \<in> snd ` set (ca_leases ca)" "delays lease c"
    unfolding shouldLeaseBeDelayed_iff [OF assms(1,2)] by blast
  have "l_Name c \<noteq> l_Name lease" "ls_NetworkType (l_Spec c) = ls_NetworkType (l_Spec lease)"
    using c(3) by (auto simp: delays_def split: if_splits)
  with c delays_older_or_partial [OF c(3)] show ?thesis by blast
qed

text \<open>
  C15: A lease is failed exactly when it is not satisfiable. It then holds no pool and no network any more,
  its other owner references are kept, its phase is \<open>Failed\<close>, what was published about pools is
  cleared, the condition \<open>Fulfilled\<close> is false with the reason of the check and the conditions
  \<open>Pending\<close>, \<open>Partial\<close> and \<open>Delayed\<close> are false. A satisfiable lease is not changed.
\<close>

theorem failLeaseIfUnsatisfiable_correct:
  assumes "choices_ok os" "lease_conds_ok lease"
    and "failLeaseIfUnsatisfiable os lease pools = (failed, lease')"
  shows "(failed \<longleftrightarrow> \<not> fst (IsLeaseSatisfiable lease pools)) \<and> (\<not> failed \<longrightarrow> lease' = lease) \<and>
    (failed \<longrightarrow> l_Phase lease' = PHASE_FAILED \<and> l_Spec lease' = l_Spec lease \<and>
      l_OwnerReferences lease' =
        filter (\<lambda>ref. or_Kind ref \<noteq> ''Pool'' \<and> or_Kind ref \<noteq> ''Network'') (l_OwnerReferences lease) \<and>
      lst_PoolInfo (l_Status lease') = [] \<and> lst_EnvVarsMap (l_Status lease') = None \<and>
      tp_Networks (fd_Topology (lst_FailureDomain (l_Status lease'))) = pending_networks \<and>
      map (\<lambda>t. cond_status t lease') [LeaseConditionTypeFulfilled, LeaseConditionTypePending,
        LeaseConditionTypePartial, LeaseConditionTypeDelayed] = replicate 4 (Some ConditionFalse))"
proof -
  obtain ok reason where sat: "IsLeaseSatisfiable lease pools = (ok, reason)" by (cases "IsLeaseSatisfiable lease pools")
  let ?cs = "[FalseConditionWithReason LeaseConditionTypeFulfilled ReasonLeaseUnschedulable ConditionSeverityError reason,
     FalseCondition LeaseConditionTypePending, FalseCondition LeaseConditionTypePartial,
     FalseCondition LeaseConditionTypeDelayed]"
  let ?l = "set_phase PHASE_FAILED (clear_assignment (release_refs lease))"
  have res: "failed = (\<not> ok)" "lease' = (if ok then lease else set_conds os ?cs ?l)"
    using assms(3) sat by (auto simp: failLeaseIfUnsatisfiable_def)
  have okl: "lease_conds_ok ?l" using assms(2) by (simp add: lease_conds_ok_def)
  have dist: "distinct (map c_Type ?cs)" by simp
  have "cond_status (c_Type c) (set_conds os ?cs ?l) = Some (c_Status c)" if "c \<in> set ?cs" for c
    by (rule set_conds_status [OF assms(1) okl dist that])
  then have st: "cond_status LeaseConditionTypeFulfilled (set_conds os ?cs ?l) = Some ConditionFalse"
      "cond_status LeaseConditionTypePending (set_conds os ?cs ?l) = Some ConditionFalse"
      "cond_status LeaseConditionTypePartial (set_conds os ?cs ?l) = Some ConditionFalse"
      "cond_status LeaseConditionTypeDelayed (set_conds os ?cs ?l) = Some ConditionFalse"
    by fastforce+
  show ?thesis using res st sat by (simp add: numeral_eq_Suc)
qed

section \<open>Witnesses\<close>

definition queue_lease :: "string \<Rightarrow> int \<Rightarrow> Lease" where
  "queue_lease name t = set_phase PHASE_PENDING
     (zero_lease\<lparr>l_Meta := zero_meta\<lparr>om_Name := name, om_CreationTimestamp := t\<rparr>\<rparr>)"

definition queue_cache :: cache where
  "queue_cache = \<lparr>ca_pools = [], ca_leases = [(''ns/young'', queue_lease ''young'' 20), (''ns/old'', queue_lease ''old'' 10)],
     ca_networks = []\<rparr>"

lemma queue_cache_ok: "cache_ok queue_cache"
  by (simp add: queue_cache_def cache_ok_def gomap_ok_def)

lemma queue_lease_simps [simp]:
  "l_Name (queue_lease n t) = n" "l_CreationTimestamp (queue_lease n t) = t" "l_Phase (queue_lease n t) = PHASE_PENDING"
  "l_Spec (queue_lease n t) = zero_lease_spec"
  by (simp_all add: queue_lease_def zero_defs)

lemma queue_leases: "snd ` set (ca_leases queue_cache) = {queue_lease ''young'' 20, queue_lease ''old'' 10}"
  by (simp add: queue_cache_def)

lemma queue_young_delayed: "shouldLeaseBeDelayed std_choices queue_cache (queue_lease ''young'' 20)"
  unfolding shouldLeaseBeDelayed_iff [OF std_choices_ok queue_cache_ok] queue_leases
  by (simp add: delays_def zero_lease_spec_def)

theorem some_pending_lease_runs_witness:
  "\<not> shouldLeaseBeDelayed std_choices queue_cache (queue_lease ''old'' 10)"
proof -
  have "\<exists>l \<in> {queue_lease ''young'' 20, queue_lease ''old'' 10}.
      l_Phase l = PHASE_PENDING \<and> \<not> shouldLeaseBeDelayed std_choices queue_cache l"
    unfolding queue_leases [symmetric]
    by (rule some_pending_lease_runs [OF std_choices_ok queue_cache_ok]) (simp_all add: queue_leases)
  then show ?thesis using queue_young_delayed by auto
qed

theorem delayed_only_by_older_witness:
  "shouldLeaseBeDelayed std_choices queue_cache (queue_lease ''young'' 20) \<and>
   l_Phase (queue_lease ''young'' 20) = PHASE_PENDING"
  using delayed_only_by_older [OF std_choices_ok queue_cache_ok queue_young_delayed] queue_young_delayed by simp

theorem failLeaseIfUnsatisfiable_correct_witness:
  "fst (failLeaseIfUnsatisfiable std_choices (queue_lease ''lease'' 0) []) \<and>
   l_Phase (snd (failLeaseIfUnsatisfiable std_choices (queue_lease ''lease'' 0) [])) = PHASE_FAILED"
proof -
  have "lease_conds_ok (queue_lease ''lease'' 0)"
    by (simp add: lease_conds_ok_def conds_ok_def queue_lease_def zero_defs set_phase_def)
  moreover have "\<not> fst (IsLeaseSatisfiable (queue_lease ''lease'' 0) [])"
    by (simp add: IsLeaseSatisfiable_def required_pools_def minVCentersUnsatisfiableReason_def
        requiredPoolUnsatisfiableReason_def MaxAchievablePools_def structuralPoolsPerVCenter_def tally_def
        zero_lease_spec_def Let_def)
  ultimately show ?thesis
    using failLeaseIfUnsatisfiable_correct [OF std_choices_ok _ prod.collapse [symmetric],
        of "queue_lease ''lease'' 0" "[]"] by (simp only:) simp
qed

end
