(* ===== verification/PoolState.thy ===== *)
theory PoolState
  imports NetworkView GoFloat
begin

text \<open>
  \<open>reconcilePoolStates\<close> of \<^verbatim>\<open>pkg/controller/leases.go\<close>: the free CPUs and memory, the number of
  leases and the free networks of every cached pool, recomputed from the cached leases. The
  cached pools are updated in place and also returned.
\<close>

section \<open>Usage of a pool\<close>

definition uses_pool :: "Pool \<Rightarrow> Lease \<Rightarrow> bool" where
  "uses_pool pool lease \<longleftrightarrow>
     list_ex (\<lambda>ref. or_Kind ref = p_Kind pool \<and> or_Name ref = p_Name pool) (l_OwnerReferences lease)"

definition dc_id :: "string \<times> string \<Rightarrow> string" where
  "dc_id dcPod = ''dcid-'' @ fst dcPod @ ''-'' @ snd dcPod"

definition use_networks :: "choices \<Rightarrow> cache \<Rightarrow> Lease \<Rightarrow> string gomap gomap \<Rightarrow> string gomap gomap" where
  "use_networks os ca lease networksInUse =
     (let dcId = dc_id (getIBMDatacenterAndPod os ca (fd_Server (lst_FailureDomain (l_Status lease))));
          serverNetworks = gget_default [] networksInUse dcId
      in gset dcId
           (foldl (\<lambda>m networkPath. gset (path_base networkPath) (path_base networkPath) m) serverNetworks
              (tp_Networks (fd_Topology (lst_FailureDomain (l_Status lease)))))
           networksInUse)"

text \<open>The loop over the leases: CPUs, memory and number of the leases of the pool, and their networks.\<close>

type_synonym usage = "int \<times> int \<times> int \<times> string gomap gomap"

fun usage_loop :: "choices \<Rightarrow> cache \<Rightarrow> Pool \<Rightarrow> Lease list \<Rightarrow> usage \<Rightarrow> usage" where
  "usage_loop os ca pool [] u = u"
| "usage_loop os ca pool (lease # rest) (vcpus, memory, leaseCount, networksInUse) =
     usage_loop (sub 1 os) ca pool rest
       (if uses_pool pool lease
        then (wrap64 (vcpus + ls_VCpus (l_Spec lease)), wrap64 (memory + ls_Memory (l_Spec lease)),
              leaseCount + 1, use_networks (sub 0 os) ca lease networksInUse)
        else (vcpus, memory, leaseCount, networksInUse))"

definition over_commit_ratio :: "Pool \<Rightarrow> gofloat" where
  "over_commit_ratio pool =
     (case ParseFloat (ps_OverCommitRatio (p_Spec pool)) 32 of Some r \<Rightarrow> r | None \<Rightarrow> Fin 1)"

definition cpu_capacity :: "Pool \<Rightarrow> int" where
  "cpu_capacity pool = f64_to_int (f64_mul (f64_of_int (ps_VCpus (p_Spec pool))) (over_commit_ratio pool))"

definition set_usage :: "Pool \<Rightarrow> int \<Rightarrow> int \<Rightarrow> int \<Rightarrow> Pool" where
  "set_usage pool vcpus memory leaseCount =
     pool\<lparr>p_Status := (p_Status pool)\<lparr>pst_VCpusAvailable := wrap64 (cpu_capacity pool - vcpus),
       pst_MemoryAvailable := wrap64 (ps_Memory (p_Spec pool) - memory), pst_LeaseCount := leaseCount\<rparr>\<rparr>"

fun usage_pass ::
  "choices \<Rightarrow> cache \<Rightarrow> Pool gomap \<Rightarrow> string gomap gomap \<Rightarrow> Pool gomap \<times> string gomap gomap" where
  "usage_pass os ca [] networksInUse = ([], networksInUse)"
| "usage_pass os ca ((poolName, pool) # rest) networksInUse =
     (let (vcpus, memory, leaseCount, inUse) =
            usage_loop (sub 0 os) ca pool (range_vals (sub 1 os) (ca_leases ca)) (0, 0, 0, networksInUse);
          (out, inUse) = usage_pass (sub 2 os) ca rest inUse
      in ((poolName, set_usage pool vcpus memory leaseCount) # out, inUse))"

section \<open>Free networks of a pool\<close>

definition port_group_types :: "choices \<Rightarrow> Network gomap \<Rightarrow> string gomap" where
  "port_group_types os poolNetworks =
     foldl (\<lambda>m network. gset (n_PortGroupName network) (getNetworkType network) m) [] (range_vals os poolNetworks)"

text \<open>Free networks, single-tenant networks (all, free) and multi-tenant networks (all, free).\<close>

record net_counts =
  nc_available :: int
  nc_stTotal :: int
  nc_stAvail :: int
  nc_mtTotal :: int
  nc_mtAvail :: int

definition zero_counts :: net_counts where
  "zero_counts = \<lparr>nc_available = 0, nc_stTotal = 0, nc_stAvail = 0, nc_mtTotal = 0, nc_mtAvail = 0\<rparr>"

definition count_network :: "string gomap \<Rightarrow> string gomap \<Rightarrow> net_counts \<Rightarrow> string \<Rightarrow> net_counts" where
  "count_network portGroupType serverNetworks c network =
     (let networkName = path_base network;
          free = (if gget serverNetworks networkName = None then 1 else 0);
          netType = gget_default NetworkTypeSingleTenant portGroupType networkName;
          c = c\<lparr>nc_available := nc_available c + free\<rparr>
      in if netType = NetworkTypeMultiTenant
         then c\<lparr>nc_mtTotal := nc_mtTotal c + 1, nc_mtAvail := nc_mtAvail c + free\<rparr>
         else if netType = NetworkTypeSingleTenant
         then c\<lparr>nc_stTotal := nc_stTotal c + 1, nc_stAvail := nc_stAvail c + free\<rparr>
         else c)"

definition count_networks :: "string gomap \<Rightarrow> string gomap \<Rightarrow> string list \<Rightarrow> net_counts" where
  "count_networks portGroupType serverNetworks networks =
     foldl (count_network portGroupType serverNetworks) zero_counts networks"

definition set_counts :: "net_counts \<Rightarrow> Pool \<Rightarrow> Pool" where
  "set_counts c pool =
     pool\<lparr>p_Status := (p_Status pool)\<lparr>pst_NetworkAvailable := nc_available c,
       pst_SingleTenantNetworksTotal := nc_stTotal c, pst_SingleTenantNetworksAvailable := nc_stAvail c,
       pst_MultiTenantNetworksTotal := nc_mtTotal c, pst_MultiTenantNetworksAvailable := nc_mtAvail c\<rparr>\<rparr>"

definition pool_dc_id :: "Pool \<Rightarrow> string" where
  "pool_dc_id pool = dc_id (ibm_Datacenter (ps_IBMPoolSpec (p_Spec pool)), ibm_Pod (ps_IBMPoolSpec (p_Spec pool)))"

fun network_pass :: "choices \<Rightarrow> cache \<Rightarrow> string gomap gomap \<Rightarrow> Pool gomap \<Rightarrow> Pool gomap option" where
  "network_pass os ca networksInUse [] = Some []"
| "network_pass os ca networksInUse ((poolName, pool) # rest) =
     do { poolNetworks \<leftarrow> getNetworksForPool (sub 0 os) ca pool;
          let c = count_networks (port_group_types (sub 1 os) poolNetworks)
                    (gget_default [] networksInUse (pool_dc_id pool)) (tp_Networks (p_Topology pool));
          out \<leftarrow> network_pass (sub 2 os) ca networksInUse rest;
          Some ((poolName, set_counts c pool) # out) }"

section \<open>The whole function\<close>

definition put_pools :: "Pool gomap \<Rightarrow> Pool gomap \<Rightarrow> Pool gomap" where
  "put_pools kps m = foldl (\<lambda>m (k, p). gset k p m) m kps"

text \<open>With the key of each pool, so that a caller can tell which result is the pool it holds itself.\<close>

definition pool_states :: "choices \<Rightarrow> cache \<Rightarrow> (Pool gomap \<times> cache) option" where
  "pool_states os ca =
     (let (out, networksInUse) = usage_pass (sub 0 os) ca (range_map (sub 1 os) (ca_pools ca)) [] in
      do { out \<leftarrow> network_pass (sub 2 os) ca networksInUse out;
           Some (out, ca\<lparr>ca_pools := put_pools out (ca_pools ca)\<rparr>) })"

definition reconcilePoolStates :: "choices \<Rightarrow> cache \<Rightarrow> (Pool list \<times> cache) option" where
  "reconcilePoolStates os ca = map_option (\<lambda>(out, ca'). (map snd out, ca')) (pool_states os ca)"

section \<open>Accounting of CPUs and memory\<close>

definition users :: "cache \<Rightarrow> Pool \<Rightarrow> Lease list" where
  "users ca pool = filter (uses_pool pool) (map snd (ca_leases ca))"

definition used_cpus :: "cache \<Rightarrow> Pool \<Rightarrow> int" where
  "used_cpus ca pool = sum_list (map (\<lambda>l. ls_VCpus (l_Spec l)) (users ca pool))"

definition used_memory :: "cache \<Rightarrow> Pool \<Rightarrow> int" where
  "used_memory ca pool = sum_list (map (\<lambda>l. ls_Memory (l_Spec l)) (users ca pool))"

text \<open>The state \<open>p'\<close> of the pool \<open>p\<close> accounts for all cached leases that own it, and changes nothing but the status.\<close>

definition accounted :: "cache \<Rightarrow> Pool \<Rightarrow> Pool \<Rightarrow> bool" where
  "accounted ca p p' \<longleftrightarrow> p_Meta p' = p_Meta p \<and> p_Spec p' = p_Spec p \<and> p_Kind p' = p_Kind p \<and>
     p_APIVersion p' = p_APIVersion p \<and>
     pst_VCpusAvailable (p_Status p') = wrap64 (cpu_capacity p - used_cpus ca p) \<and>
     pst_MemoryAvailable (p_Status p') = wrap64 (ps_Memory (p_Spec p) - used_memory ca p) \<and>
     pst_LeaseCount (p_Status p') = int (length (users ca p))"

lemma usage_loop_sums:
  assumes "int64 v" "int64 m"
  shows "\<exists>iu'. usage_loop os ca pool ls (v, m, c, iu) =
    (wrap64 (v + sum_list (map (\<lambda>l. ls_VCpus (l_Spec l)) (filter (uses_pool pool) ls))),
     wrap64 (m + sum_list (map (\<lambda>l. ls_Memory (l_Spec l)) (filter (uses_pool pool) ls))),
     c + int (length (filter (uses_pool pool) ls)), iu')"
  using assms
proof (induction ls arbitrary: os v m c iu)
  case Nil
  then show ?case by (simp add: wrap64_id)
next
  case (Cons l ls)
  show ?case
  proof (cases "uses_pool pool l")
    case True
    with Cons.IH [of "wrap64 (v + ls_VCpus (l_Spec l))" "wrap64 (m + ls_Memory (l_Spec l))" "sub 1 os" "c + 1"
        "use_networks (sub 0 os) ca l iu"]
    show ?thesis by (simp add: wrap64_wrap64_add add.assoc)
  next
    case False
    with Cons show ?thesis by simp
  qed
qed

lemma users_mset: "mset xs = mset ys \<Longrightarrow>
    sum_list (map f (filter P xs)) = (sum_list (map f (filter P ys)) :: int) \<and>
    length (filter P xs) = length (filter P ys)"
  by (metis mset_filter mset_map size_mset sum_mset_sum_list)

lemma usage_pass_accounted:
  assumes "choices_ok os" "cache_ok ca"
  shows "list_all2 (\<lambda>(k, p) (k', p'). k' = k \<and> accounted ca p p') kps (fst (usage_pass os ca kps iu))"
  using assms(1)
proof (induction kps arbitrary: os iu)
  case (Cons kp kps)
  obtain k p where kp: "kp = (k, p)" by (cases kp)
  let ?ls = "range_vals (sub 1 os) (ca_leases ca)"
  have ms: "mset ?ls = mset (map snd (ca_leases ca))"
    using mset_range_vals [of "sub 1 os" "ca_leases ca"] Cons.prems assms(2) by (simp add: cache_ok_def)
  have zero: "int64 0" by (simp add: int64_def)
  obtain iu' where u: "usage_loop (sub 0 os) ca p ?ls (0, 0, 0, iu) =
      (wrap64 (used_cpus ca p), wrap64 (used_memory ca p), int (length (users ca p)), iu')"
    using usage_loop_sums [OF zero zero, of "sub 0 os" ca p ?ls 0 iu] users_mset [OF ms, where P = "uses_pool p"]
    by (auto simp: used_cpus_def used_memory_def users_def)
  have "accounted ca p (set_usage p (wrap64 (used_cpus ca p)) (wrap64 (used_memory ca p)) (int (length (users ca p))))"
    by (simp add: accounted_def set_usage_def wrap64_wrap64_diff)
  moreover have "usage_pass os ca (kp # kps) iu = (case usage_pass (sub 2 os) ca kps iu' of (out, inUse) \<Rightarrow>
      ((k, set_usage p (wrap64 (used_cpus ca p)) (wrap64 (used_memory ca p)) (int (length (users ca p)))) # out, inUse))"
    using u by (simp add: kp)
  ultimately show ?case using Cons.IH [of "sub 2 os" iu'] Cons.prems by (simp add: kp split_beta)
qed simp

lemma accounted_set_counts: "accounted ca p p' \<Longrightarrow> accounted ca p (set_counts c p')"
  by (simp add: accounted_def set_counts_def)

lemma network_pass_accounted:
  assumes "list_all2 (\<lambda>(k, p) (k', p'). k' = k \<and> accounted ca0 p p') kps kps'"
    and "network_pass os ca iu kps' = Some out"
  shows "list_all2 (\<lambda>(k, p) (k', p'). k' = k \<and> accounted ca0 p p') kps out"
  using assms
proof (induction kps' arbitrary: kps os out rule: list.induct)
  case (Cons kp' kps')
  obtain k' p' where kp': "kp' = (k', p')" by (cases kp')
  obtain kp rest where kps: "kps = kp # rest" using Cons.prems(1) by (cases kps) simp_all
  obtain k p where kp: "kp = (k, p)" by (cases kp)
  from Cons.prems(2) obtain c out' where out: "out = (k', set_counts c p') # out'"
      "network_pass (sub 2 os) ca iu kps' = Some out'"
    by (auto simp: kp' Let_def split: Option.bind_splits)
  from Cons.IH [OF _ out(2), of rest] Cons.prems(1) kps kp kp' out(1) accounted_set_counts show ?case by auto
qed simp

lemma put_pools_get:
  "gomap_ok out \<Longrightarrow> gget (put_pools out m) k = (case gget out k of None \<Rightarrow> gget m k | Some p \<Rightarrow> Some p)"
proof (induction out arbitrary: m)
  case (Cons kp out)
  obtain k' p where kp: "kp = (k', p)" by (cases kp)
  then have "gget out k' = None" "gomap_ok out" using Cons.prems by (auto simp: gomap_ok_def map_of_eq_None_iff)
  with Cons.IH [of "gset k' p m"] show ?case by (auto simp: put_pools_def kp split: option.splits)
qed (simp add: put_pools_def)

lemma list_all2_keys:
  "list_all2 (\<lambda>(k, p) (k', p'). k' = k \<and> R p p') xs ys \<Longrightarrow> map fst ys = map fst xs"
  by (induction rule: list_all2_induct) auto

lemma list_all2_gget:
  "list_all2 (\<lambda>(k, p) (k', p'). k' = k \<and> R p p') xs ys \<Longrightarrow> rel_option R (gget xs k) (gget ys k)"
  by (induction rule: list_all2_induct) auto

lemma gget_range_map: "choices_ok os \<Longrightarrow> gomap_ok m \<Longrightarrow> gget (range_map os m) k = gget m k"
proof -
  assume ok: "choices_ok os" "gomap_ok m"
  have "gomap_ok (range_map os m)"
    using mset_range_map [OF ok] ok(2) unfolding gomap_ok_def by (metis mset_eq_imp_distinct_iff mset_map)
  with ok show ?thesis
    by (metis gomap_in_set_iff not_None_eq set_range_map)
qed

lemma gomap_ok_range_map: "choices_ok os \<Longrightarrow> gomap_ok m \<Longrightarrow> gomap_ok (range_map os m)"
  using mset_range_map [of os m] unfolding gomap_ok_def by (metis mset_eq_imp_distinct_iff mset_map)

lemma put_pools_ok: "gomap_ok m \<Longrightarrow> gomap_ok (put_pools kps m)"
  unfolding put_pools_def by (induction kps arbitrary: m) (auto split: prod.splits)

lemma pool_states_accounted:
  assumes "choices_ok os" "cache_ok ca" "pool_states os ca = Some (out, ca')"
  shows "ca_leases ca' = ca_leases ca \<and> ca_networks ca' = ca_networks ca \<and> cache_ok ca' \<and> gomap_ok out \<and>
    (\<forall>k. rel_option (accounted ca) (gget (ca_pools ca) k) (gget (ca_pools ca') k)) \<and>
    (\<forall>k. gget (ca_pools ca') k = gget out k)"
proof -
  let ?kps = "range_map (sub 1 os) (ca_pools ca)"
  obtain kps' iu where up: "usage_pass (sub 0 os) ca ?kps [] = (kps', iu)" by (cases "usage_pass (sub 0 os) ca ?kps []")
  with assms(3) have out: "network_pass (sub 2 os) ca iu kps' = Some out" "ca' = ca\<lparr>ca_pools := put_pools out (ca_pools ca)\<rparr>"
    by (auto simp: pool_states_def simp del: One_nat_def split: Option.bind_splits)
  have ok: "choices_ok (sub 0 os)" "choices_ok (sub 1 os)" "gomap_ok (ca_pools ca)"
    using assms(1,2) by (simp_all add: cache_ok_def)
  have all: "list_all2 (\<lambda>(k, p) (k', p'). k' = k \<and> accounted ca p p') ?kps out"
    using network_pass_accounted [OF _ out(1)] usage_pass_accounted [OF ok(1) assms(2), of ?kps "[]"] up by simp
  have okout: "gomap_ok out"
    using list_all2_keys [OF all] gomap_ok_range_map [OF ok(2,3)] by (simp add: gomap_ok_def)
  have rel: "rel_option (accounted ca) (gget (ca_pools ca) k) (gget out k)" for k
    using list_all2_gget [OF all, of k] unfolding gget_range_map [OF ok(2,3)] .
  have get: "gget (ca_pools ca') k = gget out k" for k
    using put_pools_get [OF okout] rel [of k] out(2) by (auto split: option.splits)
  have "cache_ok ca'" using assms(2) put_pools_ok out(2) by (simp add: cache_ok_def)
  with rel get okout out(2) show ?thesis by simp
qed

lemma reconcilePoolStates_states:
  assumes "reconcilePoolStates os ca = Some (ps, ca')"
  obtains out where "pool_states os ca = Some (out, ca')" "ps = map snd out"
  using assms by (auto simp: reconcilePoolStates_def)

lemma reconcilePoolStates_accounted:
  assumes "choices_ok os" "cache_ok ca" "reconcilePoolStates os ca = Some (ps, ca')"
  shows "ca_leases ca' = ca_leases ca \<and> ca_networks ca' = ca_networks ca \<and> cache_ok ca' \<and>
    (\<forall>k. rel_option (accounted ca) (gget (ca_pools ca) k) (gget (ca_pools ca') k)) \<and>
    set ps = {p. \<exists>k. gget (ca_pools ca') k = Some p}"
proof -
  obtain out where out: "pool_states os ca = Some (out, ca')" "ps = map snd out"
    by (rule reconcilePoolStates_states [OF assms(3)])
  note acc = pool_states_accounted [OF assms(1,2) out(1)]
  have "set ps = {p. \<exists>k. gget (ca_pools ca') k = Some p}"
    using acc gomap_in_set_iff [of out] unfolding out(2) by force
  with acc show ?thesis by blast
qed

section \<open>Counting networks\<close>

definition counted :: "Pool \<Rightarrow> bool" where
  "counted p \<longleftrightarrow>
     0 \<le> pst_SingleTenantNetworksAvailable (p_Status p) \<and>
     pst_SingleTenantNetworksAvailable (p_Status p) \<le> pst_SingleTenantNetworksTotal (p_Status p) \<and>
     0 \<le> pst_MultiTenantNetworksAvailable (p_Status p) \<and>
     pst_MultiTenantNetworksAvailable (p_Status p) \<le> pst_MultiTenantNetworksTotal (p_Status p) \<and>
     pst_SingleTenantNetworksTotal (p_Status p) + pst_MultiTenantNetworksTotal (p_Status p)
       \<le> int (length (tp_Networks (p_Topology p))) \<and>
     pst_SingleTenantNetworksAvailable (p_Status p) + pst_MultiTenantNetworksAvailable (p_Status p)
       \<le> pst_NetworkAvailable (p_Status p) \<and>
     pst_NetworkAvailable (p_Status p) \<le> int (length (tp_Networks (p_Topology p)))"

definition net_type :: "string gomap \<Rightarrow> string \<Rightarrow> string" where
  "net_type types network = gget_default NetworkTypeSingleTenant types (path_base network)"

abbreviation "free_in used network \<equiv> gget used (path_base network) = None"

lemma count_networks_exact:
  "count_networks types used ns =
     \<lparr>nc_available = int (length (filter (free_in used) ns)),
      nc_stTotal = int (length (filter (\<lambda>n. net_type types n = NetworkTypeSingleTenant) ns)),
      nc_stAvail = int (length (filter (\<lambda>n. net_type types n = NetworkTypeSingleTenant \<and> free_in used n) ns)),
      nc_mtTotal = int (length (filter (\<lambda>n. net_type types n = NetworkTypeMultiTenant) ns)),
      nc_mtAvail = int (length (filter (\<lambda>n. net_type types n = NetworkTypeMultiTenant \<and> free_in used n) ns))\<rparr>"
  unfolding count_networks_def
  by (induction ns rule: rev_induct) (simp_all add: count_network_def zero_counts_def net_type_def Let_def)

lemma length_filter_disjoint:
  "(\<And>x. \<not> (P x \<and> Q x)) \<Longrightarrow> (\<And>x. P x \<or> Q x \<Longrightarrow> R x) \<Longrightarrow>
   length (filter P xs) + length (filter Q xs) \<le> length (filter R xs)"
  by (induction xs) auto

lemma length_filter_mono: "(\<And>x. P x \<Longrightarrow> Q x) \<Longrightarrow> length (filter P xs) \<le> length (filter Q xs)"
  by (induction xs) auto

lemma counted_set_counts: "counted (set_counts (count_networks types used (tp_Networks (p_Topology p))) p)"
proof -
  let ?ns = "tp_Networks (p_Topology p)"
  let ?st = "\<lambda>n. net_type types n = NetworkTypeSingleTenant" and ?mt = "\<lambda>n. net_type types n = NetworkTypeMultiTenant"
  have "length (filter ?st ?ns) + length (filter ?mt ?ns) \<le> length (filter (\<lambda>_. True) ?ns)"
    by (rule length_filter_disjoint) auto
  moreover have "length (filter (\<lambda>n. ?st n \<and> free_in used n) ?ns) + length (filter (\<lambda>n. ?mt n \<and> free_in used n) ?ns)
      \<le> length (filter (free_in used) ?ns)"
    by (rule length_filter_disjoint) auto
  moreover have "length (filter (\<lambda>n. ?st n \<and> free_in used n) ?ns) \<le> length (filter ?st ?ns)"
    by (rule length_filter_mono) simp
  moreover have "length (filter (\<lambda>n. ?mt n \<and> free_in used n) ?ns) \<le> length (filter ?mt ?ns)"
    by (rule length_filter_mono) simp
  moreover have "length (filter (free_in used) ?ns) \<le> length ?ns" by simp
  ultimately show ?thesis
    unfolding counted_def set_counts_def count_networks_exact
    by (simp del: length_filter_le flip: of_nat_add)
qed

lemma network_pass_counted:
  "network_pass os ca iu kps = Some out \<Longrightarrow> p \<in> snd ` set out \<Longrightarrow> counted p"
proof (induction kps arbitrary: os out)
  case (Cons kp kps)
  obtain k q where kp: "kp = (k, q)" by (cases kp)
  with Cons.prems(1) obtain m out' where out: "network_pass (sub 2 os) ca iu kps = Some out'"
      "out = (k, set_counts (count_networks (port_group_types (sub 1 os) m) (gget_default [] iu (pool_dc_id q))
        (tp_Networks (p_Topology q))) q) # out'"
    by (auto simp: Let_def split: Option.bind_splits)
  with Cons.IH [OF out(1)] Cons.prems(2) counted_set_counts show ?case by auto
qed simp

lemma network_pass_total:
  assumes "choices_ok os" "inventory_ok ca"
  shows "network_pass os ca iu kps \<noteq> None"
  using assms(1)
proof (induction kps arbitrary: os)
  case (Cons kp kps)
  obtain k p where kp: "kp = (k, p)" by (cases kp)
  obtain m where "getNetworksForPool (sub 0 os) ca p = Some m"
    using pn.view_total [OF _ assms(2), of "sub 0 os" p] Cons.prems by auto
  with Cons.IH [of "sub 2 os"] Cons.prems show ?case by (auto simp: kp Let_def)
qed simp

lemma reconcilePoolStates_total:
  assumes "choices_ok os" "inventory_ok ca"
  shows "reconcilePoolStates os ca \<noteq> None"
proof -
  obtain kps iu where up: "usage_pass (sub 0 os) ca (range_map (sub 1 os) (ca_pools ca)) [] = (kps, iu)" by fastforce
  have "choices_ok (sub 2 os)" using assms(1) by simp
  from network_pass_total [OF this assms(2)] obtain out where "network_pass (sub 2 os) ca iu kps = Some out" by blast
  with up show ?thesis by (simp add: reconcilePoolStates_def pool_states_def del: One_nat_def)
qed

section \<open>Properties\<close>

text \<open>
  C13: On a good inventory \<open>reconcilePoolStates\<close> does not panic, and whatever the order in which Go
  visits the maps, the cached pools afterwards account for exactly the cached leases that own them:
  free CPUs are the over-committed capacity less the CPUs of those leases, free memory and lease count
  likewise (in 64-bit arithmetic), and nothing but the status of a pool changes.
\<close>

theorem reconcilePoolStates_correct:
  assumes "choices_ok os" "inventory_ok ca"
  shows "\<exists>ps ca'. reconcilePoolStates os ca = Some (ps, ca') \<and>
    ca_leases ca' = ca_leases ca \<and> ca_networks ca' = ca_networks ca \<and>
    (\<forall>k. rel_option (accounted ca) (gget (ca_pools ca) k) (gget (ca_pools ca') k)) \<and>
    set ps = {p. \<exists>k. gget (ca_pools ca') k = Some p}"
proof -
  from reconcilePoolStates_total [OF assms] obtain r where "reconcilePoolStates os ca = Some r" by auto
  moreover obtain ps ca' where "r = (ps, ca')" by (cases r)
  ultimately show ?thesis
    using reconcilePoolStates_accounted [OF assms(1) inventory_cache_ok [OF assms(2)]] by blast
qed

text \<open>
  C36: The network counters of every pool that \<open>reconcilePoolStates\<close> returns are consistent: free networks
  of each type are not negative and at most all networks of that type, the two types together are at
  most the networks of the pool, and so are the free ones.
\<close>

theorem reconcilePoolStates_counts:
  assumes "reconcilePoolStates os ca = Some (ps, ca')" "p \<in> set ps"
  shows "counted p"
proof -
  from assms obtain iu kps out where "network_pass (sub 2 os) ca iu kps = Some out" "p \<in> snd ` set out"
    by (auto simp: reconcilePoolStates_def pool_states_def split: prod.splits Option.bind_splits)
  then show ?thesis by (rule network_pass_counted)
qed

section \<open>Witnesses\<close>

theorem reconcilePoolStates_correct_witness:
  "\<exists>ps ca'. reconcilePoolStates std_choices view_cache = Some (ps, ca') \<and>
     map_option (\<lambda>p. pst_LeaseCount (p_Status p)) (gget (ca_pools ca') ''ns/p1'') = Some 1"
proof -
  obtain ps ca' where r: "reconcilePoolStates std_choices view_cache = Some (ps, ca')"
      "\<forall>k. rel_option (accounted view_cache) (gget (ca_pools view_cache) k) (gget (ca_pools ca') k)"
    using reconcilePoolStates_correct [OF std_choices_ok view_inventory] by blast
  have "gget (ca_pools view_cache) ''ns/p1'' = Some view_pool" by (simp add: view_cache_def)
  with r(2) obtain p' where p': "gget (ca_pools ca') ''ns/p1'' = Some p'" "accounted view_cache view_pool p'"
    by (metis option_rel_Some1)
  have "length (users view_cache view_pool) = 1"
    by (simp add: users_def uses_pool_def view_defs)
  with p' r(1) show ?thesis by (auto simp: accounted_def)
qed

theorem reconcilePoolStates_counts_witness:
  "\<exists>ps ca'. reconcilePoolStates std_choices view_cache = Some (ps, ca') \<and> ps \<noteq> [] \<and> counted (hd ps)"
proof -
  obtain ps ca' where r: "reconcilePoolStates std_choices view_cache = Some (ps, ca')"
    using reconcilePoolStates_total [OF std_choices_ok view_inventory] by auto
  have rel: "\<forall>k. rel_option (accounted view_cache) (gget (ca_pools view_cache) k) (gget (ca_pools ca') k)"
    and ps: "set ps = {p. \<exists>k. gget (ca_pools ca') k = Some p}"
    using reconcilePoolStates_accounted [OF std_choices_ok inventory_cache_ok [OF view_inventory] r] by simp_all
  have "gget (ca_pools view_cache) ''ns/p1'' = Some view_pool" by (simp add: view_cache_def)
  then have "rel_option (accounted view_cache) (Some view_pool) (gget (ca_pools ca') ''ns/p1'')"
    using spec [OF rel, of "''ns/p1''"] by (simp only:)
  then obtain p' where "gget (ca_pools ca') ''ns/p1'' = Some p'" by (auto simp: option_rel_Some1)
  then have "p' \<in> set ps" unfolding ps by blast
  then have "ps \<noteq> []" by auto
  then have "hd ps \<in> set ps" by simp
  with reconcilePoolStates_counts [OF r] r \<open>ps \<noteq> []\<close> show ?thesis by blast
qed

end
