(* ===== verification/PoolFit.thy ===== *)
theory PoolFit
  imports PoolMatch GoFloat
begin

text \<open>
  Choosing a pool (\<^verbatim>\<open>pkg/utils/pools.go\<close>, second half): \<open>GetFittingPools\<close> splits the pools into
  those that fit and those that do not, with the reason, and sorts the first by free capacity;
  \<open>GetPoolWithStrategy\<close> takes one and records it as an owner of the lease.
\<close>

section \<open>The operations\<close>

abbreviation "PoolNotSchedulable \<equiv> ''Pool not schedulable''"
abbreviation "PoolExcludedReason \<equiv> ''Pool marked as excluded''"
abbreviation "PoolNotMatchRequired \<equiv> ''Pool does not match required''"
abbreviation "PoolInsufficientVCPU \<equiv> ''Insufficient VCPU''"
abbreviation "PoolInsufficientMemory \<equiv> ''Insufficient memory''"
abbreviation "PoolLabelMismatch \<equiv> ''Pool labels do not match poolSelector''"
abbreviation "PoolTaintNotTolerated \<equiv> ''Pool has taints not tolerated by lease''"
abbreviation "PoolVCenterLimitReached \<equiv> ''Pool vCenter limit reached''"
abbreviation "PoolVCenterDiversityRequired \<equiv> ''Pool vCenter diversity required''"

record PoolFittingInfo =
  pfi_Pool :: Pool
  pfi_MatchResults :: string

definition owns_pool :: "Lease \<Rightarrow> Pool \<Rightarrow> bool" where
  "owns_pool lease pool \<longleftrightarrow>
     list_ex (\<lambda>ref. or_Kind ref = ''Pool'' \<and> or_Name ref = p_Name pool) (l_OwnerReferences lease)"

text \<open>
  The body of the loop of \<open>GetFittingPools\<close>: \<open>None\<close> when the pool is appended to the fitting pools,
  the reason otherwise. The two sets of vCenters are Go maps, empty when the caller passes nil.
\<close>

definition fit_result :: "Lease \<Rightarrow> bool gomap \<Rightarrow> bool gomap \<Rightarrow> Pool \<Rightarrow> string option" where
  "fit_result lease excludedVCenters diversityVCenters pool =
     (if owns_pool lease pool then Some ''Pool already assigned to lease''
      else if ps_NoSchedule (p_Spec pool) then Some PoolNotSchedulable
      else if \<not> name_match lease pool \<and> ps_Exclude (p_Spec pool) then Some PoolExcludedReason
      else if ls_RequiredPool (l_Spec lease) \<noteq> [] \<and> \<not> name_match lease pool then Some PoolNotMatchRequired
      else if \<not> PoolMatchesSelector lease pool then Some PoolLabelMismatch
      else if \<not> LeaseToleratesPoolTaints lease pool then Some PoolTaintNotTolerated
      else if excludedVCenters \<noteq> [] \<and> gget_default False excludedVCenters (p_Server pool) then
        Some PoolVCenterLimitReached
      else if diversityVCenters \<noteq> [] \<and> gget_default False diversityVCenters (p_Server pool) then
        Some PoolVCenterDiversityRequired
      else if pst_VCpusAvailable (p_Status pool) \<ge> ls_VCpus (l_Spec lease) \<and>
              pst_MemoryAvailable (p_Status pool) \<ge> ls_Memory (l_Spec lease) then None
      else if pst_VCpusAvailable (p_Status pool) < ls_VCpus (l_Spec lease) then Some PoolInsufficientVCPU
      else if pst_MemoryAvailable (p_Status pool) < ls_Memory (l_Spec lease) then Some PoolInsufficientMemory
      else Some (''['' @ PoolInsufficientVCPU @ '', '' @ PoolInsufficientMemory @ '']''))"

fun fitting_loop :: "(Pool \<Rightarrow> string option) \<Rightarrow> Pool list \<Rightarrow> Pool list \<times> PoolFittingInfo list" where
  "fitting_loop f [] = ([], [])"
| "fitting_loop f (pool # pools) =
     (case fitting_loop f pools of (fitting, results) \<Rightarrow>
        (case f pool of
           None \<Rightarrow> (pool # fitting, results)
         | Some reason \<Rightarrow> (fitting, \<lparr>pfi_Pool = pool, pfi_MatchResults = reason\<rparr> # results)))"

definition pool_score :: "Pool \<Rightarrow> gofloat" where
  "pool_score pool =
     f64_add
       (f64_div (f64_of_int (pst_VCpusAvailable (p_Status pool))) (f64_of_int (ps_VCpus (p_Spec pool))))
       (f64_div (f64_of_int (pst_MemoryAvailable (p_Status pool))) (f64_of_int (ps_Memory (p_Spec pool))))"

definition GetFittingPools ::
  "choices \<Rightarrow> Lease \<Rightarrow> Pool list \<Rightarrow> bool gomap \<Rightarrow> bool gomap \<Rightarrow> Pool list \<times> PoolFittingInfo list" where
  "GetFittingPools os lease pools excludedVCenters diversityVCenters =
     (case fitting_loop (fit_result lease excludedVCenters diversityVCenters) pools of
        (fitting, results) \<Rightarrow>
          (sort_slice os (\<lambda>i j. f64_lt (pool_score j) (pool_score i)) fitting, results))"

definition shuffleFittingPools :: "choices \<Rightarrow> Pool list \<Rightarrow> Pool list" where
  "shuffleFittingPools os pools = shuffle_slice os pools"

definition generatePoolResults :: "PoolFittingInfo list \<Rightarrow> string list" where
  "generatePoolResults results =
     map (\<lambda>r. ''['' @ p_Name (pfi_Pool r) @ '': '' @ pfi_MatchResults r @ '']'') results"

fun join_space :: "string list \<Rightarrow> string" where
  "join_space [] = []"
| "join_space [s] = s"
| "join_space (s # ss) = s @ '' '' @ join_space ss"

definition pool_owner_ref :: "Pool \<Rightarrow> OwnerReference" where
  "pool_owner_ref pool = \<lparr>or_APIVersion = p_APIVersion pool, or_Kind = p_Kind pool,
     or_Name = p_Name pool, or_UID = om_UID (p_Meta pool)\<rparr>"

text \<open>\<open>Inl\<close> is the error; otherwise the pool and the lease with its owner references.\<close>

definition GetPoolWithStrategy ::
  "choices \<Rightarrow> Lease \<Rightarrow> Pool list \<Rightarrow> string \<Rightarrow> bool gomap \<Rightarrow> bool gomap \<Rightarrow> string + (Pool \<times> Lease)" where
  "GetPoolWithStrategy os lease pools strategy excludedVCenters diversityVCenters =
     (case GetFittingPools (sub 0 os) lease pools excludedVCenters diversityVCenters of
        (fittingPools, results) \<Rightarrow>
          (case (if strategy = RESOURCE_ALLOCATION_STRATEGY_RANDOM
                 then shuffleFittingPools (sub 1 os) fittingPools else fittingPools) of
             [] \<Rightarrow> Inl (''no pools available. ['' @ join_space (generatePoolResults results) @ '']'')
           | pool # _ \<Rightarrow>
               Inr (pool,
                 if owns_pool lease pool then lease
                 else set_owner_refs (l_OwnerReferences lease @ [pool_owner_ref pool]) lease)))"

section \<open>Lemmas\<close>

lemma fitting_loop_fst: "fst (fitting_loop f ps) = filter (\<lambda>p. f p = None) ps"
  by (induction ps) (auto split: prod.splits option.splits)

lemma fitting_loop_snd:
  "snd (fitting_loop f ps) =
     map (\<lambda>p. \<lparr>pfi_Pool = p, pfi_MatchResults = the (f p)\<rparr>) (filter (\<lambda>p. f p \<noteq> None) ps)"
  by (induction ps) (auto split: prod.splits option.splits)

lemma GetFittingPools_fst:
  "fst (GetFittingPools os lease ps ex dv) =
     sort_slice os (\<lambda>i j. f64_lt (pool_score j) (pool_score i))
       (filter (\<lambda>p. fit_result lease ex dv p = None) ps)"
  by (simp add: GetFittingPools_def fitting_loop_fst [symmetric] split: prod.splits)

lemma GetFittingPools_snd:
  "snd (GetFittingPools os lease ps ex dv) =
     map (\<lambda>p. \<lparr>pfi_Pool = p, pfi_MatchResults = the (fit_result lease ex dv p)\<rparr>)
       (filter (\<lambda>p. fit_result lease ex dv p \<noteq> None) ps)"
  unfolding fitting_loop_snd [symmetric] by (simp add: GetFittingPools_def split: prod.splits)

text \<open>The conditions under which a pool may be given to a lease.\<close>

definition may_assign :: "Lease \<Rightarrow> bool gomap \<Rightarrow> bool gomap \<Rightarrow> Pool \<Rightarrow> bool" where
  "may_assign lease ex dv pool \<longleftrightarrow>
     poolMatchesStructural lease pool \<and> \<not> owns_pool lease pool \<and>
     \<not> gget_default False ex (p_Server pool) \<and> \<not> gget_default False dv (p_Server pool) \<and>
     ls_VCpus (l_Spec lease) \<le> pst_VCpusAvailable (p_Status pool) \<and>
     ls_Memory (l_Spec lease) \<le> pst_MemoryAvailable (p_Status pool)"

lemma fit_result_None_iff: "fit_result lease ex dv p = None \<longleftrightarrow> may_assign lease ex dv p"
  by (auto simp: fit_result_def may_assign_def poolMatchesStructural_def)

lemma set_fitting:
  "choices_ok os \<Longrightarrow> set (fst (GetFittingPools os lease ps ex dv)) = {p \<in> set ps. may_assign lease ex dv p}"
  by (simp add: GetFittingPools_fst fit_result_None_iff)

lemma f64_lt_irrefl: "\<not> f64_lt x x"
  by (cases x) auto

lemma f64_lt_trans: "f64_lt x y \<Longrightarrow> f64_lt y z \<Longrightarrow> f64_lt x z"
  by (cases x; cases y; cases z) auto

lemma f64_lt_cotrans: "f64_lt x z \<Longrightarrow> y \<noteq> NaN \<Longrightarrow> f64_lt x y \<or> f64_lt y z"
  by (cases x; cases y; cases z) auto

lemma fitting_sorted:
  assumes "choices_ok os" "\<forall>p \<in> set ps. pool_score p \<noteq> NaN"
  shows "sorted_wrt (\<lambda>p q. \<not> f64_lt (pool_score p) (pool_score q)) (fst (GetFittingPools os lease ps ex dv))"
  unfolding GetFittingPools_fst
proof (rule sorted_sort_slice [OF assms(1)])
  fix x y z
  assume "f64_lt (pool_score y) (pool_score x)" "f64_lt (pool_score z) (pool_score y)"
  then show "f64_lt (pool_score z) (pool_score x)" using f64_lt_trans by blast
next
  fix x y z
  assume "y \<in> set (filter (\<lambda>p. fit_result lease ex dv p = None) ps)"
    and lt: "f64_lt (pool_score z) (pool_score x)"
  then have "pool_score y \<noteq> NaN" using assms(2) by simp
  with lt show "f64_lt (pool_score y) (pool_score x) \<or> f64_lt (pool_score z) (pool_score y)"
    using f64_lt_cotrans by blast
qed (simp add: f64_lt_irrefl)

lemma strategy_fitting_set:
  assumes "choices_ok os" "fst (GetFittingPools (sub 0 os) lease ps ex dv) = fp"
  shows "set (if s = RESOURCE_ALLOCATION_STRATEGY_RANDOM then shuffleFittingPools (sub 1 os) fp else fp)
    = {p \<in> set ps. may_assign lease ex dv p}"
  using assms set_fitting [of "sub 0 os" lease ps ex dv] by (auto simp: shuffleFittingPools_def)

lemma GetPoolWithStrategy_Inr:
  assumes "choices_ok os" "GetPoolWithStrategy os lease ps s ex dv = Inr (pool, lease')"
  shows "pool \<in> set ps \<and> may_assign lease ex dv pool \<and>
    lease' = set_owner_refs (l_OwnerReferences lease @ [pool_owner_ref pool]) lease"
proof -
  let ?fp = "fst (GetFittingPools (sub 0 os) lease ps ex dv)"
  let ?cand = "if s = RESOURCE_ALLOCATION_STRATEGY_RANDOM then shuffleFittingPools (sub 1 os) ?fp else ?fp"
  obtain rest where "?cand = pool # rest"
    using assms(2) by (auto simp: GetPoolWithStrategy_def split: prod.splits list.splits if_splits)
  then have "pool \<in> set ?cand" by (simp only: list.set_intros(1))
  then have mem: "pool \<in> set ps \<and> may_assign lease ex dv pool"
    by (simp only: strategy_fitting_set [OF assms(1) refl] mem_Collect_eq)
  then have "\<not> owns_pool lease pool" by (simp add: may_assign_def)
  with mem assms(2) show ?thesis
    by (auto simp: GetPoolWithStrategy_def split: prod.splits list.splits if_splits)
qed

lemma GetPoolWithStrategy_Inl_iff:
  assumes "choices_ok os"
  shows "(\<exists>e. GetPoolWithStrategy os lease ps s ex dv = Inl e) \<longleftrightarrow> (\<forall>p \<in> set ps. \<not> may_assign lease ex dv p)"
proof -
  let ?fp = "fst (GetFittingPools (sub 0 os) lease ps ex dv)"
  let ?cand = "if s = RESOURCE_ALLOCATION_STRATEGY_RANDOM then shuffleFittingPools (sub 1 os) ?fp else ?fp"
  have "(\<exists>e. GetPoolWithStrategy os lease ps s ex dv = Inl e) \<longleftrightarrow> ?cand = []"
    by (auto simp: GetPoolWithStrategy_def split: prod.splits list.splits)
  also have "\<dots> \<longleftrightarrow> set ?cand = {}" by simp
  also have "\<dots> \<longleftrightarrow> (\<forall>p \<in> set ps. \<not> may_assign lease ex dv p)"
    unfolding strategy_fitting_set [OF assms refl] by auto
  finally show ?thesis .
qed

text \<open>Capacities whose ratios are finite: positive totals, and all values below \<open>2 ^ 53\<close>.\<close>

definition capacity_ok :: "Pool \<Rightarrow> bool" where
  "capacity_ok p \<longleftrightarrow>
     0 < ps_VCpus (p_Spec p) \<and> ps_VCpus (p_Spec p) < 2 ^ 53 \<and>
     0 < ps_Memory (p_Spec p) \<and> ps_Memory (p_Spec p) < 2 ^ 53 \<and>
     \<bar>pst_VCpusAvailable (p_Status p)\<bar> < 2 ^ 53 \<and> \<bar>pst_MemoryAvailable (p_Status p)\<bar> < 2 ^ 53"

lemma pool_score_finite: "capacity_ok p \<Longrightarrow> \<exists>r. pool_score p = Fin r"
  unfolding capacity_ok_def pool_score_def
  using f64_ratio_finite f64_add_finite by (metis (no_types))

section \<open>Properties\<close>

text \<open>
  C19: \<open>GetFittingPools\<close> splits the pools it is given without losing or repeating any: the first result
  holds exactly the pools that may be assigned (a structural match that the lease does not own
  yet, on no excluded vCenter, with enough free vCPUs and memory), and the second holds every
  other pool with the first check it fails.
\<close>

theorem GetFittingPools_correct:
  assumes "choices_ok os"
  shows "mset (fst (GetFittingPools os lease pools ex dv)) = filter_mset (may_assign lease ex dv) (mset pools) \<and>
    map pfi_Pool (snd (GetFittingPools os lease pools ex dv)) = filter (\<lambda>p. \<not> may_assign lease ex dv p) pools \<and>
    (\<forall>info \<in> set (snd (GetFittingPools os lease pools ex dv)).
       fit_result lease ex dv (pfi_Pool info) = Some (pfi_MatchResults info))"
proof (intro conjI)
  show "mset (fst (GetFittingPools os lease pools ex dv)) = filter_mset (may_assign lease ex dv) (mset pools)"
    using assms by (simp add: GetFittingPools_fst fit_result_None_iff)
  show "map pfi_Pool (snd (GetFittingPools os lease pools ex dv)) = filter (\<lambda>p. \<not> may_assign lease ex dv p) pools"
    by (simp add: GetFittingPools_snd o_def fit_result_None_iff [symmetric])
  show "\<forall>info \<in> set (snd (GetFittingPools os lease pools ex dv)).
       fit_result lease ex dv (pfi_Pool info) = Some (pfi_MatchResults info)"
    by (auto simp: GetFittingPools_snd)
qed

text \<open>
  C20: The under-utilised strategy takes a pool that may be assigned and has the largest share of free
  vCPUs and memory among all such pools, and appends exactly one owner reference, to that
  pool, to the lease.
\<close>

theorem GetPoolWithStrategy_underutilized:
  assumes "choices_ok os" "\<forall>p \<in> set pools. capacity_ok p"
    and "GetPoolWithStrategy os lease pools RESOURCE_ALLOCATION_STRATEGY_UNDERUTILIZED ex dv = Inr (pool, lease')"
  shows "pool \<in> set pools \<and> may_assign lease ex dv pool \<and>
    (\<forall>q \<in> set pools. may_assign lease ex dv q \<longrightarrow> \<not> f64_lt (pool_score pool) (pool_score q)) \<and>
    lease' = set_owner_refs (l_OwnerReferences lease @ [pool_owner_ref pool]) lease"
proof -
  let ?fp = "fst (GetFittingPools (sub 0 os) lease pools ex dv)"
  obtain rest where fp: "?fp = pool # rest"
    using assms(3) by (auto simp: GetPoolWithStrategy_def split: prod.splits list.splits if_splits)
  have "sorted_wrt (\<lambda>p q. \<not> f64_lt (pool_score p) (pool_score q)) ?fp"
    using assms(1,2) pool_score_finite by (intro fitting_sorted) fastforce+
  then have "\<not> f64_lt (pool_score pool) (pool_score q)" if "q \<in> set ?fp" for q
    using that fp f64_lt_irrefl by auto
  moreover have "set ?fp = {p \<in> set pools. may_assign lease ex dv p}"
    using assms(1) by (simp add: set_fitting)
  ultimately show ?thesis using GetPoolWithStrategy_Inr [OF assms(1,3)] by auto
qed

text \<open>
  \<open>GetPoolWithStrategy\<close> reports an error exactly when no pool may be assigned; the error never
  hides a pool that would have fitted, whatever the strategy.
\<close>

theorem GetPoolWithStrategy_error_iff:
  assumes "choices_ok os"
  shows "(\<exists>e. GetPoolWithStrategy os lease pools strategy ex dv = Inl e) \<longleftrightarrow>
    (\<forall>p \<in> set pools. \<not> may_assign lease ex dv p)"
  by (rule GetPoolWithStrategy_Inl_iff [OF assms])

text \<open>
  A taint keeps every lease without a matching toleration off its pool whatever its effect:
  \<open>PreferNoSchedule\<close>, which the API documents as a preference, is enforced like \<open>NoSchedule\<close>.
\<close>

theorem untolerated_taint_blocks:
  assumes "taint \<in> set (ps_Taints (p_Spec pool))"
    and "\<forall>tol \<in> set (ls_Tolerations (l_Spec lease)). \<not> tolerationMatchesTaint tol taint"
  shows "fit_result lease ex dv pool \<noteq> None \<and> \<not> poolMatchesStructural lease pool"
proof -
  have "\<not> LeaseToleratesPoolTaints lease pool"
    using assms by (auto simp: LeaseToleratesPoolTaints_def list_all_iff list_ex_iff)
  then show ?thesis
    unfolding fit_result_None_iff may_assign_def by (simp add: poolMatchesStructural_def)
qed

section \<open>Witnesses\<close>

definition fit_pools :: "Pool list" where
  "fit_pools = [mk_pool ''a1'' ''vc-a'' 24 96, (mk_pool ''a2'' ''vc-a'' 16 64)\<lparr>p_Status :=
     zero_pool_status\<lparr>pst_VCpusAvailable := 4, pst_MemoryAvailable := 64\<rparr>\<rparr>]"

definition fit_lease :: Lease where
  "fit_lease = zero_lease\<lparr>l_Meta := zero_meta\<lparr>om_Name := ''lease''\<rparr>,
     l_Spec := zero_lease_spec\<lparr>ls_VCpus := 8, ls_Memory := 32, ls_Pools := 1, ls_Networks := 1\<rparr>\<rparr>"

lemma fit_lease_simps [simp]:
  "ls_VCpus (l_Spec fit_lease) = 8" "ls_Memory (l_Spec fit_lease) = 32"
  "ls_RequiredPool (l_Spec fit_lease) = []" "ls_PoolSelector (l_Spec fit_lease) = []"
  "ls_Tolerations (l_Spec fit_lease) = []" "l_OwnerReferences fit_lease = []"
  by (simp_all add: fit_lease_def zero_defs)

lemmas fit_example_defs = fit_pools_def fit_result_def owns_pool_def name_match_def
  PoolMatchesSelector_def LeaseToleratesPoolTaints_def zero_defs

theorem GetFittingPools_correct_witness:
  "mset (fst (GetFittingPools std_choices fit_lease fit_pools [] [])) = {#mk_pool ''a1'' ''vc-a'' 24 96#}"
proof -
  have "filter (may_assign fit_lease [] []) fit_pools = [mk_pool ''a1'' ''vc-a'' 24 96]"
    unfolding fit_result_None_iff [symmetric] by (simp add: fit_example_defs)
  then show ?thesis
    using GetFittingPools_correct [OF std_choices_ok, of fit_lease fit_pools "[]" "[]"]
    by (metis mset.simps mset_filter)
qed

lemma fit_example_choice:
  "GetPoolWithStrategy std_choices fit_lease fit_pools RESOURCE_ALLOCATION_STRATEGY_UNDERUTILIZED [] [] =
     Inr (mk_pool ''a1'' ''vc-a'' 24 96,
       set_owner_refs [pool_owner_ref (mk_pool ''a1'' ''vc-a'' 24 96)] fit_lease)"
  by (simp add: GetPoolWithStrategy_def GetFittingPools_def fit_example_defs sort_slice_def
      std_choices_def sub_def insertion_sort_def permute_def)

theorem GetPoolWithStrategy_underutilized_witness:
  "may_assign fit_lease [] [] (mk_pool ''a1'' ''vc-a'' 24 96) \<and>
   filter (\<lambda>q. may_assign fit_lease [] [] q \<and>
      f64_lt (pool_score (mk_pool ''a1'' ''vc-a'' 24 96)) (pool_score q)) fit_pools = []"
proof -
  have "\<forall>p \<in> set fit_pools. capacity_ok p"
    by (simp add: capacity_ok_def fit_pools_def zero_defs)
  from GetPoolWithStrategy_underutilized [OF std_choices_ok this fit_example_choice]
  show ?thesis by (simp add: filter_empty_conv)
qed

theorem GetPoolWithStrategy_error_iff_witness:
  "\<exists>e. GetPoolWithStrategy std_choices fit_lease fit_pools RESOURCE_ALLOCATION_STRATEGY_RANDOM
     [(''vc-a'', True)] [] = Inl e"
proof -
  have "\<forall>p \<in> set fit_pools. \<not> may_assign fit_lease [(''vc-a'', True)] [] p"
    by (simp add: fit_pools_def may_assign_def gget_default_def)
  then show ?thesis using GetPoolWithStrategy_error_iff [OF std_choices_ok] by blast
qed

definition prefer_taint :: Taint where
  "prefer_taint = \<lparr>ta_Key = ''workload'', ta_Value = ''gpu'', ta_Effect = TaintEffectPreferNoSchedule\<rparr>"

theorem untolerated_taint_blocks_witness:
  "fit_result fit_lease [] [] (zero_pool\<lparr>p_Spec := zero_pool_spec\<lparr>ps_Taints := [prefer_taint]\<rparr>\<rparr>) \<noteq> None"
proof -
  have "prefer_taint \<in> set (ps_Taints (p_Spec (zero_pool\<lparr>p_Spec := zero_pool_spec\<lparr>ps_Taints := [prefer_taint]\<rparr>\<rparr>)))"
    by simp
  from untolerated_taint_blocks [OF this, of fit_lease] show ?thesis by simp
qed

end
