(* ===== verification/VCenterFilter.thy ===== *)
theory VCenterFilter
  imports PoolFit Satisfiability
begin

text \<open>
  Which vCenters the next pool of a lease must avoid: the three rules of the assignment loop in
  \<open>LeaseReconciler.Reconcile\<close> (cap reached, dynamic filtering, initial selection).
\<close>

section \<open>Cap reached\<close>

definition in_use :: "bool gomap \<Rightarrow> string \<Rightarrow> bool" where
  "in_use vcentersInUse srv = gget_default False vcentersInUse srv"

definition exclude_where :: "(string \<Rightarrow> bool) \<Rightarrow> Pool list \<Rightarrow> bool gomap" where
  "exclude_where bad availablePools =
     foldl (\<lambda>m p. if p_Server p \<noteq> [] \<and> bad (p_Server p) then gset (p_Server p) True m else m) [] availablePools"

definition exclude_cap_reached :: "bool gomap \<Rightarrow> Pool list \<Rightarrow> bool gomap" where
  "exclude_cap_reached vcentersInUse availablePools =
     exclude_where (\<lambda>srv. \<not> in_use vcentersInUse srv) availablePools"

section \<open>Dynamic filtering\<close>

definition fitting_per_vcenter :: "(Pool \<Rightarrow> bool) \<Rightarrow> Pool list \<Rightarrow> int gomap" where
  "fitting_per_vcenter keep fittingPools =
     foldl (\<lambda>m p. if keep p then gset (p_Server p) (gget_default 0 m (p_Server p) + 1) m else m) [] fittingPools"

definition exclude_dynamic :: "choices \<Rightarrow> Lease \<Rightarrow> bool gomap \<Rightarrow> Pool list \<Rightarrow> int \<Rightarrow> int \<Rightarrow> bool gomap" where
  "exclude_dynamic os lease vcentersInUse availablePools remainingPools remainingVCenterSlots =
     (let minPoolsPerVCenter = (remainingPools - 1) div remainingVCenterSlots + 1;
          fittingPools = fst (GetFittingPools os lease availablePools [] []);
          per = fitting_per_vcenter (\<lambda>p. p_Server p \<noteq> [] \<and> \<not> in_use vcentersInUse (p_Server p)) fittingPools
      in exclude_where (\<lambda>srv. \<not> in_use vcentersInUse srv \<and> gget_default 0 per srv < minPoolsPerVCenter)
           availablePools)"

section \<open>Initial selection\<close>

fun min_vcenters_needed :: "int \<Rightarrow> int \<Rightarrow> int \<Rightarrow> (string \<times> int) list \<Rightarrow> int" where
  "min_vcenters_needed requiredPools cumulative needed [] = needed"
| "min_vcenters_needed requiredPools cumulative needed (vc # vcs) =
     (let c = cumulative + snd vc in
      if c \<ge> requiredPools then needed + 1 else min_vcenters_needed requiredPools c (needed + 1) vcs)"

text \<open>The best \<open>othersNeeded\<close> counts at positions other than \<open>idx\<close>; \<open>i\<close> is the position of the head.\<close>

fun best_others :: "nat \<Rightarrow> int \<Rightarrow> nat \<Rightarrow> (string \<times> int) list \<Rightarrow> int" where
  "best_others idx othersNeeded i [] = 0"
| "best_others idx othersNeeded i (vc # vcs) =
     (if othersNeeded \<le> 0 then 0
      else if i \<noteq> idx then snd vc + best_others idx (othersNeeded - 1) (Suc i) vcs
      else best_others idx othersNeeded (Suc i) vcs)"

definition exclude_slack :: "int \<Rightarrow> int \<Rightarrow> int \<Rightarrow> (string \<times> int) list \<Rightarrow> bool gomap" where
  "exclude_slack requiredPools cap minVCentersNeeded vcenterCounts =
     (let ceil = (requiredPools - 1) div cap + 1 in
      foldl (\<lambda>m vc. if snd vc < ceil then gset (fst vc) True m else m) []
        (drop (nat minVCentersNeeded) vcenterCounts))"

definition exclude_no_slack :: "int \<Rightarrow> int \<Rightarrow> (string \<times> int) list \<Rightarrow> bool gomap" where
  "exclude_no_slack requiredPools cap vcenterCounts =
     foldl (\<lambda>m (idx, current).
        if snd current + best_others idx (cap - 1) 0 vcenterCounts < requiredPools
        then gset (fst current) True m else m) [] (enumerate 0 vcenterCounts)"

definition exclude_initial :: "choices \<Rightarrow> Lease \<Rightarrow> Pool list \<Rightarrow> int \<Rightarrow> bool gomap" where
  "exclude_initial os lease availablePools requiredPools =
     (let cap = ls_VCenters (l_Spec lease);
          fittingPools = fst (GetFittingPools (sub 0 os) lease availablePools [] []);
          per = fitting_per_vcenter (\<lambda>p. p_Server p \<noteq> []) fittingPools;
          vcenterCounts = sort_slice (sub 2 os) (\<lambda>i j. snd i > snd j) (range_map (sub 1 os) per);
          numVCentersToUse = min cap (int (length vcenterCounts));
          topVCentersPoolCount = sum_list (map snd (take (nat numVCentersToUse) vcenterCounts))
      in if topVCentersPoolCount < requiredPools then []
         else let minVCentersNeeded = min_vcenters_needed requiredPools 0 0 vcenterCounts in
           if minVCentersNeeded < cap
           then exclude_slack requiredPools cap minVCentersNeeded vcenterCounts
           else exclude_no_slack requiredPools cap vcenterCounts)"

section \<open>The whole filter\<close>

datatype filter_rule = NoRule | CapReached | Dynamic | Initial

text \<open>Which rule the code applies; \<open>NoRule\<close> leaves the set of excluded vCenters nil.\<close>

definition filter_rule_for :: "Lease \<Rightarrow> Pool list \<Rightarrow> int \<Rightarrow> bool \<Rightarrow> filter_rule" where
  "filter_rule_for lease assignedPools requiredPools diversityPending =
     (let cap = ls_VCenters (l_Spec lease);
          used = int (length (GetVCentersInUse assignedPools));
          remainingVCenterSlots = cap - used;
          remainingPools = requiredPools - int (length assignedPools)
      in if cap > 0 then
           (if used \<ge> cap then CapReached
            else if \<not> diversityPending \<and> remainingVCenterSlots > 0 \<and> remainingPools > remainingVCenterSlots
                 then Dynamic
            else if cap < requiredPools \<and> assignedPools = [] then Initial
            else NoRule)
         else NoRule)"

definition excluded_vcenters :: "choices \<Rightarrow> Lease \<Rightarrow> Pool list \<Rightarrow> Pool list \<Rightarrow> int \<Rightarrow> bool \<Rightarrow> bool gomap" where
  "excluded_vcenters os lease availablePools assignedPools requiredPools diversityPending =
     (let vcentersInUse = GetVCentersInUse assignedPools in
      case filter_rule_for lease assignedPools requiredPools diversityPending of
        NoRule \<Rightarrow> []
      | CapReached \<Rightarrow> exclude_cap_reached vcentersInUse availablePools
      | Dynamic \<Rightarrow> exclude_dynamic os lease vcentersInUse availablePools
           (requiredPools - int (length assignedPools))
           (ls_VCenters (l_Spec lease) - int (length vcentersInUse))
      | Initial \<Rightarrow> exclude_initial os lease availablePools requiredPools)"

section \<open>Lemmas\<close>

lemma gset_fold_get:
  "gget_default False (foldl (\<lambda>m x. if P x then gset (k x) True m else m) m xs) s \<longleftrightarrow>
     gget_default False m s \<or> (\<exists>x \<in> set xs. P x \<and> k x = s)"
  by (induction xs arbitrary: m) auto

lemma exclude_where_get:
  "gget_default False (exclude_where bad ps) s \<longleftrightarrow> s \<noteq> [] \<and> bad s \<and> s \<in> p_Server ` set ps"
  by (auto simp: exclude_where_def gset_fold_get)

lemma in_use_iff: "in_use (GetVCentersInUse ps) s \<longleftrightarrow> s \<noteq> [] \<and> s \<in> p_Server ` set ps"
proof -
  have step: "vcenters_step = (\<lambda>m p. if p_Server p \<noteq> [] then gset (p_Server p) True m else m)"
    by (intro ext) (simp add: vcenters_step_def)
  show ?thesis
    unfolding in_use_def GetVCentersInUse_def step gset_fold_get by auto
qed

lemma fitting_per_vcenter_tally: "fitting_per_vcenter keep ps = tally p_Server (filter keep ps)"
proof -
  have "foldl (\<lambda>m p. if keep p then gset (p_Server p) (gget_default 0 m (p_Server p) + 1) m else m) m ps =
      foldl (tally_step p_Server) m (filter keep ps)" for m
    by (induction ps arbitrary: m) (simp_all add: tally_step_def)
  then show ?thesis by (simp add: fitting_per_vcenter_def tally_def)
qed

text \<open>The pools of a list that lie on one vCenter.\<close>

definition pools_on :: "Pool list \<Rightarrow> string \<Rightarrow> int" where
  "pools_on ps s = int (length (filter (\<lambda>p. p_Server p = s) ps))"

lemma exclude_dynamic_get:
  assumes "choices_ok os"
  shows "gget_default False (exclude_dynamic os lease (GetVCentersInUse assigned) ps rem slots) s \<longleftrightarrow>
    s \<noteq> [] \<and> s \<in> p_Server ` set ps \<and> s \<notin> p_Server ` set assigned \<and>
    pools_on (filter (may_assign lease [] []) ps) s < (rem - 1) div slots + 1"
proof -
  let ?fp = "fst (GetFittingPools os lease ps [] [])"
  have "mset ?fp = mset (filter (may_assign lease [] []) ps)"
    using assms by (simp add: GetFittingPools_fst fit_result_None_iff)
  then have "length (filter Q ?fp) = length (filter Q (filter (may_assign lease [] []) ps))" for Q
    by (metis mset_filter size_mset)
  then have "gget_default 0 (fitting_per_vcenter
        (\<lambda>p. p_Server p \<noteq> [] \<and> \<not> in_use (GetVCentersInUse assigned) (p_Server p)) ?fp) s =
      pools_on (filter (may_assign lease [] []) ps) s"
    if "s \<noteq> []" "s \<notin> p_Server ` set assigned"
    using that unfolding fitting_per_vcenter_tally tally_get filter_filter pools_on_def
    by (simp add: in_use_iff conj_ac cong: conj_cong)
  then show ?thesis
    by (auto simp: exclude_dynamic_def Let_def exclude_where_get in_use_iff)
qed

lemma best_others_skip:
  "i > idx \<Longrightarrow> best_others idx n i vcs = sum_list (take (nat n) (map snd vcs))"
  by (induction vcs arbitrary: n i) (auto simp: take_Cons' nat_diff_distrib)

lemma best_others_eq:
  "i \<le> idx \<Longrightarrow> best_others idx n i vcs =
     sum_list (take (nat n) (map snd (take (idx - i) vcs @ drop (Suc (idx - i)) vcs)))"
proof (induction vcs arbitrary: n i)
  case (Cons vc vcs)
  show ?case
  proof (cases "i = idx")
    case True
    then show ?thesis by (simp add: best_others_skip)
  next
    case False
    with Cons.prems have "idx - i = Suc (idx - Suc i)" by simp
    with False Cons show ?thesis by (simp add: take_Cons' nat_diff_distrib)
  qed
qed simp

text \<open>The counts of a descending list of vCenters as a function, and what they add up to.\<close>

definition vc_counts_ok :: "(string \<times> int) list \<Rightarrow> bool" where
  "vc_counts_ok vcs \<longleftrightarrow> gomap_ok vcs \<and> sorted_wrt (\<lambda>a b. snd b \<le> snd a) vcs \<and> (\<forall>vc \<in> set vcs. 0 \<le> snd vc)"

abbreviation count_of :: "(string \<times> int) list \<Rightarrow> string \<Rightarrow> int" where
  "count_of vcs v \<equiv> gget_default 0 vcs v"

lemma count_of_mem: "gomap_ok vcs \<Longrightarrow> vc \<in> set vcs \<Longrightarrow> count_of vcs (fst vc) = snd vc"
  using gomap_in_set_iff [of vcs "fst vc" "snd vc"] by (simp add: gget_default_def)

lemma map_count_of: "gomap_ok vcs \<Longrightarrow> set xs \<subseteq> set vcs \<Longrightarrow> map snd xs = map (count_of vcs) (map fst xs)"
  by (auto simp: count_of_mem subset_eq intro!: map_cong)

lemma no_slack_get:
  assumes "gomap_ok vcs" "idx < length vcs"
  shows "gget_default False (exclude_no_slack r cap vcs) (fst (vcs ! idx)) \<longleftrightarrow>
    snd (vcs ! idx) + best_others idx (cap - 1) 0 vcs < r"
proof -
  let ?bad = "\<lambda>i. snd (vcs ! i) + best_others i (cap - 1) 0 vcs < r"
  have "gget_default False (exclude_no_slack r cap vcs) s \<longleftrightarrow>
      (\<exists>x \<in> set (enumerate 0 vcs). snd (snd x) + best_others (fst x) (cap - 1) 0 vcs < r \<and> fst (snd x) = s)" for s
    unfolding exclude_no_slack_def case_prod_unfold gset_fold_get by simp
  also have "\<dots> s \<longleftrightarrow> (\<exists>i < length vcs. ?bad i \<and> fst (vcs ! i) = s)" for s
  proof
    assume "\<exists>i < length vcs. ?bad i \<and> fst (vcs ! i) = s"
    then obtain i where "i < length vcs" "?bad i" "fst (vcs ! i) = s" by blast
    then show "\<exists>x \<in> set (enumerate 0 vcs).
        snd (snd x) + best_others (fst x) (cap - 1) 0 vcs < r \<and> fst (snd x) = s"
      by (intro bexI [of _ "(i, vcs ! i)"]) (simp_all add: in_set_enumerate_eq)
  qed (auto simp: in_set_enumerate_eq)
  finally have "gget_default False (exclude_no_slack r cap vcs) (fst (vcs ! idx)) \<longleftrightarrow>
      (\<exists>i < length vcs. ?bad i \<and> fst (vcs ! i) = fst (vcs ! idx))" .
  moreover have "i = idx" if "i < length vcs" "fst (vcs ! i) = fst (vcs ! idx)" for i
    using that assms nth_eq_iff_index_eq [of "map fst vcs" i idx] by (simp add: gomap_ok_def)
  ultimately show ?thesis using assms(2) by blast
qed

text \<open>
  The others' best sum is an upper bound for every choice of at most \<open>cap\<close> vCenters that
  includes the current one, and is reached.
\<close>

lemma best_others_bound:
  assumes ok: "vc_counts_ok vcs" and idx: "idx < length vcs" and cap: "1 \<le> cap"
  shows "(\<exists>S \<subseteq> fst ` set vcs. fst (vcs ! idx) \<in> S \<and> int (card S) \<le> cap \<and> r \<le> sum (count_of vcs) S) \<longleftrightarrow>
    r \<le> snd (vcs ! idx) + best_others idx (cap - 1) 0 vcs"
proof -
  let ?o = "take idx vcs @ drop (Suc idx) vcs" and ?s = "fst (vcs ! idx)" and ?k = "nat (cap - 1)"
  have vcs: "vcs = take idx vcs @ vcs ! idx # drop (Suc idx) vcs" using idx by (rule id_take_nth_drop)
  have g: "gomap_ok vcs" using ok by (simp add: vc_counts_ok_def)
  have "distinct (map fst (take idx vcs @ vcs ! idx # drop (Suc idx) vcs))"
    using g vcs by (simp add: gomap_ok_def)
  then have dist: "distinct (map fst ?o)" "?s \<notin> fst ` set ?o" by auto
  have keys: "fst ` set vcs = insert ?s (fst ` set ?o)" by (subst vcs) auto
  have sub: "set ?o \<subseteq> set vcs" by (auto dest: in_set_takeD in_set_dropD)
  have "sorted_wrt (\<lambda>a b. snd b \<le> snd a) (take idx vcs @ vcs ! idx # drop (Suc idx) vcs)"
    using ok vcs by (simp add: vc_counts_ok_def)
  then have "sorted_wrt (\<lambda>a b. snd b \<le> snd a) ?o" by (auto simp: sorted_wrt_append)
  then have "sorted_wrt (\<lambda>a b. count_of vcs (fst b) \<le> count_of vcs (fst a)) ?o"
    by (rule sorted_wrt_mono_rel [rotated]) (use g sub in \<open>auto simp: count_of_mem subset_eq\<close>)
  then have srt: "sorted_wrt (\<lambda>x y. count_of vcs y \<le> count_of vcs x) (map fst ?o)"
    by (simp only: sorted_wrt_map)
  have best: "best_others idx (cap - 1) 0 vcs = sum_list (map (count_of vcs) (take ?k (map fst ?o)))"
    using map_count_of [OF g sub] by (simp only: best_others_eq [of 0 idx] diff_zero le0 take_map)
  have cur: "count_of vcs ?s = snd (vcs ! idx)" using g idx by (simp add: count_of_mem)
  have "0 \<le> count_of vcs (fst vc)" if "vc \<in> set ?o" for vc
    using that ok g sub by (metis count_of_mem subsetD vc_counts_ok_def)
  then have nonneg: "\<not> (\<exists>x \<in> set (map fst ?o). count_of vcs x < 0)" by fastforce
  show ?thesis
  proof
    assume "\<exists>S \<subseteq> fst ` set vcs. ?s \<in> S \<and> int (card S) \<le> cap \<and> r \<le> sum (count_of vcs) S"
    then obtain S where S: "S \<subseteq> fst ` set vcs" "?s \<in> S" "int (card S) \<le> cap" "r \<le> sum (count_of vcs) S"
      by blast
    have fin: "finite S" using S(1) by (rule finite_subset) simp
    have "S - {?s} \<subseteq> set (map fst ?o)" using S(1) keys by auto
    moreover have "card (S - {?s}) \<le> ?k" using S(2,3) fin by simp
    ultimately have "sum (count_of vcs) (S - {?s}) \<le> best_others idx (cap - 1) 0 vcs"
      using sum_le_top [OF srt dist(1)] nonneg best by metis
    moreover have "sum (count_of vcs) S = count_of vcs ?s + sum (count_of vcs) (S - {?s})"
      using fin S(2) by (simp add: sum.remove)
    ultimately show "r \<le> snd (vcs ! idx) + best_others idx (cap - 1) 0 vcs" using S(4) cur by linarith
  next
    assume r: "r \<le> snd (vcs ! idx) + best_others idx (cap - 1) 0 vcs"
    let ?T = "set (take ?k (map fst ?o))"
    have T: "?T \<subseteq> fst ` set ?o" by (metis list.set_map set_take_subset)
    have "card ?T \<le> ?k" by (metis card_length length_take min.bounded_iff)
    moreover have "?s \<notin> ?T" using T dist(2) by blast
    ultimately have "int (card (insert ?s ?T)) \<le> cap" using cap by simp
    moreover have "sum (count_of vcs) ?T = best_others idx (cap - 1) 0 vcs"
      unfolding best by (rule sum.distinct_set_conv_list [OF distinct_take [OF dist(1)]])
    then have "sum (count_of vcs) (insert ?s ?T) = snd (vcs ! idx) + best_others idx (cap - 1) 0 vcs"
      by (simp only: sum.insert [OF finite_set \<open>?s \<notin> ?T\<close>] cur)
    ultimately show "\<exists>S \<subseteq> fst ` set vcs. ?s \<in> S \<and> int (card S) \<le> cap \<and> r \<le> sum (count_of vcs) S"
      using r T keys by (intro exI [of _ "insert ?s ?T"]) auto
  qed
qed

section \<open>Properties\<close>

text \<open>
  C21: The combination-aware filter of the initial selection is exact: a vCenter is excluded if and only
  if no choice of at most \<open>VCenters\<close> vCenters that includes it offers the required number of pools.
\<close>

theorem exclude_no_slack_exact:
  assumes "vc_counts_ok vcs" "1 \<le> cap" "idx < length vcs"
  shows "gget_default False (exclude_no_slack requiredPools cap vcs) (fst (vcs ! idx)) \<longleftrightarrow>
    \<not> (\<exists>S \<subseteq> fst ` set vcs. fst (vcs ! idx) \<in> S \<and> int (card S) \<le> cap \<and>
         requiredPools \<le> sum (count_of vcs) S)"
  using assms best_others_bound [OF assms(1,3,2)] no_slack_get [OF _ assms(3)]
  by (auto simp: vc_counts_ok_def not_le)

text \<open>
  C22: Dynamic filtering never shuts out every new vCenter while the rest of the lease can still be
  placed on new ones: if some set of unused vCenters, within the remaining slots, has enough
  fitting pools for the remaining pools, then one of them is not excluded.
\<close>

theorem exclude_dynamic_leaves_choice:
  assumes "choices_ok os" "0 < slots" "0 < rem"
    and "S \<subseteq> p_Server ` set available" "S \<inter> p_Server ` set assigned = {}" "[] \<notin> S"
    and "int (card S) \<le> slots"
    and "rem \<le> (\<Sum>s\<in>S. pools_on (filter (may_assign lease [] []) available) s)"
  shows "\<exists>s \<in> S. \<not> gget_default False
    (exclude_dynamic os lease (GetVCentersInUse assigned) available rem slots) s"
proof (rule ccontr)
  let ?f = "pools_on (filter (may_assign lease [] []) available)"
  assume "\<not> ?thesis"
  then have "?f s \<le> (rem - 1) div slots" if "s \<in> S" for s
    using that exclude_dynamic_get [OF assms(1)] by fastforce
  then have "(\<Sum>s\<in>S. ?f s) \<le> (\<Sum>s\<in>S. (rem - 1) div slots)" by (rule sum_mono)
  also have "\<dots> = int (card S) * ((rem - 1) div slots)" by simp
  also have "\<dots> \<le> slots * ((rem - 1) div slots)"
    using assms(2,3,7) by (intro mult_right_mono) (simp_all add: pos_imp_zdiv_nonneg_iff)
  also have "\<dots> \<le> rem - 1"
    using mult_div_mod_eq [of slots "rem - 1"] pos_mod_sign [OF assms(2), of "rem - 1"] by linarith
  finally show False using assms(8) by linarith
qed

text \<open>
  When a lease passes the check that \<open>MinVCenters\<close> does not exceed the cap, the cap-reached rule never
  applies while vCenter diversity is pending, as the comment in the loop claims; the rule for
  the initial selection applies only while it is pending.
\<close>

theorem filter_rule_diversity:
  assumes "ls_VCenters (l_Spec lease) > 0 \<longrightarrow> ls_MinVCenters (l_Spec lease) \<le> ls_VCenters (l_Spec lease)"
    and "pending \<longleftrightarrow> GetDiversityExcludedVCenters lease assigned \<noteq> None"
  shows "(pending \<longrightarrow> filter_rule_for lease assigned requiredPools pending \<noteq> CapReached) \<and>
    (filter_rule_for lease assigned requiredPools pending = Initial \<longrightarrow> pending)"
  using assms
  by (auto simp: filter_rule_for_def GetDiversityExcludedVCenters_def Let_def GetVCentersInUse_def
      split: if_splits)

section \<open>Witnesses\<close>

text \<open>Three pools on at most two vCenters with counts 2, 2 and 0: the last one takes part in no solution.\<close>

definition example_counts :: "(string \<times> int) list" where
  "example_counts = [(''vc-a'', 2), (''vc-b'', 2), (''vc-c'', 0)]"

theorem exclude_no_slack_exact_witness:
  "vc_counts_ok example_counts \<and>
   \<not> (\<exists>S \<subseteq> fst ` set example_counts. ''vc-c'' \<in> S \<and> int (card S) \<le> 2 \<and> 3 \<le> sum (count_of example_counts) S)"
proof -
  have ok: "vc_counts_ok example_counts" "2 < length example_counts"
    by (simp_all add: example_counts_def vc_counts_ok_def gomap_ok_def)
  have "gget_default False (exclude_no_slack 3 2 example_counts) (fst (example_counts ! 2))"
    by (simp add: example_counts_def exclude_no_slack_def gget_default_def)
  with exclude_no_slack_exact [OF ok(1) _ ok(2), of 2 3] ok(1) show ?thesis
    by (simp add: example_counts_def)
qed

theorem exclude_dynamic_leaves_choice_witness:
  "\<exists>s \<in> {''vc-a''}. \<not> gget_default False
     (exclude_dynamic std_choices fit_lease (GetVCentersInUse []) fit_pools 1 1) s"
proof -
  have "filter (may_assign fit_lease [] []) fit_pools = [mk_pool ''a1'' ''vc-a'' 24 96]"
    unfolding fit_result_None_iff [symmetric] by (simp add: fit_example_defs)
  then have "1 \<le> (\<Sum>s\<in>{''vc-a''}. pools_on (filter (may_assign fit_lease [] []) fit_pools) s)"
    by (simp add: pools_on_def)
  then show ?thesis
    by (intro exclude_dynamic_leaves_choice [OF std_choices_ok]) (simp_all add: fit_pools_def)
qed

theorem filter_rule_diversity_witness:
  "filter_rule_for example_lease [] 3 True = Initial \<and>
   filter_rule_for example_lease example_pools 3 True \<noteq> NoRule"
proof -
  have "GetDiversityExcludedVCenters example_lease [] \<noteq> None"
    by (simp add: GetDiversityExcludedVCenters_def GetVCentersInUse_def)
  then have "filter_rule_for example_lease [] 3 True \<noteq> CapReached"
    using filter_rule_diversity [of example_lease True "[]" 3] by simp
  then show ?thesis
    by (simp add: filter_rule_for_def GetVCentersInUse_def vcenters_step_def example_pools_def Let_def)
qed

end
