(* ===== verification/LeaseUtil.thy ===== *)
theory LeaseUtil
  imports ApiTypes
begin

text \<open>
  Owner references of a lease and the environment file handed to its holder
  (\<^verbatim>\<open>pkg/utils/util.go\<close>).
\<close>

section \<open>Owner references\<close>

text \<open>The last pool reference: with Go 1.22 each round of the loop has its own variable.\<close>

fun DoesLeaseHavePool_loop :: "OwnerReference option \<Rightarrow> OwnerReference list \<Rightarrow> OwnerReference option" where
  "DoesLeaseHavePool_loop ref [] = ref"
| "DoesLeaseHavePool_loop ref (r # rs) =
     DoesLeaseHavePool_loop (if or_Kind r = ''Pool'' then Some r else ref) rs"

definition DoesLeaseHavePool :: "Lease \<Rightarrow> OwnerReference option" where
  "DoesLeaseHavePool lease = DoesLeaseHavePool_loop None (l_OwnerReferences lease)"

definition GetLeasePoolRefs :: "Lease \<Rightarrow> OwnerReference list" where
  "GetLeasePoolRefs lease = filter (\<lambda>r. or_Kind r = ''Pool'') (l_OwnerReferences lease)"

definition DoesLeaseHaveAllPools :: "Lease \<Rightarrow> bool" where
  "DoesLeaseHaveAllPools lease =
     (let requiredPools = (if ls_Pools (l_Spec lease) = 0 then 1 else ls_Pools (l_Spec lease));
          poolCount = foldl (\<lambda>n r. if or_Kind r = ''Pool'' then n + 1 else n) (0::int) (l_OwnerReferences lease)
      in poolCount \<ge> requiredPools)"

definition DoesLeaseHaveNetworks :: "Lease \<Rightarrow> bool" where
  "DoesLeaseHaveNetworks lease =
     (foldl (\<lambda>n r. if or_Kind r = ''Network'' then n - 1 else n) (ls_Networks (l_Spec lease))
        (l_OwnerReferences lease) = 0)"

section \<open>Environment variables\<close>

text \<open>
  The loop that looks for the port group path of the network: it stops at the first path that
  contains the name, and leaves the last path in the variable when none does.
\<close>

fun find_portgroup :: "string \<Rightarrow> string \<Rightarrow> string list \<Rightarrow> string" where
  "find_portgroup name cur [] = cur"
| "find_portgroup name cur (path # paths) =
     (if str_contains path name then path else find_portgroup name path paths)"

definition env_portgroup :: "Pool \<Rightarrow> Network \<Rightarrow> string" where
  "env_portgroup pool network =
     (let portgroup = find_portgroup (n_PortGroupName network) [] (tp_Networks (p_Topology pool));
          tokens = str_split (CHR ''/'') portgroup
      in if length tokens \<ge> 3 then last tokens else portgroup)"

definition env_line :: "string \<times> string \<Rightarrow> string" where
  "env_line kv = ''export '' @ fst kv @ ''='' @ [CHR 0x22] @ snd kv @ [CHR 0x22]"

fun join_lines :: "string list \<Rightarrow> string" where
  "join_lines [] = []"
| "join_lines [s] = s"
| "join_lines (s # ss) = s @ [CHR 0x0A, CHR 0x09, CHR 0x09] @ join_lines ss"

definition env_nameserver :: "string \<Rightarrow> Network \<Rightarrow> string" where
  "env_nameserver gateway network =
     (case ns_Nameservers (n_Spec network) of [] \<Rightarrow> gateway | ns # _ \<Rightarrow> ns)"

definition env_vars :: "Pool \<Rightarrow> Network \<Rightarrow> string \<Rightarrow> (string \<times> string) list" where
  "env_vars pool network gateway =
     (let fd = ps_FailureDomain (p_Spec pool); tp = fd_Topology fd; pg = env_portgroup pool network in
      [(''vsphere_url'', fd_Server fd), (''GOVC_URL'', fd_Server fd),
       (''GOVC_DATACENTER'', tp_Datacenter tp), (''GOVC_DATASTORE'', tp_Datastore tp),
       (''GOVC_NETWORK'', pg), (''vsphere_cluster'', tp_ComputeCluster tp),
       (''vsphere_resource_pool'', tp_ResourcePool tp), (''vsphere_datacenter'', tp_Datacenter tp),
       (''vsphere_datastore'', tp_Datastore tp), (''vsphere_portgroup'', pg),
       (''gateway'', gateway), (''dns_server'', env_nameserver gateway network),
       (''vlanid'', n_VlanId network), (''phydc'', ibm_Datacenter (ps_IBMPoolSpec (p_Spec pool))),
       (''primaryrouterhostname'', ns_PrimaryRouterHostname (n_Spec network))])"

text \<open>\<open>None\<close>: the network has no gateway and the nil pointer is dereferenced.\<close>

definition GenerateEnvVarsForServer :: "Pool \<Rightarrow> Network \<Rightarrow> string option" where
  "GenerateEnvVarsForServer pool network =
     (case ns_Gateway (n_Spec network) of
        None \<Rightarrow> None
      | Some gateway \<Rightarrow> Some (join_lines (map env_line (env_vars pool network gateway))))"

definition GenerateEnvVars :: "Lease \<Rightarrow> Pool \<Rightarrow> Network \<Rightarrow> Lease option" where
  "GenerateEnvVars lease pool network =
     (case ns_Gateway (n_Spec network) of
        None \<Rightarrow> None
      | Some gateway \<Rightarrow>
          let envVarsString = join_lines (map env_line (env_vars pool network gateway));
              m = (case lst_EnvVarsMap (l_Status lease) of None \<Rightarrow> [] | Some m \<Rightarrow> m)
          in Some (lease\<lparr>l_Status := (l_Status lease)\<lparr>lst_EnvVars := envVarsString,
               lst_EnvVarsMap := Some (gset (p_Name pool) envVarsString m)\<rparr>\<rparr>))"

section \<open>Lemmas\<close>

lemma DoesLeaseHavePool_last:
  "DoesLeaseHavePool lease =
     (if GetLeasePoolRefs lease = [] then None else Some (last (GetLeasePoolRefs lease)))"
proof -
  have "DoesLeaseHavePool_loop ref rs = (if filter (\<lambda>r. or_Kind r = ''Pool'') rs = [] then ref
      else Some (last (filter (\<lambda>r. or_Kind r = ''Pool'') rs)))" for ref rs
    by (induction rs arbitrary: ref) auto
  then show ?thesis by (simp add: DoesLeaseHavePool_def GetLeasePoolRefs_def)
qed

lemma count_refs:
  "foldl (\<lambda>n r. if or_Kind r = k then n + 1 else n) (i::int) rs =
     i + int (length (filter (\<lambda>r. or_Kind r = k) rs))"
  by (induction rs arbitrary: i) auto

lemma countdown_refs:
  "foldl (\<lambda>n r. if or_Kind r = k then n - 1 else n) (i::int) rs =
     i - int (length (filter (\<lambda>r. or_Kind r = k) rs))"
  by (induction rs arbitrary: i) auto

lemma DoesLeaseHaveNetworks_iff:
  "DoesLeaseHaveNetworks lease \<longleftrightarrow>
     int (length (filter (\<lambda>r. or_Kind r = ''Network'') (l_OwnerReferences lease))) = ls_Networks (l_Spec lease)"
  by (auto simp: DoesLeaseHaveNetworks_def countdown_refs)

lemma GenerateEnvVars_frame:
  assumes "GenerateEnvVars lease pool network = Some lease'"
  shows "l_Meta lease' = l_Meta lease \<and> l_Spec lease' = l_Spec lease \<and> l_Phase lease' = l_Phase lease \<and>
    l_Conditions lease' = l_Conditions lease \<and> lst_PoolInfo (l_Status lease') = lst_PoolInfo (l_Status lease) \<and>
    lst_FailureDomain (l_Status lease') = lst_FailureDomain (l_Status lease) \<and> l_Kind lease' = l_Kind lease"
  using assms by (auto simp: GenerateEnvVars_def Let_def split: option.splits)

lemma find_portgroup_unique:
  assumes "path \<in> set paths" "str_contains path name"
    "\<forall>p \<in> set paths. str_contains p name \<longrightarrow> p = path"
  shows "find_portgroup name cur paths = path"
  using assms(1,3)
proof (induction paths arbitrary: cur)
  case (Cons p paths)
  show ?case
  proof (cases "str_contains p name")
    case True
    with Cons.prems(2) have "p = path" by (meson list.set_intros(1))
    with True show ?thesis by simp
  next
    case False
    with assms(2) Cons.prems(1) have "path \<in> set paths" by (metis set_ConsD)
    with False Cons show ?thesis by simp
  qed
qed simp

lemma env_portgroup_of_path:
  assumes "find_portgroup (n_PortGroupName network) [] (tp_Networks (p_Topology pool)) =
      CHR ''/'' # dc @ ''/network/'' @ pg" "CHR ''/'' \<notin> set pg"
  shows "env_portgroup pool network = pg"
proof -
  let ?path = "(CHR ''/'' # dc @ ''/network'') @ CHR ''/'' # pg"
  obtain t u us where ts: "str_split (CHR ''/'') (dc @ ''/network'' @ CHR ''/'' # pg) = t # u # us"
    using str_split_sep [of "CHR ''/''" "dc @ ''/network'' @ CHR ''/'' # pg"] by auto
  then have "length (str_split (CHR ''/'') ?path) \<ge> 3" by simp
  moreover have "last (str_split (CHR ''/'') ?path) = pg"
    unfolding last_str_split by (rule path_base_append [OF assms(2)])
  ultimately show ?thesis using assms(1) by (simp add: env_portgroup_def Let_def)
qed

section \<open>Properties\<close>

text \<open>
  When exactly one port group path of the pool contains the name of the network, and that path
  is \<open>/dc/network/name\<close>, the environment file exports that name as \<open>GOVC_NETWORK\<close> and
  \<open>vsphere_portgroup\<close>, and stores the file both in \<open>EnvVars\<close> and under the name of the pool.
\<close>

theorem GenerateEnvVars_portgroup:
  assumes "path = CHR ''/'' # dc @ ''/network/'' @ n_PortGroupName network"
    and "path \<in> set (tp_Networks (p_Topology pool))"
    and "\<forall>p \<in> set (tp_Networks (p_Topology pool)). str_contains p (n_PortGroupName network) \<longrightarrow> p = path"
    and "CHR ''/'' \<notin> set (n_PortGroupName network)" "ns_Gateway (n_Spec network) = Some gateway"
  shows "\<exists>lease' env. GenerateEnvVars lease pool network = Some lease' \<and>
    lst_EnvVars (l_Status lease') = env \<and>
    gget (the (lst_EnvVarsMap (l_Status lease'))) (p_Name pool) = Some env \<and>
    GenerateEnvVarsForServer pool network = Some env \<and>
    gget (env_vars pool network gateway) ''GOVC_NETWORK'' = Some (n_PortGroupName network) \<and>
    gget (env_vars pool network gateway) ''vsphere_portgroup'' = Some (n_PortGroupName network)"
proof -
  have "str_contains path (n_PortGroupName network)"
    unfolding str_contains_sublist assms(1)
    using sublist_appendI [of "n_PortGroupName network" "CHR ''/'' # dc @ ''/network/''" "[]"] by simp
  then have "env_portgroup pool network = n_PortGroupName network"
    using assms find_portgroup_unique by (intro env_portgroup_of_path [where dc = dc]) metis+
  then show ?thesis
    using assms(5) by (simp add: GenerateEnvVars_def GenerateEnvVarsForServer_def env_vars_def Let_def)
qed

text \<open>
  The search for the port group is by substring: a network on port group \<open>ci-vlan-1148\<close> in a pool that
  lists \<open>ci-vlan-1148-1\<close> first is exported with the other port group.
\<close>

theorem env_portgroup_prefix_clash:
  "\<exists>pool network. ''/DC/network/ci-vlan-1148'' \<in> set (tp_Networks (p_Topology pool)) \<and>
     n_PortGroupName network = ''ci-vlan-1148'' \<and> env_portgroup pool network = ''ci-vlan-1148-1''"
proof (intro exI conjI)
  let ?pool = "zero_pool\<lparr>p_Spec := zero_pool_spec\<lparr>ps_FailureDomain := zero_failure_domain\<lparr>fd_Topology :=
    zero_topology\<lparr>tp_Networks := [''/DC/network/ci-vlan-1148-1'', ''/DC/network/ci-vlan-1148'']\<rparr>\<rparr>\<rparr>\<rparr>"
  let ?net = "zero_network\<lparr>n_Spec := zero_network_spec\<lparr>ns_PortGroupName := ''ci-vlan-1148''\<rparr>\<rparr>"
  show "''/DC/network/ci-vlan-1148'' \<in> set (tp_Networks (p_Topology ?pool))" by simp
  show "n_PortGroupName ?net = ''ci-vlan-1148''" by simp
  show "env_portgroup ?pool ?net = ''ci-vlan-1148-1''" by (simp add: env_portgroup_def zero_defs)
qed

section \<open>Witness\<close>

definition env_pool :: Pool where
  "env_pool = zero_pool\<lparr>p_Meta := zero_meta\<lparr>om_Name := ''pool''\<rparr>,
     p_Spec := zero_pool_spec\<lparr>ps_FailureDomain := zero_failure_domain\<lparr>fd_Topology :=
       zero_topology\<lparr>tp_Networks := [''/DC/network/ci-vlan-1'', ''/DC/network/ci-vlan-2'']\<rparr>\<rparr>\<rparr>\<rparr>"

definition env_network :: Network where
  "env_network = zero_network\<lparr>n_Spec := zero_network_spec\<lparr>ns_PortGroupName := ''ci-vlan-2'',
     ns_Gateway := Some ''10.0.0.1''\<rparr>\<rparr>"

theorem GenerateEnvVars_portgroup_witness:
  "gget (env_vars env_pool env_network ''10.0.0.1'') ''GOVC_NETWORK'' = Some ''ci-vlan-2''"
proof -
  have pg: "n_PortGroupName env_network = ''ci-vlan-2''" "ns_Gateway (n_Spec env_network) = Some ''10.0.0.1''"
    by (simp_all add: env_network_def)
  have nets: "tp_Networks (p_Topology env_pool) = [''/DC/network/ci-vlan-1'', ''/DC/network/ci-vlan-2'']"
    by (simp add: env_pool_def)
  have path: "''/DC/network/ci-vlan-2'' = CHR ''/'' # ''DC'' @ ''/network/'' @ n_PortGroupName env_network"
    by (simp add: pg)
  have h: "''/DC/network/ci-vlan-2'' \<in> set (tp_Networks (p_Topology env_pool))"
    "\<forall>p \<in> set (tp_Networks (p_Topology env_pool)).
       str_contains p (n_PortGroupName env_network) \<longrightarrow> p = ''/DC/network/ci-vlan-2''"
    "CHR ''/'' \<notin> set (n_PortGroupName env_network)"
    by (simp_all add: nets pg)
  from GenerateEnvVars_portgroup [OF path h pg(2), of zero_lease] show ?thesis
    unfolding pg(1) by blast
qed

end
