(* ===== verification/PoolAssign.thy ===== *)
theory PoolAssign
  imports VCenterFilter LeaseUtil
begin

text \<open>
  The assignment loop of \<open>LeaseReconciler.Reconcile\<close>: pools are added to a lease one at a time
  until it has as many as it asks for or none fits. The loop only edits the owner references of the
  lease; what the controller stores afterwards is in theory \<open>LeaseReconcile\<close>.
\<close>

section \<open>The loop\<close>

text \<open>
  \<open>Assigned\<close>: the loop ended, with all pools or by \<open>break\<close>; \<open>Released n reason\<close>: stuck on a vCenter
  constraint with \<open>n\<close> pools, all of which are to be given back; \<open>NoPoolLeft err\<close>: no pool fits.
\<close>

datatype pool_outcome =
    Assigned Lease "Pool list"
  | Released Lease int string
  | NoPoolLeft Lease string

definition pick_pool ::
  "choices \<Rightarrow> Lease \<Rightarrow> Pool list \<Rightarrow> bool gomap \<Rightarrow> bool gomap \<Rightarrow> string + (Pool \<times> Lease)" where
  "pick_pool os lease availablePools excludedVCenters diversityVCenters =
     GetPoolWithStrategy os lease availablePools RESOURCE_ALLOCATION_STRATEGY_UNDERUTILIZED
       excludedVCenters diversityVCenters"

definition nil_map :: "bool gomap option \<Rightarrow> bool gomap" where
  "nil_map m = (case m of None \<Rightarrow> [] | Some m \<Rightarrow> m)"

definition available_pools :: "Pool list \<Rightarrow> Pool list \<Rightarrow> Pool list" where
  "available_pools updatedPools assignedPools =
     filter (\<lambda>p. p_Name p \<notin> p_Name ` set assignedPools) updatedPools"

definition stuck :: "Lease \<Rightarrow> Pool list \<Rightarrow> bool gomap \<Rightarrow> bool \<Rightarrow> string \<Rightarrow> pool_outcome" where
  "stuck lease assignedPools excludedVCenters diversityPending err =
     (let capReached = ls_VCenters (l_Spec lease) > 0 \<and>
            int (length (GetVCentersInUse assignedPools)) \<ge> ls_VCenters (l_Spec lease);
          dynamicFilteringApplied = (\<not> diversityPending \<and> excludedVCenters \<noteq> [] \<and> \<not> capReached)
      in if assignedPools \<noteq> [] \<and> (ls_VCenters (l_Spec lease) > 0 \<or> ls_MinVCenters (l_Spec lease) > 0) then
           (if capReached \<or> dynamicFilteringApplied
            then Released lease (int (length assignedPools))
                   (if dynamicFilteringApplied then ''dynamic vCenter filtering'' else ''vCenter cap'')
            else Assigned lease assignedPools)
         else NoPoolLeft lease err)"

function assign_pools :: "choices \<Rightarrow> Lease \<Rightarrow> Pool list \<Rightarrow> int \<Rightarrow> Pool list \<Rightarrow> pool_outcome" where
  "assign_pools os lease updatedPools requiredPools assignedPools =
     (if int (length assignedPools) < requiredPools then
        let availablePools = available_pools updatedPools assignedPools;
            diversityVCenters = GetDiversityExcludedVCenters lease assignedPools;
            diversityPending = (diversityVCenters \<noteq> None);
            excludedVCenters =
              excluded_vcenters (sub 0 os) lease availablePools assignedPools requiredPools diversityPending
        in (case pick_pool (sub 1 os) lease availablePools excludedVCenters (nil_map diversityVCenters) of
              Inl err \<Rightarrow> stuck lease assignedPools excludedVCenters diversityPending err
            | Inr (pool, lease') \<Rightarrow>
                assign_pools (sub 2 os) lease' updatedPools requiredPools (assignedPools @ [pool]))
      else Assigned lease assignedPools)"
  by pat_completeness auto
termination
  by (relation "measure (\<lambda>(os, lease, ups, req, as). nat (req - int (length as)))") auto

declare assign_pools.simps [simp del]

section \<open>The interface of a pool source\<close>

text \<open>
  What the loop relies on: a picked pool is one of the offered pools, may be assigned, and lies
  on none of the vCenters to avoid; picking changes only the owner references.
\<close>

locale pool_source =
  fixes pick :: "choices \<Rightarrow> Lease \<Rightarrow> Pool list \<Rightarrow> bool gomap \<Rightarrow> bool gomap \<Rightarrow> string + (Pool \<times> Lease)"
  assumes pick_sound: "choices_ok os \<Longrightarrow> pick os lease ps ex dv = Inr (pool, lease') \<Longrightarrow>
      pool \<in> set ps \<and> may_assign lease ex dv pool"
    and pick_refs: "choices_ok os \<Longrightarrow> pick os lease ps ex dv = Inr (pool, lease') \<Longrightarrow>
      lease' = set_owner_refs (l_OwnerReferences lease @ [pool_owner_ref pool]) lease"
    and pick_complete: "choices_ok os \<Longrightarrow> pick os lease ps ex dv = Inl err \<Longrightarrow>
      p \<in> set ps \<Longrightarrow> \<not> may_assign lease ex dv p"
begin

text \<open>Once the cap is reached, a pick lies on a vCenter already in use (or on an unnamed one).\<close>

lemma pick_at_cap:
  assumes "choices_ok os"
    and "pick os lease ps (exclude_cap_reached (GetVCentersInUse assigned) ps) dv = Inr (pool, lease')"
  shows "p_Server pool = [] \<or> p_Server pool \<in> p_Server ` set assigned"
  using pick_sound [OF assms]
  by (auto simp: may_assign_def exclude_cap_reached_def exclude_where_get in_use_iff)

text \<open>While diversity is pending, a pick lies on a new vCenter.\<close>

lemma pick_diverse:
  assumes "choices_ok os" "GetDiversityExcludedVCenters lease assigned = Some m"
    and "pick os lease ps ex m = Inr (pool, lease')"
  shows "p_Server pool = [] \<or> p_Server pool \<notin> p_Server ` set assigned"
proof -
  have "m = GetVCentersInUse assigned"
    using assms(2) by (auto simp: GetDiversityExcludedVCenters_def Let_def split: if_splits)
  then show ?thesis
    using pick_sound [OF assms(1,3)] in_use_iff [of assigned] by (auto simp: may_assign_def in_use_def)
qed

end

interpretation up: pool_source pick_pool
proof (unfold_locales, goal_cases)
  case (1 os lease ps ex dv pool lease')
  then show ?case using GetPoolWithStrategy_Inr unfolding pick_pool_def by blast
next
  case (2 os lease ps ex dv pool lease')
  then show ?case using GetPoolWithStrategy_Inr unfolding pick_pool_def by blast
next
  case (3 os lease ps ex dv err p)
  then show ?case using GetPoolWithStrategy_Inl_iff unfolding pick_pool_def by blast
qed

section \<open>What one round does\<close>

lemma may_assign_spec:
  assumes "l_Spec lease' = l_Spec lease"
  shows "poolMatchesStructural lease' p = poolMatchesStructural lease p"
  by (simp add: poolMatchesStructural_def name_match_def PoolMatchesSelector_def
      LeaseToleratesPoolTaints_def assms)

definition spread :: "Pool list \<Rightarrow> int" where
  "spread ps = int (card (p_Server ` set ps - {[]}))"

lemma spread_in_use: "int (length (GetVCentersInUse ps)) = spread ps"
  by (simp add: spread_def GetVCentersInUse_length)

lemma spread_snoc:
  "spread (ps @ [p]) = (if p_Server p = [] \<or> p_Server p \<in> p_Server ` set ps then spread ps else spread ps + 1)"
  by (auto simp: spread_def card_insert_if insert_Diff_if insert_absorb)

lemma spread_le_length: "spread ps \<le> int (length ps)"
proof -
  have "card (p_Server ` set ps - {[]}) \<le> card (p_Server ` set ps)" by (rule card_mono) auto
  also have "\<dots> \<le> length ps" by (metis card_image_le card_length finite_set order_trans)
  finally show ?thesis by (simp add: spread_def)
qed

text \<open>An invariant of the loop holds of every lease and list of pools it ends with, also when it gives them up.\<close>

definition outcome_sat :: "(Lease \<Rightarrow> Pool list \<Rightarrow> bool) \<Rightarrow> pool_outcome \<Rightarrow> bool" where
  "outcome_sat I out = (case out of Assigned lease ps \<Rightarrow> I lease ps
     | Released lease n reason \<Rightarrow> \<exists>ps. ps \<noteq> [] \<and> n = int (length ps) \<and> I lease ps
     | NoPoolLeft lease err \<Rightarrow> \<exists>ps. I lease ps)"

definition round_keeps :: "(Lease \<Rightarrow> Pool list \<Rightarrow> bool) \<Rightarrow> Pool list \<Rightarrow> int \<Rightarrow> bool" where
  "round_keeps I ups req \<longleftrightarrow>
     (\<forall>os lease assigned pool lease'.
        choices_ok os \<longrightarrow> I lease assigned \<longrightarrow> int (length assigned) < req \<longrightarrow>
        pick_pool (sub 1 os) lease (available_pools ups assigned)
          (excluded_vcenters (sub 0 os) lease (available_pools ups assigned) assigned req
             (GetDiversityExcludedVCenters lease assigned \<noteq> None))
          (nil_map (GetDiversityExcludedVCenters lease assigned)) = Inr (pool, lease') \<longrightarrow>
        I lease' (assigned @ [pool]))"

lemma assign_pools_invariant:
  assumes "choices_ok os" "I lease assigned" "round_keeps I ups req"
  shows "outcome_sat I (assign_pools os lease ups req assigned)"
  using assms
proof (induction os lease ups req assigned rule: assign_pools.induct)
  case (1 os lease ups req assigned)
  note step = 1(4)
  show ?case
  proof (cases "int (length assigned) < req")
    case False
    with 1(3) show ?thesis by (simp add: assign_pools.simps [of os] outcome_sat_def)
  next
    case True
    let ?av = "available_pools ups assigned" and ?d = "GetDiversityExcludedVCenters lease assigned"
    let ?ex = "excluded_vcenters (sub 0 os) lease ?av assigned req (?d \<noteq> None)"
    show ?thesis
    proof (cases "pick_pool (sub 1 os) lease ?av ?ex (nil_map ?d)")
      case (Inl err)
      with True 1(3) show ?thesis
        by (auto simp: assign_pools.simps [of os] stuck_def Let_def outcome_sat_def)
    next
      case (Inr r)
      obtain pool lease' where r: "r = (pool, lease')" by (cases r)
      have "I lease' (assigned @ [pool])"
        using step [unfolded round_keeps_def] 1(2,3) True Inr r by blast
      then have "outcome_sat I (assign_pools (sub 2 os) lease' ups req (assigned @ [pool]))"
        using 1(1) [OF True refl refl refl refl Inr r [symmetric]] 1(2) step by simp
      with True Inr r show ?thesis by (simp add: assign_pools.simps [of os] Let_def)
    qed
  qed
qed

section \<open>Properties of the loop\<close>

lemma owner_refs_spec_simps:
  "pick_pool os lease ps ex dv = Inr (pool, lease') \<Longrightarrow> choices_ok os \<Longrightarrow> l_Spec lease' = l_Spec lease"
  using up.pick_refs by force

lemma round_keeps_cap:
  "round_keeps (\<lambda>l ps. l_Spec l = sp \<and> (ls_VCenters sp > 0 \<longrightarrow> spread ps \<le> ls_VCenters sp)) ups req"
  unfolding round_keeps_def
proof (intro allI impI, elim conjE, intro conjI impI)
  fix os lease assigned pool lease'
  assume ok: "choices_ok os" and sp: "l_Spec lease = sp"
    and inv: "ls_VCenters sp > 0 \<longrightarrow> spread assigned \<le> ls_VCenters sp"
    and pick: "pick_pool (sub 1 os) lease (available_pools ups assigned)
      (excluded_vcenters (sub 0 os) lease (available_pools ups assigned) assigned req
        (GetDiversityExcludedVCenters lease assigned \<noteq> None))
      (nil_map (GetDiversityExcludedVCenters lease assigned)) = Inr (pool, lease')"
  show "l_Spec lease' = sp" using owner_refs_spec_simps [OF pick] ok sp by simp
  assume cap: "ls_VCenters sp > 0"
  show "spread (assigned @ [pool]) \<le> ls_VCenters sp"
  proof (cases "spread assigned < ls_VCenters sp")
    case True
    then show ?thesis by (simp add: spread_snoc)
  next
    case False
    then have "filter_rule_for lease assigned req (GetDiversityExcludedVCenters lease assigned \<noteq> None) = CapReached"
      using cap sp by (simp add: filter_rule_for_def Let_def spread_in_use)
    with pick have "pick_pool (sub 1 os) lease (available_pools ups assigned)
        (exclude_cap_reached (GetVCentersInUse assigned) (available_pools ups assigned))
        (nil_map (GetDiversityExcludedVCenters lease assigned)) = Inr (pool, lease')"
      by (simp add: excluded_vcenters_def)
    from up.pick_at_cap [OF _ this] ok inv cap show ?thesis by (auto simp: spread_snoc)
  qed
qed

lemma round_keeps_min:
  assumes "\<forall>p \<in> set ups. p_Server p \<noteq> []"
  shows "round_keeps (\<lambda>l ps. l_Spec l = sp \<and>
    (ls_MinVCenters sp \<le> spread ps \<or> spread ps = int (length ps))) ups req"
  unfolding round_keeps_def
proof (intro allI impI, elim conjE, intro conjI)
  fix os lease assigned pool lease'
  assume ok: "choices_ok os" and sp: "l_Spec lease = sp"
    and inv: "ls_MinVCenters sp \<le> spread assigned \<or> spread assigned = int (length assigned)"
    and pick: "pick_pool (sub 1 os) lease (available_pools ups assigned)
      (excluded_vcenters (sub 0 os) lease (available_pools ups assigned) assigned req
        (GetDiversityExcludedVCenters lease assigned \<noteq> None))
      (nil_map (GetDiversityExcludedVCenters lease assigned)) = Inr (pool, lease')"
  show "l_Spec lease' = sp" using owner_refs_spec_simps [OF pick] ok sp by simp
  have "pool \<in> set ups" using up.pick_sound [OF _ pick] ok by (simp add: available_pools_def)
  then have server: "p_Server pool \<noteq> []" using assms by blast
  show "ls_MinVCenters sp \<le> spread (assigned @ [pool]) \<or> spread (assigned @ [pool]) = int (length (assigned @ [pool]))"
  proof (cases "ls_MinVCenters sp \<le> spread assigned")
    case True
    then show ?thesis by (auto simp: spread_snoc)
  next
    case False
    have "0 \<le> spread assigned" by (simp add: spread_def)
    with False have d: "GetDiversityExcludedVCenters lease assigned = Some (GetVCentersInUse assigned)"
      using sp by (simp add: GetDiversityExcludedVCenters_def Let_def spread_in_use)
    have ok': "choices_ok (sub 1 os)" using ok by simp
    have "pick_pool (sub 1 os) lease (available_pools ups assigned)
        (excluded_vcenters (sub 0 os) lease (available_pools ups assigned) assigned req True)
        (GetVCentersInUse assigned) = Inr (pool, lease')"
      using pick by (simp add: nil_map_def d)
    from up.pick_diverse [OF ok' d this] server
    have "p_Server pool \<notin> p_Server ` set assigned" by blast
    with False inv server show ?thesis by (simp add: spread_snoc)
  qed
qed

text \<open>The pools the loop adds, and the owner references it records for them.\<close>

definition added :: "Lease \<Rightarrow> Pool list \<Rightarrow> Pool list \<Rightarrow> Lease \<Rightarrow> Pool list \<Rightarrow> bool" where
  "added lease0 ups assigned0 lease assigned \<longleftrightarrow>
     (\<exists>new. assigned = assigned0 @ new \<and>
        lease = set_owner_refs (l_OwnerReferences lease0 @ map pool_owner_ref new) lease0 \<and>
        (\<forall>p \<in> set new. p \<in> set ups \<and> poolMatchesStructural lease0 p \<and>
           ls_VCpus (l_Spec lease0) \<le> pst_VCpusAvailable (p_Status p) \<and>
           ls_Memory (l_Spec lease0) \<le> pst_MemoryAvailable (p_Status p)) \<and>
        distinct (map p_Name new) \<and> p_Name ` set new \<inter> p_Name ` set assigned0 = {})"

lemma set_owner_refs_twice [simp]: "set_owner_refs r (set_owner_refs r' l) = set_owner_refs r l"
  by (simp add: set_owner_refs_def)

lemma set_owner_refs_same [simp]: "set_owner_refs (l_OwnerReferences l) l = l"
  by (simp add: set_owner_refs_def)

lemma round_keeps_added: "round_keeps (added lease0 ups assigned0) ups req"
  unfolding round_keeps_def
proof (intro allI impI)
  fix os lease assigned pool lease'
  let ?av = "available_pools ups assigned" and ?d = "GetDiversityExcludedVCenters lease assigned"
  assume ok: "choices_ok os" and "added lease0 ups assigned0 lease assigned"
    and pick: "pick_pool (sub 1 os) lease ?av
      (excluded_vcenters (sub 0 os) lease ?av assigned req (?d \<noteq> None)) (nil_map ?d) = Inr (pool, lease')"
  then obtain new where new: "assigned = assigned0 @ new"
      "lease = set_owner_refs (l_OwnerReferences lease0 @ map pool_owner_ref new) lease0"
      "\<forall>p \<in> set new. p \<in> set ups \<and> poolMatchesStructural lease0 p \<and>
         ls_VCpus (l_Spec lease0) \<le> pst_VCpusAvailable (p_Status p) \<and>
         ls_Memory (l_Spec lease0) \<le> pst_MemoryAvailable (p_Status p)"
      "distinct (map p_Name new)" "p_Name ` set new \<inter> p_Name ` set assigned0 = {}"
    unfolding added_def by blast
  have sound: "pool \<in> set ?av" "poolMatchesStructural lease pool"
      "ls_VCpus (l_Spec lease) \<le> pst_VCpusAvailable (p_Status pool)"
      "ls_Memory (l_Spec lease) \<le> pst_MemoryAvailable (p_Status pool)"
    using up.pick_sound [OF _ pick] ok by (auto simp: may_assign_def)
  have refs: "lease' = set_owner_refs (l_OwnerReferences lease @ [pool_owner_ref pool]) lease"
    using up.pick_refs [OF _ pick] ok by simp
  have "poolMatchesStructural lease0 pool"
    using sound(2) may_assign_spec [of lease lease0 pool] new(2) by simp
  then show "added lease0 ups assigned0 lease' (assigned @ [pool])"
    unfolding added_def using new sound refs
    by (intro exI [of _ "new @ [pool]"]) (auto simp: available_pools_def)
qed

section \<open>A lease without vCenter constraints\<close>

definition candidates :: "Lease \<Rightarrow> Pool list \<Rightarrow> Pool list \<Rightarrow> string set" where
  "candidates lease ups assigned = p_Name ` {p \<in> set ups. may_assign lease [] [] p} - p_Name ` set assigned"

lemma unconstrained_round:
  assumes "ls_VCenters (l_Spec lease) \<le> 0" "ls_MinVCenters (l_Spec lease) \<le> 0"
  shows "GetDiversityExcludedVCenters lease assigned = None"
    and "excluded_vcenters os lease av assigned req d = []"
  using assms
  by (simp_all add: GetDiversityExcludedVCenters_def excluded_vcenters_def filter_rule_for_def Let_def)

lemma candidates_step:
  assumes "pool \<in> set (available_pools ups assigned)"
  shows "candidates (set_owner_refs (l_OwnerReferences lease @ [pool_owner_ref pool]) lease) ups (assigned @ [pool])
    = candidates lease ups assigned - {p_Name pool}"
proof -
  have "may_assign (set_owner_refs (l_OwnerReferences lease @ [pool_owner_ref pool]) lease) [] [] p
      \<longleftrightarrow> may_assign lease [] [] p" if "p_Name p \<noteq> p_Name pool" for p
    using that may_assign_spec [of "set_owner_refs (l_OwnerReferences lease @ [pool_owner_ref pool]) lease" lease p]
    by (auto simp: may_assign_def owns_pool_def pool_owner_ref_def)
  then show ?thesis unfolding candidates_def by auto
qed

lemma card_candidates_step:
  assumes "pool \<in> set (available_pools ups assigned)" "may_assign lease [] [] pool"
  shows "card (candidates lease ups assigned) =
    Suc (card (candidates (set_owner_refs (l_OwnerReferences lease @ [pool_owner_ref pool]) lease) ups (assigned @ [pool])))"
proof -
  have "p_Name pool \<in> candidates lease ups assigned"
    using assms by (auto simp: candidates_def available_pools_def)
  moreover have "finite (candidates lease ups assigned)" by (simp add: candidates_def)
  ultimately show ?thesis
    unfolding candidates_step [OF assms(1)] by (metis card_Suc_Diff1)
qed

lemma assign_pools_unconstrained:
  assumes "choices_ok os" "ls_VCenters (l_Spec lease) \<le> 0" "ls_MinVCenters (l_Spec lease) \<le> 0"
    and "req - int (length assigned) \<le> int (card (candidates lease ups assigned))"
  shows "\<exists>lease' ps. assign_pools os lease ups req assigned = Assigned lease' ps \<and> req \<le> int (length ps)"
  using assms
proof (induction os lease ups req assigned rule: assign_pools.induct)
  case (1 os lease ups req assigned)
  note free = unconstrained_round [OF 1(3,4)]
  let ?av = "available_pools ups assigned"
  show ?case
  proof (cases "int (length assigned) < req")
    case True
    then obtain p where p: "p \<in> set ups" "may_assign lease [] [] p" "p_Name p \<notin> p_Name ` set assigned"
    proof -
      have "card (candidates lease ups assigned) > 0" using True 1(5) by linarith
      then have "candidates lease ups assigned \<noteq> {}" by (metis card.empty less_irrefl)
      then show thesis using that by (auto simp: candidates_def)
    qed
    have ok: "choices_ok (sub 1 os)" using 1(2) by simp
    have "p \<in> set ?av" using p by (simp add: available_pools_def)
    then obtain pool lease' where pick: "pick_pool (sub 1 os) lease ?av [] [] = Inr (pool, lease')"
      using up.pick_complete [OF ok] p(2) by (metis sum.exhaust surj_pair)
    note sound = up.pick_sound [OF ok pick] and refs = up.pick_refs [OF ok pick]
    have pick': "pick_pool (sub 1 os) lease ?av
        (excluded_vcenters (sub 0 os) lease ?av assigned req (GetDiversityExcludedVCenters lease assigned \<noteq> None))
        (nil_map (GetDiversityExcludedVCenters lease assigned)) = Inr (pool, lease')"
      using pick by (simp add: free nil_map_def)
    have "\<exists>l ps. assign_pools (sub 2 os) lease' ups req (assigned @ [pool]) = Assigned l ps \<and> req \<le> int (length ps)"
    proof (rule 1(1) [OF True refl refl refl refl pick' refl])
      show "choices_ok (sub 2 os)" using 1(2) by simp
      show "ls_VCenters (l_Spec lease') \<le> 0" "ls_MinVCenters (l_Spec lease') \<le> 0"
        using 1(3,4) refs by simp_all
      show "req - int (length (assigned @ [pool])) \<le> int (card (candidates lease' ups (assigned @ [pool])))"
        using 1(5) card_candidates_step [of pool ups assigned lease] sound refs by simp
    qed
    then show ?thesis using True pick' by (simp add: assign_pools.simps [of os] Let_def)
  qed (simp add: assign_pools.simps [of os])
qed

section \<open>Properties\<close>

text \<open>
  C8: The cap \<^verbatim>\<open>spec.vcenters\<close> is respected: if the pools a lease already has span no
  more vCenters than the cap, so do the pools it has when the assignment loop ends.
\<close>

theorem assign_pools_respects_cap:
  assumes "choices_ok os" "ls_VCenters (l_Spec lease) > 0"
    and "spread assigned \<le> ls_VCenters (l_Spec lease)"
    and "assign_pools os lease ups req assigned = Assigned lease' ps"
  shows "spread ps \<le> ls_VCenters (l_Spec lease)"
  using assign_pools_invariant [OF assms(1) _ round_keeps_cap [of "l_Spec lease" ups req],
      of lease assigned] assms(2-4)
  by (simp add: outcome_sat_def)

text \<open>
  C9: The minimum \<^verbatim>\<open>spec.minVCenters\<close> is reached: when the loop ends with all the
  pools the lease asks for, and the lease does not ask for more vCenters than pools, the pools
  span at least that many vCenters, also when the lease started with some pools, each on a
  vCenter of its own.
\<close>

theorem assign_pools_reaches_min:
  assumes "choices_ok os" "\<forall>p \<in> set ups. p_Server p \<noteq> []"
    and "spread assigned = int (length assigned)" "ls_MinVCenters (l_Spec lease) \<le> req"
    and "assign_pools os lease ups req assigned = Assigned lease' ps" "req \<le> int (length ps)"
  shows "ls_MinVCenters (l_Spec lease) \<le> spread ps"
  using assign_pools_invariant [OF assms(1) _ round_keeps_min [OF assms(2), of "l_Spec lease" req],
      of lease assigned] assms(3-6)
  by (auto simp: outcome_sat_def)

text \<open>
  C11: What the loop adds: pools of the inventory that match the lease and have the CPUs and
  memory it asks for, under new and pairwise distinct names, with exactly one owner reference
  for each appended to the lease and nothing else of the lease changed.
\<close>

theorem assign_pools_adds:
  assumes "choices_ok os" "assign_pools os lease ups req assigned = Assigned lease' ps"
  shows "added lease ups assigned lease' ps"
proof -
  have "added lease ups assigned lease assigned" by (simp add: added_def)
  from assign_pools_invariant [OF assms(1) this round_keeps_added [of lease ups assigned req]] assms(2)
  show ?thesis by (simp add: outcome_sat_def)
qed

text \<open>
  C12: Without vCenter constraints the loop is complete: a lease that is offered at least as
  many fitting pools as it asks for gets them all, whatever the map orders and the shuffle.
\<close>

theorem assign_pools_complete:
  assumes "choices_ok os" "ls_VCenters (l_Spec lease) \<le> 0" "ls_MinVCenters (l_Spec lease) \<le> 0"
    and "req \<le> int (card (p_Name ` {p \<in> set ups. may_assign lease [] [] p}))"
  shows "\<exists>lease' ps. assign_pools os lease ups req [] = Assigned lease' ps \<and> req \<le> int (length ps)"
  using assign_pools_unconstrained [OF assms(1-3), of req "[]" ups] assms(4) by (simp add: candidates_def)

section \<open>A concrete run\<close>

text \<open>A lease that has a pool on one vCenter, asks for two pools on two vCenters, and gets the second.\<close>

lemma pick_pool_unique:
  assumes "choices_ok os" "{p \<in> set ps. may_assign lease ex dv p} = {q}"
  shows "pick_pool os lease ps ex dv =
    Inr (q, set_owner_refs (l_OwnerReferences lease @ [pool_owner_ref q]) lease)"
proof (cases "pick_pool os lease ps ex dv")
  case (Inl e)
  then show ?thesis using up.pick_complete [OF assms(1) Inl] assms(2) by blast
next
  case (Inr r)
  obtain pool lease' where r: "r = (pool, lease')" by (cases r)
  have "pool = q" using up.pick_sound [OF assms(1) Inr [unfolded r]] assms(2) by blast
  with up.pick_refs [OF assms(1) Inr [unfolded r]] Inr r show ?thesis by simp
qed

definition run_a1 :: Pool where "run_a1 = mk_pool ''a1'' ''vc-a'' 24 96"
definition run_b1 :: Pool where "run_b1 = mk_pool ''b1'' ''vc-b'' 8 32"

definition run_pools :: "Pool list" where
  "run_pools = [run_a1, mk_pool ''a2'' ''vc-a'' 16 64, run_b1]"

definition run_lease :: Lease where
  "run_lease = (set_owner_refs [pool_owner_ref run_a1] fit_lease)\<lparr>l_Spec :=
     (l_Spec fit_lease)\<lparr>ls_Pools := 2, ls_VCenters := 2, ls_MinVCenters := 2\<rparr>\<rparr>"

definition run_result :: Lease where
  "run_result = set_owner_refs [pool_owner_ref run_a1, pool_owner_ref run_b1] run_lease"

lemma run_lease_simps [simp]:
  "ls_VCpus (l_Spec run_lease) = 8" "ls_Memory (l_Spec run_lease) = 32"
  "ls_RequiredPool (l_Spec run_lease) = []" "ls_PoolSelector (l_Spec run_lease) = []"
  "ls_Tolerations (l_Spec run_lease) = []" "l_OwnerReferences run_lease = [pool_owner_ref run_a1]"
  "ls_VCenters (l_Spec run_lease) = 2" "ls_MinVCenters (l_Spec run_lease) = 2"
  by (simp_all add: run_lease_def set_owner_refs_def)

lemma run_available: "available_pools run_pools [run_a1] = [mk_pool ''a2'' ''vc-a'' 16 64, run_b1]"
  by (simp add: available_pools_def run_pools_def run_a1_def run_b1_def)

lemma run_in_use: "GetVCentersInUse [run_a1] = [(''vc-a'', True)]"
  by (simp add: GetVCentersInUse_def vcenters_step_def run_a1_def)

lemma run_pick:
  "pick_pool std_choices run_lease (available_pools run_pools [run_a1]) [] [(''vc-a'', True)] = Inr (run_b1, run_result)"
proof -
  have "{p \<in> set (available_pools run_pools [run_a1]). may_assign run_lease [] [(''vc-a'', True)] p} = {run_b1}"
    unfolding run_available
    by (auto simp: may_assign_def poolMatchesStructural_def name_match_def PoolMatchesSelector_def
        LeaseToleratesPoolTaints_def owns_pool_def pool_owner_ref_def run_a1_def run_b1_def gget_default_def)
  from pick_pool_unique [OF std_choices_ok this] show ?thesis by (simp add: run_result_def)
qed

lemma run_assign: "assign_pools std_choices run_lease run_pools 2 [run_a1] = Assigned run_result [run_a1, run_b1]"
proof -
  have "GetDiversityExcludedVCenters run_lease [run_a1] = Some [(''vc-a'', True)]"
    by (simp add: GetDiversityExcludedVCenters_def run_in_use)
  moreover have "excluded_vcenters std_choices run_lease av [run_a1] 2 True = []" for av
    by (simp add: excluded_vcenters_def filter_rule_for_def run_in_use)
  ultimately show ?thesis
    using run_pick by (simp add: assign_pools.simps [of std_choices] nil_map_def)
qed

lemma run_spread: "spread [run_a1] = 1" "spread [run_a1, run_b1] = 2"
  by (simp_all add: spread_def run_a1_def run_b1_def insert_Diff_if)

lemma assign_pools_respects_cap_witness: "spread [run_a1, run_b1] \<le> 2"
  using assign_pools_respects_cap [OF std_choices_ok _ _ run_assign] by (simp add: run_spread)

lemma assign_pools_reaches_min_witness: "2 \<le> spread [run_a1, run_b1]"
proof -
  have "\<forall>p \<in> set run_pools. p_Server p \<noteq> []" by (simp add: run_pools_def run_a1_def run_b1_def)
  from assign_pools_reaches_min [OF std_choices_ok this _ _ run_assign] show ?thesis
    by (simp add: run_spread)
qed

lemma assign_pools_adds_witness: "added run_lease run_pools [run_a1] run_result [run_a1, run_b1]"
  by (rule assign_pools_adds [OF std_choices_ok run_assign])

lemma assign_pools_complete_witness:
  "\<exists>lease' ps. assign_pools std_choices fit_lease run_pools 2 [] = Assigned lease' ps \<and> 2 \<le> int (length ps)"
proof (rule assign_pools_complete [OF std_choices_ok])
  have "{p \<in> set run_pools. may_assign fit_lease [] [] p} = set run_pools"
    by (auto simp: may_assign_def poolMatchesStructural_def name_match_def PoolMatchesSelector_def
        LeaseToleratesPoolTaints_def owns_pool_def run_pools_def run_a1_def run_b1_def gget_default_def)
  then show "2 \<le> int (card (p_Name ` {p \<in> set run_pools. may_assign fit_lease [] [] p}))"
    by (simp add: run_pools_def run_a1_def run_b1_def card_insert_if)
qed (simp_all add: fit_lease_def zero_defs)

end
