(* ===== verification/NetworkAssign.thy ===== *)
theory NetworkAssign
  imports NetworkView LeaseUtil
begin

text \<open>
  The network assignment of \<open>LeaseReconciler.Reconcile\<close>: the networks each assigned pool gets, the VLANs
  that tie the pools of a lease together and the environment variables of each pool. The lease being
  reconciled is also an entry of the cache (the map holds the pointer), so the cache is
  read with the current state of the lease in it (\<open>with_lease\<close>).
\<close>

section \<open>The steps\<close>

definition with_lease :: "cache \<Rightarrow> string \<Rightarrow> Lease \<Rightarrow> cache" where
  "with_lease ca leaseKey lease = ca\<lparr>ca_leases := gset leaseKey lease (ca_leases ca)\<rparr>"

text \<open>The VLANs of the networks the lease already owns, with the names of the networks.\<close>

definition add_vlan :: "string \<Rightarrow> string \<Rightarrow> string list gomap \<Rightarrow> string list gomap" where
  "add_vlan vlanId name vlanToNetworks =
     gset vlanId (gget_default [] vlanToNetworks vlanId @ [name]) vlanToNetworks"

fun existing_vlans :: "choices \<Rightarrow> cache \<Rightarrow> OwnerReference list \<Rightarrow> string list gomap \<Rightarrow> string list gomap" where
  "existing_vlans os ca [] vlanToNetworks = vlanToNetworks"
| "existing_vlans os ca (ownerRef # refs) vlanToNetworks =
     existing_vlans (sub 1 os) ca refs
       (if or_Kind ownerRef = ''Network'' then
          (case find (\<lambda>net. n_Name net = or_Name ownerRef \<and> n_VlanId net \<noteq> []) (range_vals (sub 0 os) (ca_networks ca)) of
             None \<Rightarrow> vlanToNetworks
           | Some net \<Rightarrow> add_vlan (n_VlanId net) (n_Name net) vlanToNetworks)
        else vlanToNetworks)"

definition network_owner_ref :: "Network \<Rightarrow> OwnerReference" where
  "network_owner_ref network =
     \<lparr>or_APIVersion = n_APIVersion network, or_Kind = n_Kind network, or_Name = n_Name network,
      or_UID = om_UID (n_Meta network)\<rparr>"

definition add_network :: "Network \<Rightarrow> Lease \<Rightarrow> Lease" where
  "add_network network lease = set_owner_refs (l_OwnerReferences lease @ [network_owner_ref network]) lease"

text \<open>
  The candidates of a pool: the networks of a sibling, as far as the pool can match them; without a
  sibling constraint the free networks, for the first pool restricted to the common port groups.
\<close>

definition candidate_networks ::
  "choices \<Rightarrow> cache \<Rightarrow> bool \<Rightarrow> Lease \<Rightarrow> bool gomap option \<Rightarrow> nat \<Rightarrow> Pool \<Rightarrow> Network gomap \<Rightarrow> Network list option" where
  "candidate_networks os ca allow lease commonPortGroups poolIdx currentPool poolNetworksMap =
     (case getCommonNetworksForLease (sub 0 os) ca lease of
        Inr cands \<Rightarrow>
          resolveCommonNetworksForPool (sub 1 os) ca cands currentPool poolNetworksMap (ls_NetworkType (l_Spec lease))
      | Inl err \<Rightarrow>
          do { available \<leftarrow> getAvailableNetworks (sub 1 os) ca currentPool (ls_NetworkType (l_Spec lease));
               available \<leftarrow>
                 (if allow \<and> ls_NetworkType (l_Spec lease) = NetworkTypeMultiTenant
                  then do { single \<leftarrow> getAvailableNetworks (sub 2 os) ca currentPool NetworkTypeSingleTenant;
                            Some (available @ single) }
                  else Some available);
               Some (case commonPortGroups of
                       Some common \<Rightarrow>
                         if poolIdx = 0 then filter (\<lambda>n. gget_default False common (n_PortGroupName n)) available
                         else available
                     | None \<Rightarrow> available) })"

text \<open>The state of the assignment: the networks the current pool has, the lease, and the VLANs.\<close>

type_synonym net_state = "int \<times> Lease \<times> string list gomap"

fun first_pool_loop ::
  "choices \<Rightarrow> cache \<Rightarrow> Pool \<Rightarrow> int \<Rightarrow> Network list \<Rightarrow> net_state \<Rightarrow> net_state option" where
  "first_pool_loop os ca pool networksPerPool [] st = Some st"
| "first_pool_loop os ca pool networksPerPool (network # ns) (poolNetworkCount, lease, vlanToNetworks) =
     (if poolNetworkCount < networksPerPool then
        do { c \<leftarrow> doesLeaseContainPortGroup (sub 0 os) ca lease pool network;
             first_pool_loop (sub 1 os) ca pool networksPerPool ns
               (if \<not> c then (poolNetworkCount + 1, add_network network lease,
                          add_vlan (n_VlanId network) (n_Name network) vlanToNetworks)
                else (poolNetworkCount, lease, vlanToNetworks)) }
      else Some (poolNetworkCount, lease, vlanToNetworks))"

text \<open>The first available network on the VLAN that the lease may add in this pool.\<close>

fun match_vlan ::
  "choices \<Rightarrow> cache \<Rightarrow> Lease \<Rightarrow> Pool \<Rightarrow> Network gomap \<Rightarrow> string \<Rightarrow> Network list \<Rightarrow> Network option option" where
  "match_vlan os ca lease pool poolNetworksMap vlanId [] = Some None"
| "match_vlan os ca lease pool poolNetworksMap vlanId (network # ns) =
     (if n_VlanId network = vlanId then
        do { c \<leftarrow> doesLeaseContainPortGroup (sub 0 os) ca lease pool network;
             if \<not> c \<and> gget poolNetworksMap (n_Name network) \<noteq> None then Some (Some network)
             else match_vlan (sub 1 os) ca lease pool poolNetworksMap vlanId ns }
      else match_vlan (sub 1 os) ca lease pool poolNetworksMap vlanId ns)"

fun later_pool_loop ::
  "choices \<Rightarrow> cache \<Rightarrow> Pool \<Rightarrow> Network gomap \<Rightarrow> int \<Rightarrow> Network list \<Rightarrow> string list \<Rightarrow> net_state \<Rightarrow> net_state option" where
  "later_pool_loop os ca pool poolNetworksMap networksPerPool available [] st = Some st"
| "later_pool_loop os ca pool poolNetworksMap networksPerPool available (vlanId # vlanIds)
     (poolNetworkCount, lease, vlanToNetworks) =
     (if poolNetworkCount \<ge> networksPerPool then Some (poolNetworkCount, lease, vlanToNetworks)
      else do { r \<leftarrow> match_vlan (sub 0 os) ca lease pool poolNetworksMap vlanId available;
                later_pool_loop (sub 1 os) ca pool poolNetworksMap networksPerPool available vlanIds
                  (case r of
                     None \<Rightarrow> (poolNetworkCount, lease, vlanToNetworks)
                   | Some network \<Rightarrow> (poolNetworkCount + 1, add_network network lease,
                       add_vlan vlanId (n_Name network) vlanToNetworks)) })"

definition assign_pool_networks ::
  "choices \<Rightarrow> cache \<Rightarrow> string \<Rightarrow> bool \<Rightarrow> bool gomap option \<Rightarrow> nat \<Rightarrow> Pool \<Rightarrow> Network gomap \<Rightarrow>
   Lease \<times> string list gomap \<Rightarrow> (Lease \<times> string list gomap) option" where
  "assign_pool_networks os ca leaseKey allow commonPortGroups poolIdx currentPool poolNetworksMap st =
     (let (lease, vlanToNetworks) = st;
          poolNetworkCount = count_pool_networks lease poolNetworksMap;
          networksPerPool = ls_Networks (l_Spec lease)
      in if poolNetworkCount < networksPerPool then
           do { available \<leftarrow> candidate_networks (sub 0 os) (with_lease ca leaseKey lease) allow lease
                  commonPortGroups poolIdx currentPool poolNetworksMap;
                let available = shuffle_slice (sub 1 os) available;
                r \<leftarrow> (if poolIdx = 0
                     then first_pool_loop (sub 2 os) ca currentPool networksPerPool available
                            (poolNetworkCount, lease, vlanToNetworks)
                     else later_pool_loop (sub 2 os) ca currentPool poolNetworksMap networksPerPool available
                            (map fst (range_map (sub 3 os) vlanToNetworks))
                            (poolNetworkCount, lease, vlanToNetworks));
                Some (snd r) }
         else Some st)"

text \<open>The network a pool's environment variables are generated from.\<close>

fun env_network_for :: "Network gomap \<Rightarrow> OwnerReference list \<Rightarrow> Network option" where
  "env_network_for poolNetworksMap [] = None"
| "env_network_for poolNetworksMap (ownerRef # refs) =
     (if or_Kind ownerRef = ''Network'' then
        (case gget poolNetworksMap (or_Name ownerRef) of
           Some net \<Rightarrow> Some net | None \<Rightarrow> env_network_for poolNetworksMap refs)
      else env_network_for poolNetworksMap refs)"

fun assign_networks ::
  "choices \<Rightarrow> cache \<Rightarrow> string \<Rightarrow> bool \<Rightarrow> bool gomap option \<Rightarrow> nat \<Rightarrow> Pool list \<Rightarrow>
   Lease \<times> string list gomap \<Rightarrow> (Lease \<times> string list gomap) option" where
  "assign_networks os ca leaseKey allow commonPortGroups poolIdx [] st = Some st"
| "assign_networks os ca leaseKey allow commonPortGroups poolIdx (currentPool # pools) st =
     do { poolNetworksMap \<leftarrow> getNetworksForPool (sub 0 os) ca currentPool;
          (lease, vlanToNetworks) \<leftarrow>
            assign_pool_networks (sub 1 os) ca leaseKey allow commonPortGroups poolIdx currentPool poolNetworksMap st;
          lease \<leftarrow> (case env_network_for poolNetworksMap (l_OwnerReferences lease) of
                     None \<Rightarrow> Some lease
                   | Some net \<Rightarrow> GenerateEnvVars lease currentPool net);
          assign_networks (sub 2 os) ca leaseKey allow commonPortGroups (Suc poolIdx) pools (lease, vlanToNetworks) }"

section \<open>What the assignment adds\<close>

text \<open>The lease gets owner references to networks that satisfy \<open>Q\<close>, and no other change of metadata or spec.\<close>

definition granted :: "(Network \<Rightarrow> bool) \<Rightarrow> Lease \<Rightarrow> Lease \<Rightarrow> bool" where
  "granted Q lease lease' \<longleftrightarrow> (\<exists>ns. (\<forall>n \<in> set ns. Q n) \<and> l_Spec lease' = l_Spec lease \<and>
     l_Meta lease' = (l_Meta lease)\<lparr>om_OwnerReferences := l_OwnerReferences lease @ map network_owner_ref ns\<rparr>)"

lemma granted_refl [simp]: "granted Q l l"
  unfolding granted_def by (intro exI [of _ "[]"]) simp

lemma granted_trans:
  assumes "granted Q l l'" "granted Q l' l''"
  shows "granted Q l l''"
proof -
  from assms(1) obtain ns where ns: "\<forall>n \<in> set ns. Q n" "l_Spec l' = l_Spec l"
      "l_Meta l' = (l_Meta l)\<lparr>om_OwnerReferences := l_OwnerReferences l @ map network_owner_ref ns\<rparr>"
    unfolding granted_def by blast
  from assms(2) obtain ns' where ns': "\<forall>n \<in> set ns'. Q n" "l_Spec l'' = l_Spec l'"
      "l_Meta l'' = (l_Meta l')\<lparr>om_OwnerReferences := l_OwnerReferences l' @ map network_owner_ref ns'\<rparr>"
    unfolding granted_def by blast
  show ?thesis unfolding granted_def using ns ns' by (intro exI [of _ "ns @ ns'"]) auto
qed

lemma granted_mono: "granted Q l l' \<Longrightarrow> (\<And>n. Q n \<Longrightarrow> Q' n) \<Longrightarrow> granted Q' l l'"
  unfolding granted_def by blast

lemma granted_add: "Q n \<Longrightarrow> granted Q l (add_network n l)"
  unfolding granted_def by (intro exI [of _ "[n]"]) (simp add: add_network_def set_owner_refs_def)

lemma granted_status: "l_Meta l' = l_Meta l \<Longrightarrow> l_Spec l' = l_Spec l \<Longrightarrow> granted Q l l'"
  unfolding granted_def by (intro exI [of _ "[]"]) simp

lemma granted_frame:
  "granted Q l l' \<Longrightarrow> l_Spec l' = l_Spec l \<and> l_Labels l' = l_Labels l \<and> l_Name l' = l_Name l"
  by (auto simp: granted_def)

lemma first_pool_loop_granted:
  assumes "first_pool_loop os ca pool npp ns (c, lease, vl) = Some (c', lease', vl')"
  shows "granted (\<lambda>n. n \<in> set ns) lease lease'"
  using assms
proof (induction ns arbitrary: os c lease vl)
  case (Cons n ns)
  show ?case
  proof (cases "c < npp")
    case False
    with Cons.prems show ?thesis by simp
  next
    case True
    with Cons.prems obtain b where "first_pool_loop (sub 1 os) ca pool npp ns
        (if \<not> b then (c + 1, add_network n lease, add_vlan (n_VlanId n) (n_Name n) vl) else (c, lease, vl)) =
          Some (c', lease', vl')"
      by (auto split: Option.bind_splits)
    then have "granted (\<lambda>m. m \<in> set ns) (if b then lease else add_network n lease) lease'"
      using Cons.IH by (cases b) simp_all
    then have "granted (\<lambda>m. m \<in> set (n # ns)) (if b then lease else add_network n lease) lease'"
      by (rule granted_mono) simp
    moreover have "granted (\<lambda>m. m \<in> set (n # ns)) lease (if b then lease else add_network n lease)"
      by (simp add: granted_add)
    ultimately show ?thesis by (rule granted_trans [rotated])
  qed
qed simp

lemma match_vlan_found:
  "match_vlan os ca lease pool m v ns = Some (Some n) \<Longrightarrow> n \<in> set ns \<and> n_VlanId n = v \<and> gget m (n_Name n) \<noteq> None"
  by (induction ns arbitrary: os) (auto split: Option.bind_splits if_splits)

lemma later_pool_loop_granted:
  assumes "later_pool_loop os ca pool m npp av vs (c, lease, vl) = Some (c', lease', vl')"
  shows "granted (\<lambda>n. n \<in> set av \<and> n_VlanId n \<in> set vs \<and> gget m (n_Name n) \<noteq> None) lease lease'"
  using assms
proof (induction vs arbitrary: os c lease vl)
  case (Cons v vs)
  let ?Q = "\<lambda>n. n \<in> set av \<and> n_VlanId n \<in> set (v # vs) \<and> gget m (n_Name n) \<noteq> None"
  show ?case
  proof (cases "c \<ge> npp")
    case True
    with Cons.prems show ?thesis by simp
  next
    case False
    with Cons.prems obtain r where r: "match_vlan (sub 0 os) ca lease pool m v av = Some r"
      and rest: "later_pool_loop (sub 1 os) ca pool m npp av vs
        (case r of None \<Rightarrow> (c, lease, vl) | Some n \<Rightarrow> (c + 1, add_network n lease, add_vlan v (n_Name n) vl)) =
          Some (c', lease', vl')"
      by (auto split: Option.bind_splits)
    let ?l = "case r of None \<Rightarrow> lease | Some n \<Rightarrow> add_network n lease"
    have "granted ?Q ?l lease'"
      using Cons.IH rest by (cases r) (fastforce elim: granted_mono)+
    moreover have "granted ?Q lease ?l"
      using match_vlan_found r by (cases r) (auto intro!: granted_add)
    ultimately show ?thesis by (rule granted_trans [rotated])
  qed
qed simp

section \<open>Which networks a lease may take\<close>

definition refers_to :: "Lease \<Rightarrow> string \<Rightarrow> bool" where
  "refers_to l name \<longleftrightarrow> (\<exists>ref \<in> set (l_OwnerReferences l). or_Kind ref = ''Network'' \<and> or_Name ref = name)"

text \<open>Two leases of one CI job: the same boskos id, and both ask for CPUs or memory.\<close>

definition same_job :: "Lease \<Rightarrow> Lease \<Rightarrow> bool" where
  "same_job a b \<longleftrightarrow> \<not> network_only a \<and> \<not> network_only b \<and> gget (l_Labels a) BoskosIdLabel \<noteq> None \<and>
     gget (l_Labels a) BoskosIdLabel = gget (l_Labels b) BoskosIdLabel"

text \<open>Networks are exclusive: two leases own the same network only if they belong to one job.\<close>

definition networks_exclusive :: "cache \<Rightarrow> bool" where
  "networks_exclusive ca \<longleftrightarrow> (\<forall>k k' l l' name. gget (ca_leases ca) k = Some l \<longrightarrow> gget (ca_leases ca) k' = Some l' \<longrightarrow>
     k \<noteq> k' \<longrightarrow> refers_to l name \<longrightarrow> refers_to l' name \<longrightarrow> same_job l l')"

definition grantable :: "cache \<Rightarrow> string \<Rightarrow> Lease \<Rightarrow> Network \<Rightarrow> bool" where
  "grantable ca lk lease n \<longleftrightarrow> n_Kind n = ''Network'' \<and>
     ((\<forall>k l. k \<noteq> lk \<longrightarrow> gget (ca_leases ca) k = Some l \<longrightarrow> \<not> refers_to l (n_Name n)) \<or>
      (\<exists>k l. k \<noteq> lk \<and> gget (ca_leases ca) k = Some l \<and> refers_to l (n_Name n) \<and> same_job lease l))"

lemma same_job_sym: "same_job a b \<Longrightarrow> same_job b a"
  unfolding same_job_def by (elim conjE, intro conjI) simp_all

lemma same_job_trans: "same_job a b \<Longrightarrow> same_job b c \<Longrightarrow> same_job a c"
  unfolding same_job_def by (elim conjE, intro conjI) simp_all

lemma same_job_self: "same_job a b \<Longrightarrow> same_job b b"
  unfolding same_job_def by (elim conjE, intro conjI) simp_all

lemma exclusiveD:
  "networks_exclusive ca \<Longrightarrow> gget (ca_leases ca) k = Some l \<Longrightarrow> gget (ca_leases ca) k' = Some l' \<Longrightarrow> k \<noteq> k' \<Longrightarrow>
   refers_to l name \<Longrightarrow> refers_to l' name \<Longrightarrow> same_job l l'"
  unfolding networks_exclusive_def by blast

lemma granted_same_job:
  assumes "granted Q l l'"
  shows "same_job l' x \<longleftrightarrow> same_job l x"
  using granted_frame [OF assms] by (simp add: same_job_def network_only_def)

lemma granted_grantable: "granted Q l l' \<Longrightarrow> grantable ca lk l' n \<longleftrightarrow> grantable ca lk l n"
  by (simp add: grantable_def granted_same_job)

lemma refers_to_granted:
  assumes "granted Q l l'" "refers_to l' name"
  shows "refers_to l name \<or> (\<exists>n. Q n \<and> n_Name n = name)"
proof -
  from assms(1) obtain ns where ns: "\<forall>n \<in> set ns. Q n"
      "l_OwnerReferences l' = l_OwnerReferences l @ map network_owner_ref ns"
    by (auto simp: granted_def)
  from assms(2) obtain ref where ref: "ref \<in> set (l_OwnerReferences l')" "or_Kind ref = ''Network''" "or_Name ref = name"
    unfolding refers_to_def by blast
  then consider "ref \<in> set (l_OwnerReferences l)" | n where "n \<in> set ns" "ref = network_owner_ref n"
    using ns(2) by auto
  then show ?thesis
    using ref ns(1) by cases (auto simp: refers_to_def network_owner_ref_def)
qed

lemma gget_with_lease [simp]:
  "gget (ca_leases (with_lease ca lk l)) k = (if k = lk then Some l else gget (ca_leases ca) k)"
  by (simp add: with_lease_def)

lemma with_lease_simps [simp]:
  "ca_networks (with_lease ca lk l) = ca_networks ca" "ca_pools (with_lease ca lk l) = ca_pools ca"
  "cache_ok ca \<Longrightarrow> cache_ok (with_lease ca lk l)"
  by (simp_all add: with_lease_def cache_ok_def)

lemma exclusive_other:
  assumes ex: "networks_exclusive (with_lease ca lk lease)" and g: "granted (grantable ca lk lease) lease lease'"
    and x: "k \<noteq> lk" "gget (ca_leases ca) k = Some x" "refers_to x name" and l': "refers_to lease' name"
  shows "same_job lease' x"
proof (cases "refers_to lease name")
  case True
  have "same_job lease x"
    by (rule exclusiveD [OF ex, of lk _ k]) (use x True in simp_all)
  then show ?thesis by (simp add: granted_same_job [OF g])
next
  case False
  with refers_to_granted [OF g l'] obtain n where n: "grantable ca lk lease n" "n_Name n = name" by blast
  then obtain k2 l2 where l2: "k2 \<noteq> lk" "gget (ca_leases ca) k2 = Some l2" "refers_to l2 name" "same_job lease l2"
    using x unfolding grantable_def by blast
  have "same_job l2 x"
  proof (cases "k2 = k")
    case True
    with l2 x(2) have "l2 = x" by simp
    with same_job_self [OF l2(4)] show ?thesis by simp
  next
    case False
    show ?thesis by (rule exclusiveD [OF ex, of k2 _ k]) (use False x l2 in simp_all)
  qed
  with l2(4) show ?thesis using same_job_trans granted_same_job [OF g] by blast
qed

lemma exclusive_granted:
  assumes ex: "networks_exclusive (with_lease ca lk lease)" and g: "granted (grantable ca lk lease) lease lease'"
  shows "networks_exclusive (with_lease ca lk lease')"
  unfolding networks_exclusive_def
proof (intro allI impI)
  fix k k' l l' name
  assume *: "gget (ca_leases (with_lease ca lk lease')) k = Some l" "gget (ca_leases (with_lease ca lk lease')) k' = Some l'"
    "k \<noteq> k'" "refers_to l name" "refers_to l' name"
  consider "k = lk" | "k' = lk" | "k \<noteq> lk" "k' \<noteq> lk" by blast
  then show "same_job l l'"
  proof cases
    case 1
    with * exclusive_other [OF ex g, of k' l' name] show ?thesis by simp
  next
    case 2
    with * exclusive_other [OF ex g, of k l name] same_job_sym show ?thesis by simp
  next
    case 3
    show ?thesis by (rule exclusiveD [OF ex, of k _ k']) (use 3 * in simp_all)
  qed
qed

section \<open>Candidates may be taken\<close>

definition kinds_ok :: "cache \<Rightarrow> bool" where
  "kinds_ok ca \<longleftrightarrow> (\<forall>n \<in> snd ` set (ca_networks ca). n_Kind n = ''Network'')"

lemma kinds_okD: "kinds_ok ca \<Longrightarrow> n \<in> snd ` set (ca_networks ca) \<Longrightarrow> n_Kind n = ''Network''"
  unfolding kinds_ok_def by blast

lemma free_grantable:
  assumes "n_Kind n = ''Network''" "\<not> has_owner (with_lease ca lk lease) n"
  shows "grantable ca lk lease n"
proof -
  have "\<not> refers_to l (n_Name n)" if "k \<noteq> lk" "gget (ca_leases ca) k = Some l" for k l
  proof -
    have "gget (ca_leases (with_lease ca lk lease)) k = Some l" using that by simp
    from gget_in_set [OF this] have "l \<in> snd ` set (ca_leases (with_lease ca lk lease))" by (rule image_eqI [rotated]) simp
    with assms show ?thesis unfolding has_owner_iff refers_to_def by (metis (no_types))
  qed
  with assms(1) show ?thesis unfolding grantable_def by blast
qed

lemma sibling_grantable:
  assumes "n_Kind n = ''Network''" "cache_ok ca" "\<not> network_only lease"
    and "other \<in> snd ` set (ca_leases (with_lease ca lk lease))" "sibling_of lease other" "owns_network other n"
  shows "grantable ca lk lease n"
proof -
  have "gomap_ok (ca_leases (with_lease ca lk lease))" using with_lease_simps(3) [OF assms(2)] by (simp add: cache_ok_def)
  with assms(4) obtain k where k: "gget (ca_leases (with_lease ca lk lease)) k = Some other"
    by (auto simp: gomap_in_set_iff)
  moreover have "other \<noteq> lease" using assms(5) by (auto simp: sibling_of_def)
  ultimately have "k \<noteq> lk" "gget (ca_leases ca) k = Some other" by (auto split: if_splits)
  moreover have "refers_to other (n_Name n)" using assms(6) unfolding owns_network_def refers_to_def by blast
  moreover have "same_job lease other" using assms(3,5) unfolding sibling_of_def same_job_def
    by (elim conjE, intro conjI) simp_all
  ultimately show ?thesis using assms(1) unfolding grantable_def by blast
qed

lemma getCommonNetworks_Inr:
  assumes "choices_ok os" "cache_ok ca" "getCommonNetworksForLease os ca lease = Inr ns"
  shows "\<not> network_only lease \<and> (\<exists>other \<in> snd ` set (ca_leases ca). sibling_of lease other \<and>
    set ns = {n \<in> snd ` set (ca_networks ca). owns_network other n})"
proof -
  obtain i where i: "\<not> network_only lease" "gget (l_Labels lease) BoskosIdLabel = Some i"
    and loop: "common_networks_loop (sub 1 os) ca lease i (range_vals (sub 0 os) (ca_leases ca)) = Some ns"
    using assms(3) by (auto simp: getCommonNetworksForLease_def split: if_splits option.splits)
  have "set (range_vals (sub 0 os) (ca_leases ca)) = snd ` set (ca_leases ca)"
    using assms(1,2) by (simp add: cache_ok_def)
  with common_networks_loop_Some [OF _ assms(2) loop i(2)] assms(1) i(1) show ?thesis by auto
qed

lemma net_in_pool_cached: "net_in_pool ca pool n \<Longrightarrow> n \<in> snd ` set (ca_networks ca)"
  by (simp add: net_in_pool_def)

lemma available_grantable:
  assumes "choices_ok os" "cache_ok ca" "kinds_ok ca"
    and "getAvailableNetworks os (with_lease ca lk lease) pool ty = Some ns" "n \<in> set ns"
  shows "grantable ca lk lease n"
proof -
  have "net_in_pool (with_lease ca lk lease) pool n" "\<not> has_owner (with_lease ca lk lease) n"
    using getAvailableNetworks_sound [OF assms(1) with_lease_simps(3) [OF assms(2)] assms(4,5)] by simp_all
  with kinds_okD [OF assms(3)] net_in_pool_cached [of "with_lease ca lk lease"] show ?thesis
    by (intro free_grantable) simp_all
qed

lemma resolved_grantable:
  assumes ok: "choices_ok os" "cache_ok ca" "kinds_ok ca" "\<not> network_only lease"
    and other: "other \<in> snd ` set (ca_leases (with_lease ca lk lease))" "sibling_of lease other"
      "set cands = {n \<in> snd ` set (ca_networks ca). owns_network other n}"
    and ns: "resolveCommonNetworksForPool os (with_lease ca lk lease) cands pool m ty = Some ns" "n \<in> set ns"
  shows "grantable ca lk lease n"
proof (cases "filter (\<lambda>n. gget m (n_Name n) \<noteq> None) cands = []")
  case True
  with ns obtain av where "getAvailableNetworks os (with_lease ca lk lease) pool ty = Some av" "n \<in> set av"
    by (auto simp: resolveCommonNetworksForPool_def Let_def split: Option.bind_splits)
  then show ?thesis by (rule available_grantable [OF ok(1-3)])
next
  case False
  with ns have "n \<in> set cands"
    by (auto simp: resolveCommonNetworksForPool_def Let_def simp del: not_None_eq)
  with other have "n \<in> snd ` set (ca_networks ca)" "owns_network other n" by simp_all
  with kinds_okD [OF ok(3)] show ?thesis by (intro sibling_grantable [OF _ ok(2,4) other(1,2)])
qed

lemma candidate_grantable:
  assumes ok: "choices_ok os" "cache_ok ca" "kinds_ok ca"
    and c: "candidate_networks os (with_lease ca lk lease) allow lease cpg idx pool m = Some ns" "n \<in> set ns"
  shows "grantable ca lk lease n"
proof (cases "getCommonNetworksForLease (sub 0 os) (with_lease ca lk lease) lease")
  case (Inr cands)
  from getCommonNetworks_Inr [OF _ _ Inr] ok obtain other where other: "\<not> network_only lease"
      "other \<in> snd ` set (ca_leases (with_lease ca lk lease))" "sibling_of lease other"
      "set cands = {n \<in> snd ` set (ca_networks ca). owns_network other n}"
    by auto
  from c(1) Inr have "resolveCommonNetworksForPool (sub 1 os) (with_lease ca lk lease) cands pool m
      (ls_NetworkType (l_Spec lease)) = Some ns"
    by (simp add: candidate_networks_def)
  from resolved_grantable [OF _ ok(2,3) other this c(2)] ok(1) show ?thesis by simp
next
  case (Inl e)
  let ?ty = "ls_NetworkType (l_Spec lease)"
  from c Inl obtain av where av: "getAvailableNetworks (sub 1 os) (with_lease ca lk lease) pool ?ty = Some av"
    and "n \<in> set av \<or> (\<exists>ss. getAvailableNetworks (sub 2 os) (with_lease ca lk lease) pool NetworkTypeSingleTenant = Some ss \<and>
      n \<in> set ss)"
    by (auto simp: candidate_networks_def split: Option.bind_splits if_splits option.splits)
  then show ?thesis
    using available_grantable [OF _ ok(2,3) av] available_grantable [OF _ ok(2,3)] ok(1) by (metis choices_ok_sub)
qed

section \<open>The whole assignment\<close>

lemma assign_pool_networks_granted:
  assumes ok: "choices_ok os" "cache_ok ca" "kinds_ok ca"
    and r: "assign_pool_networks os ca lk allow cpg idx pool m (lease, vl) = Some (lease', vl')"
  shows "granted (grantable ca lk lease) lease lease'"
proof (cases "count_pool_networks lease m < ls_Networks (l_Spec lease)")
  case False
  with r show ?thesis by (simp add: assign_pool_networks_def)
next
  case True
  let ?npp = "ls_Networks (l_Spec lease)" and ?st = "(count_pool_networks lease m, lease, vl)"
  from r True obtain av c' where av: "candidate_networks (sub 0 os) (with_lease ca lk lease) allow lease cpg idx pool m = Some av"
    and loop: "(if idx = 0 then first_pool_loop (sub 2 os) ca pool ?npp (shuffle_slice (sub 1 os) av) ?st
      else later_pool_loop (sub 2 os) ca pool m ?npp (shuffle_slice (sub 1 os) av) (map fst (range_map (sub 3 os) vl)) ?st)
        = Some (c', lease', vl')"
    by (auto simp: assign_pool_networks_def Let_def simp del: One_nat_def split: Option.bind_splits)
  have "granted (\<lambda>n. n \<in> set (shuffle_slice (sub 1 os) av)) lease lease'"
  proof (cases "idx = 0")
    case True
    with loop show ?thesis using first_pool_loop_granted by simp
  next
    case False
    with loop have "later_pool_loop (sub 2 os) ca pool m ?npp (shuffle_slice (sub 1 os) av)
        (map fst (range_map (sub 3 os) vl)) ?st = Some (c', lease', vl')" by simp
    from later_pool_loop_granted [OF this] show ?thesis by (rule granted_mono) (rule conjunct1)
  qed
  then show ?thesis
    by (rule granted_mono) (use candidate_grantable [OF _ ok(2,3) av] ok(1) in simp)
qed

lemma assign_networks_granted:
  assumes ok: "choices_ok os" "cache_ok ca" "kinds_ok ca"
    and r: "assign_networks os ca lk allow cpg idx pools (lease, vl) = Some (lease', vl')"
  shows "granted (grantable ca lk lease) lease lease'"
  using ok(1) r
proof (induction pools arbitrary: os idx lease vl)
  case (Cons pool pools)
  from Cons.prems(2) obtain m l1 vl1 l2 where
      step: "assign_pool_networks (sub 1 os) ca lk allow cpg idx pool m (lease, vl) = Some (l1, vl1)"
    and env: "(case env_network_for m (l_OwnerReferences l1) of None \<Rightarrow> Some l1 | Some net \<Rightarrow> GenerateEnvVars l1 pool net) = Some l2"
    and rest: "assign_networks (sub 2 os) ca lk allow cpg (Suc idx) pools (l2, vl1) = Some (lease', vl')"
    by (auto split: Option.bind_splits)
  have g1: "granted (grantable ca lk lease) lease l1"
    using assign_pool_networks_granted [OF _ ok(2,3) step] Cons.prems(1) by simp
  have g2: "granted (grantable ca lk lease) l1 l2"
    using env GenerateEnvVars_frame by (auto split: option.splits intro: granted_status)
  have "granted (grantable ca lk l2) l2 lease'"
    using Cons.IH [OF _ rest] Cons.prems(1) by simp
  then have g3: "granted (grantable ca lk lease) l2 lease'"
    by (rule granted_mono) (use granted_grantable [OF granted_trans [OF g1 g2]] in simp)
  show ?case by (rule granted_trans [OF granted_trans [OF g1 g2] g3])
qed simp

section \<open>Properties\<close>

text \<open>
  C10: Networks stay exclusive: if two cached leases own the same network only when they belong to the same
  job, this still holds with the networks that the assignment gives to the lease it works on.
\<close>

theorem assign_networks_exclusive:
  assumes "choices_ok os" "cache_ok ca" "kinds_ok ca" "gget (ca_leases ca) lk = Some lease"
    and "networks_exclusive ca"
    and "assign_networks os ca lk allow cpg 0 pools (lease, vl) = Some (lease', vl')"
  shows "networks_exclusive (with_lease ca lk lease')"
proof (rule exclusive_granted)
  show "granted (grantable ca lk lease) lease lease'" by (rule assign_networks_granted [OF assms(1-3,6)])
  show "networks_exclusive (with_lease ca lk lease)"
    using assms(4,5) unfolding networks_exclusive_def gget_with_lease by metis
qed

text \<open>
  C23: The pools of a lease share their VLANs: every network that a pool after the first gets is one of the
  networks of that pool, on a VLAN that the lease already has a network on.
\<close>

theorem later_pool_matches_vlans:
  assumes "choices_ok os" "gomap_ok vl" "poolIdx \<noteq> 0"
    and "assign_pool_networks os ca lk allow cpg poolIdx pool m (lease, vl) = Some (lease', vl')"
  shows "granted (\<lambda>n. gget vl (n_VlanId n) \<noteq> None \<and> gget m (n_Name n) \<noteq> None) lease lease'"
proof (cases "count_pool_networks lease m < ls_Networks (l_Spec lease)")
  case False
  with assms(4) show ?thesis by (simp add: assign_pool_networks_def)
next
  case True
  with assms(3,4) obtain av c' where
    "later_pool_loop (sub 2 os) ca pool m (ls_Networks (l_Spec lease)) av (map fst (range_map (sub 3 os) vl))
      (count_pool_networks lease m, lease, vl) = Some (c', lease', vl')"
    by (auto simp: assign_pool_networks_def Let_def simp del: One_nat_def split: Option.bind_splits)
  from later_pool_loop_granted [OF this] show ?thesis
  proof (rule granted_mono)
    fix n assume "n \<in> set av \<and> n_VlanId n \<in> set (map fst (range_map (sub 3 os) vl)) \<and> gget m (n_Name n) \<noteq> None"
    then have "n_VlanId n \<in> fst ` set vl" "gget m (n_Name n) \<noteq> None" using assms(1,2) by simp_all
    then show "gget vl (n_VlanId n) \<noteq> None \<and> gget m (n_Name n) \<noteq> None" by (simp add: map_of_eq_None_iff)
  qed
qed

section \<open>Witnesses\<close>

lemma view_exclusive: "networks_exclusive view_cache"
  by (auto simp: networks_exclusive_def view_defs refers_to_def split: if_splits)

lemma view_networks: "getNetworksForPool std_choices view_cache view_pool = Some [(''n1'', view_n1), (''n2'', view_n2)]"
  by (simp add: getNetworksForPool_def view_defs range_vals_def gomap_ok_def path_base_def)

definition view_result :: Lease where
  "view_result = the (GenerateEnvVars (add_network view_n1 view_lease) view_pool view_n1)"

lemma view_common: "getCommonNetworksForLease std_choices view_cache view_lease = Inr [view_n1]"
  by (simp add: getCommonNetworksForLease_def view_defs range_vals_def gomap_ok_def)

lemma view_with_lease: "with_lease view_cache ''ns/lease'' view_lease = view_cache"
  by (simp add: with_lease_def view_cache_def)

lemma view_candidates:
  "candidate_networks std_choices view_cache False view_lease None 0 view_pool [(''n1'', view_n1), (''n2'', view_n2)] = Some [view_n1]"
  by (simp add: candidate_networks_def view_common resolveCommonNetworksForPool_def) (simp add: view_n1_def)

lemma view_contains: "doesLeaseContainPortGroup std_choices view_cache view_lease view_pool view_n1 = Some False"
  by (simp add: doesLeaseContainPortGroup_def view_networks) (simp add: view_lease_def)

lemma view_pool_step:
  "assign_pool_networks std_choices view_cache ''ns/lease'' False None 0 view_pool [(''n1'', view_n1), (''n2'', view_n2)]
     (view_lease, []) = Some (add_network view_n1 view_lease, [(''1'', [''n1''])])"
proof -
  have "count_pool_networks view_lease m = 0" for m by (simp add: count_pool_networks_def view_lease_def)
  moreover have "ls_Networks (l_Spec view_lease) = 1" by (simp add: view_lease_def mk_lease_def)
  moreover have "shuffle_slice std_choices [view_n1] = [view_n1]"
    by (simp add: shuffle_slice_def std_choices_def permute_def)
  moreover have "add_vlan (n_VlanId view_n1) (n_Name view_n1) [] = [(''1'', [''n1''])]"
    by (simp add: add_vlan_def view_n1_def)
  ultimately show ?thesis
    by (simp add: assign_pool_networks_def view_with_lease view_candidates view_contains)
qed

lemma view_env_network: "env_network_for [(''n1'', view_n1), (''n2'', view_n2)] (l_OwnerReferences (add_network view_n1 view_lease)) = Some view_n1"
  by (simp add: add_network_def view_lease_def network_owner_ref_def) (simp add: view_n1_def)

lemma view_env: "GenerateEnvVars (add_network view_n1 view_lease) view_pool view_n1 = Some view_result"
proof -
  have "ns_Gateway (n_Spec view_n1) = Some ''192.168.1.1''" by (simp add: view_n1_def mk_network_def)
  then have "GenerateEnvVars (add_network view_n1 view_lease) view_pool view_n1 \<noteq> None"
    by (simp only: GenerateEnvVars_def Let_def option.case) simp
  then show ?thesis unfolding view_result_def by force
qed

lemma view_assign:
  "assign_networks std_choices view_cache ''ns/lease'' False None 0 [view_pool] (view_lease, []) =
     Some (view_result, [(''1'', [''n1''])])"
  by (simp add: view_networks view_pool_step view_env_network view_env)

theorem assign_networks_exclusive_witness:
  "networks_exclusive (with_lease view_cache ''ns/lease'' view_result)"
proof -
  have "kinds_ok view_cache" by (simp add: kinds_ok_def view_defs)
  moreover have "gget (ca_leases view_cache) ''ns/lease'' = Some view_lease" by (simp add: view_cache_def)
  ultimately show ?thesis
    by (rule assign_networks_exclusive [OF std_choices_ok inventory_cache_ok [OF view_inventory] _ _ view_exclusive view_assign])
qed

theorem later_pool_matches_vlans_witness:
  "granted (\<lambda>n. gget [(''1'', [''n1''])] (n_VlanId n) \<noteq> None \<and> gget [(''n1'', view_n1), (''n2'', view_n2)] (n_Name n) \<noteq> None)
     view_lease (add_network view_n1 view_lease)"
proof (rule later_pool_matches_vlans [OF std_choices_ok])
  have "count_pool_networks view_lease m = 0" for m by (simp add: count_pool_networks_def view_lease_def)
  moreover have "ls_Networks (l_Spec view_lease) = 1" by (simp add: view_lease_def mk_lease_def)
  moreover have "candidate_networks std_choices view_cache False view_lease None 1 view_pool
      [(''n1'', view_n1), (''n2'', view_n2)] = Some [view_n1]"
    by (simp add: candidate_networks_def view_common resolveCommonNetworksForPool_def) (simp add: view_n1_def)
  moreover have "shuffle_slice std_choices [view_n1] = [view_n1]"
    by (simp add: shuffle_slice_def std_choices_def permute_def)
  moreover have "range_map std_choices [(''1'', [''n1''])] = [(''1'', [''n1''])]" by (simp add: gomap_ok_def)
  moreover have "match_vlan std_choices view_cache view_lease view_pool [(''n1'', view_n1), (''n2'', view_n2)] ''1'' [view_n1] = Some (Some view_n1)"
    by (simp add: view_contains) (simp add: view_n1_def)
  moreover have "add_vlan ''1'' (n_Name view_n1) [(''1'', [''n1''])] = [(''1'', [''n1'', ''n1''])]"
    by (simp add: add_vlan_def view_n1_def gget_default_def)
  ultimately show "assign_pool_networks std_choices view_cache ''ns/lease'' False None 1 view_pool
      [(''n1'', view_n1), (''n2'', view_n2)] (view_lease, [(''1'', [''n1''])]) =
        Some (add_network view_n1 view_lease, [(''1'', [''n1'', ''n1''])])"
    by (simp add: assign_pool_networks_def view_with_lease del: match_vlan.simps)
qed (simp_all add: gomap_ok_def)

end
