(* ===== verification/PoolCapacity.thy ===== *)
theory PoolCapacity
  imports PoolState PoolAssign NetworkAssign
begin

text \<open>
  Accounting and assignment together: the free capacity that \<open>reconcilePoolStates\<close> computes is what the
  assignment loop checks, so no pool is promised more CPUs (with its over-commit ratio) or memory
  than it has.
\<close>

section \<open>The invariant\<close>

definition within_capacity :: "cache \<Rightarrow> bool" where
  "within_capacity ca \<longleftrightarrow> (\<forall>p \<in> snd ` set (ca_pools ca).
     used_cpus ca p \<le> cpu_capacity p \<and> used_memory ca p \<le> ps_Memory (p_Spec p))"

text \<open>
  Pools are of kind \<open>Pool\<close> and named apart, memory sizes are Go integers, and no lease asks for
  a negative amount.
\<close>

definition sizes_ok :: "cache \<Rightarrow> bool" where
  "sizes_ok ca \<longleftrightarrow>
     (\<forall>p \<in> snd ` set (ca_pools ca). p_Kind p = ''Pool'' \<and> int64 (ps_Memory (p_Spec p))) \<and>
     inj_on p_Name (snd ` set (ca_pools ca)) \<and>
     (\<forall>l \<in> snd ` set (ca_leases ca). 0 \<le> ls_VCpus (l_Spec l) \<and> 0 \<le> ls_Memory (l_Spec l))"

lemma int64_cpu_capacity: "int64 (cpu_capacity p)"
  by (auto simp: cpu_capacity_def f64_to_int_def Let_def int64_def split: gofloat.splits)

section \<open>Sums over the leases\<close>

definition amount :: "(LeaseSpec \<Rightarrow> int) \<Rightarrow> Pool \<Rightarrow> Lease \<Rightarrow> int" where
  "amount f p l = (if uses_pool p l then f (l_Spec l) else 0)"

lemma used_amount:
  "used_cpus ca p = sum_list (map (amount ls_VCpus p) (map snd (ca_leases ca)))"
  "used_memory ca p = sum_list (map (amount ls_Memory p) (map snd (ca_leases ca)))"
  by (simp_all add: used_cpus_def used_memory_def users_def amount_def sum_list_map_filter' comp_def)

lemma sum_gset:
  assumes "gomap_ok m" "gget m k = Some a"
  shows "sum_list (map g (map snd (gset k b m))) = sum_list (map g (map snd m)) - (g a :: int) + g b"
  using assms
proof (induction m)
  case (Cons kv m)
  obtain k' v where kv: "kv = (k', v)" by (cases kv)
  with Cons show ?case by (cases "k' = k") (auto simp: gomap_ok_def)
qed simp

lemma used_with_lease:
  assumes "cache_ok ca" "gget (ca_leases ca) lk = Some lease"
  shows "used_cpus (with_lease ca lk lease') p = used_cpus ca p - amount ls_VCpus p lease + amount ls_VCpus p lease'"
    and "used_memory (with_lease ca lk lease') p = used_memory ca p - amount ls_Memory p lease + amount ls_Memory p lease'"
  using sum_gset [of "ca_leases ca" lk lease] assms by (simp_all add: used_amount with_lease_def cache_ok_def)

lemma used_nonneg:
  assumes "sizes_ok ca"
  shows "0 \<le> used_cpus ca p" "0 \<le> used_memory ca p"
  using assms by (auto simp: used_amount sizes_ok_def amount_def intro!: sum_list_nonneg)

lemma uses_pool_cong:
  "p_Kind p = p_Kind q \<Longrightarrow> p_Name p = p_Name q \<Longrightarrow> uses_pool p = uses_pool q"
  by (simp add: uses_pool_def fun_eq_iff)

lemma used_cong:
  assumes "p_Kind p = p_Kind q" "p_Name p = p_Name q"
  shows "used_cpus ca p = used_cpus ca q" "used_memory ca p = used_memory ca q"
  using uses_pool_cong [OF assms] by (simp_all add: used_cpus_def used_memory_def users_def)

lemma uses_pool_added:
  assumes "l_OwnerReferences lease' = l_OwnerReferences lease @ map pool_owner_ref new"
  shows "uses_pool p lease' \<longleftrightarrow> uses_pool p lease \<or> (\<exists>q \<in> set new. p_Kind q = p_Kind p \<and> p_Name q = p_Name p)"
  unfolding uses_pool_def assms by (simp add: list_ex_iff bex_Un pool_owner_ref_def)

section \<open>The step\<close>

text \<open>A pool picked from the accounted pools has room for the lease.\<close>

lemma picked_has_room:
  assumes ok: "choices_ok os" "cache_ok ca" "sizes_ok ca" "within_capacity ca"
    and st: "reconcilePoolStates os ca = Some (ups, ca')"
    and p: "p \<in> snd ` set (ca_pools ca)" and q: "q \<in> set ups" "p_Name q = p_Name p"
    and fits: "ls_VCpus sp \<le> pst_VCpusAvailable (p_Status q)" "ls_Memory sp \<le> pst_MemoryAvailable (p_Status q)"
  shows "used_cpus ca p + ls_VCpus sp \<le> cpu_capacity p \<and> used_memory ca p + ls_Memory sp \<le> ps_Memory (p_Spec p)"
proof -
  note acc = reconcilePoolStates_accounted [OF ok(1,2) st]
  from acc q(1) obtain k where k: "gget (ca_pools ca') k = Some q" by auto
  from acc have "rel_option (accounted ca) (gget (ca_pools ca) k) (gget (ca_pools ca') k)" by blast
  with k obtain p0 where p0: "gget (ca_pools ca) k = Some p0" "accounted ca p0 q"
    by (auto simp: option_rel_Some2)
  have "p0 \<in> snd ` set (ca_pools ca)" using gget_in_set [OF p0(1)] by (rule image_eqI [rotated]) simp
  moreover have "p_Name p0 = p_Name p" using p0(2) q(2) by (simp add: accounted_def)
  ultimately have eq: "p0 = p" using ok(3) p by (auto simp: sizes_ok_def dest: inj_onD)
  have cap: "int64 (cpu_capacity p)" "int64 (ps_Memory (p_Spec p))"
    using ok(3) p int64_cpu_capacity unfolding sizes_ok_def by blast+
  have le: "used_cpus ca p \<le> cpu_capacity p" "used_memory ca p \<le> ps_Memory (p_Spec p)"
    using ok(4) p unfolding within_capacity_def by blast+
  have "int64 (cpu_capacity p - used_cpus ca p)" "int64 (ps_Memory (p_Spec p) - used_memory ca p)"
    using cap le used_nonneg [OF ok(3), of p] by (simp_all add: int64_def)
  then show ?thesis using p0(2) fits unfolding eq accounted_def by (simp add: wrap64_id)
qed

lemma added_within_capacity:
  assumes ok: "choices_ok os" "cache_ok ca" "sizes_ok ca" "within_capacity ca"
    and st: "reconcilePoolStates os ca = Some (ups, ca')"
    and lk: "gget (ca_leases ca) lk = Some lease" and ad: "added lease ups assigned lease' ps"
    and p: "p \<in> snd ` set (ca_pools ca)"
  shows "used_cpus (with_lease ca lk lease') p \<le> cpu_capacity p \<and>
    used_memory (with_lease ca lk lease') p \<le> ps_Memory (p_Spec p)"
proof -
  from ad obtain new where new: "lease' = set_owner_refs (l_OwnerReferences lease @ map pool_owner_ref new) lease"
      "\<forall>q \<in> set new. q \<in> set ups \<and> ls_VCpus (l_Spec lease) \<le> pst_VCpusAvailable (p_Status q) \<and>
         ls_Memory (l_Spec lease) \<le> pst_MemoryAvailable (p_Status q)"
    unfolding added_def by blast
  have spec: "l_Spec lease' = l_Spec lease" and refs: "l_OwnerReferences lease' = l_OwnerReferences lease @ map pool_owner_ref new"
    using new(1) by simp_all
  have le: "used_cpus ca p \<le> cpu_capacity p" "used_memory ca p \<le> ps_Memory (p_Spec p)"
    using ok(4) p unfolding within_capacity_def by blast+
  note used = used_with_lease [OF ok(2) lk, of lease' p]
  show ?thesis
  proof (cases "uses_pool p lease \<or> \<not> uses_pool p lease'")
    case True
    then have "uses_pool p lease' = uses_pool p lease" using uses_pool_added [OF refs, of p] by blast
    then show ?thesis using le by (simp add: used amount_def spec)
  next
    case False
    then obtain q where q: "q \<in> set new" "p_Name q = p_Name p" using uses_pool_added [OF refs, of p] by blast
    with new(2) have "q \<in> set ups" "ls_VCpus (l_Spec lease) \<le> pst_VCpusAvailable (p_Status q)"
        "ls_Memory (l_Spec lease) \<le> pst_MemoryAvailable (p_Status q)" by blast+
    from picked_has_room [OF ok st p this(1) q(2) this(2,3)] False show ?thesis
      by (simp add: used amount_def spec)
  qed
qed

section \<open>Property\<close>

text \<open>
  C5: Capacity is never exceeded: if the leases that own a pool fit into it before a reconcile, they still do
  with the pools that the assignment loop has added to the reconciled lease, since the loop works on
  the states \<open>reconcilePoolStates\<close> has just computed from the cache.
\<close>

theorem assignment_within_capacity:
  assumes "choices_ok os" "choices_ok os'" "cache_ok ca" "sizes_ok ca" "within_capacity ca"
    and "gget (ca_leases ca) lk = Some lease"
    and "reconcilePoolStates os ca = Some (ups, ca')"
    and "assign_pools os' lease ups req assigned = Assigned lease' ps"
  shows "within_capacity (with_lease ca lk lease')"
proof -
  have "added lease ups assigned lease assigned" by (simp add: added_def)
  from assign_pools_invariant [OF assms(2) this round_keeps_added [of lease ups assigned req]] assms(8)
  have "added lease ups assigned lease' ps" by (simp add: outcome_sat_def)
  from added_within_capacity [OF assms(1,3-5,7,6) this] show ?thesis
    unfolding within_capacity_def by simp
qed

section \<open>Witness\<close>

definition cap_cache :: cache where
  "cap_cache = \<lparr>ca_pools = [(''ns/a1'', run_a1)], ca_leases = [(''ns/lease'', fit_lease)], ca_networks = []\<rparr>"

lemma cap_capacity: "cpu_capacity run_a1 = 24"
proof -
  have "ParseFloat [] 32 = None" by (simp add: ParseFloat_def parse_special_def read_float_def strip_sign_def)
  then have "over_commit_ratio run_a1 = Fin 1"
    by (simp add: over_commit_ratio_def run_a1_def mk_pool_def zero_defs)
  then show ?thesis using f64_mul_one [of 24] by (simp add: cpu_capacity_def run_a1_def)
qed

lemma cap_inventory: "inventory_ok cap_cache"
  by (simp add: inventory_ok_def cache_ok_def gomap_ok_def cap_cache_def)

lemma cap_unused: "users cap_cache p = []"
  by (simp add: users_def uses_pool_def cap_cache_def)

lemma cap_state:
  "\<exists>ups ca' a1. reconcilePoolStates std_choices cap_cache = Some (ups, ca') \<and> a1 \<in> set ups \<and> accounted cap_cache run_a1 a1"
proof -
  obtain ups ca' where st: "reconcilePoolStates std_choices cap_cache = Some (ups, ca')"
    using reconcilePoolStates_total [OF std_choices_ok cap_inventory] by auto
  note acc = reconcilePoolStates_accounted [OF std_choices_ok inventory_cache_ok [OF cap_inventory] st]
  have "gget (ca_pools cap_cache) ''ns/a1'' = Some run_a1" by (simp add: cap_cache_def)
  moreover have "rel_option (accounted cap_cache) (gget (ca_pools cap_cache) ''ns/a1'') (gget (ca_pools ca') ''ns/a1'')"
    using acc by blast
  ultimately obtain a1 where "gget (ca_pools ca') ''ns/a1'' = Some a1" "accounted cap_cache run_a1 a1"
    by (auto simp: option_rel_Some1)
  with acc st show ?thesis by blast
qed

theorem assignment_within_capacity_witness:
  "\<exists>ups ca' lease' ps. reconcilePoolStates std_choices cap_cache = Some (ups, ca') \<and>
     assign_pools std_choices fit_lease ups 1 [] = Assigned lease' ps \<and> 1 \<le> length ps \<and>
     within_capacity (with_lease cap_cache ''ns/lease'' lease')"
proof -
  obtain ups ca' a1 where st: "reconcilePoolStates std_choices cap_cache = Some (ups, ca')"
    and a1: "a1 \<in> set ups" "accounted cap_cache run_a1 a1" using cap_state by blast
  have "may_assign fit_lease [] [] a1"
    using a1(2) by (simp add: accounted_def may_assign_def poolMatchesStructural_def name_match_def
        PoolMatchesSelector_def LeaseToleratesPoolTaints_def owns_pool_def cap_capacity used_cpus_def
        used_memory_def cap_unused wrap64_def) (simp add: run_a1_def)
  with a1(1) have "p_Name a1 \<in> candidates fit_lease ups []" by (auto simp: candidates_def)
  moreover have "finite (candidates fit_lease ups [])" by (simp add: candidates_def)
  ultimately have "card (candidates fit_lease ups []) > 0" by (auto simp: card_gt_0_iff)
  then obtain lease' ps where asg: "assign_pools std_choices fit_lease ups 1 [] = Assigned lease' ps" "1 \<le> int (length ps)"
    using assign_pools_unconstrained [OF std_choices_ok, of fit_lease 1 "[]" ups] by (auto simp: fit_lease_def zero_defs)
  have "sizes_ok cap_cache" by (simp add: sizes_ok_def cap_cache_def run_a1_def int64_def)
  moreover have "within_capacity cap_cache"
    by (simp add: within_capacity_def used_cpus_def used_memory_def cap_unused) (simp add: cap_cache_def cap_capacity, simp add: run_a1_def)
  moreover have "gget (ca_leases cap_cache) ''ns/lease'' = Some fit_lease" by (simp add: cap_cache_def)
  ultimately have "within_capacity (with_lease cap_cache ''ns/lease'' lease')"
    by (rule assignment_within_capacity [OF std_choices_ok std_choices_ok inventory_cache_ok [OF cap_inventory] _ _ _ st asg(1)])
  with st asg show ?thesis by auto
qed

end
