(* ===== verification/Controllers.thy ===== *)
theory Controllers
  imports PoolState LeaseMetrics Conditions
begin

text \<open>
  The other controllers: \<open>PoolReconciler.Reconcile\<close> (\<^verbatim>\<open>pkg/controller/pools.go\<close>),
  \<open>NetworkReconciler.Reconcile\<close> (\<^verbatim>\<open>networks.go\<close>) and \<open>NamespaceReconciler.PruneAbandonedLeases\<close>
  (\<^verbatim>\<open>namespaces.go\<close>), with the metrics each of them sets.
\<close>

section \<open>Pools\<close>

definition set_pool_finalizers :: "string list option \<Rightarrow> Pool \<Rightarrow> Pool" where
  "set_pool_finalizers fs pool = pool\<lparr>p_Meta := (p_Meta pool)\<lparr>om_Finalizers := fs\<rparr>\<rparr>"

definition p_ShortName :: "Pool \<Rightarrow> string" where
  "p_ShortName pool = fd_ShortName (ps_FailureDomain (p_Spec pool))"

definition set_short_name :: "string \<Rightarrow> Pool \<Rightarrow> Pool" where
  "set_short_name n pool =
     pool\<lparr>p_Spec := (p_Spec pool)\<lparr>ps_FailureDomain := (ps_FailureDomain (p_Spec pool))\<lparr>fd_ShortName := n\<rparr>\<rparr>\<rparr>"

definition delete_pool_step :: "'s api \<Rightarrow> string \<Rightarrow> 's world \<Rightarrow> Pool \<Rightarrow> reconcile_result \<times> 's world" where
  "delete_pool_step api poolKey w pool =
     (if om_Finalizers (p_Meta pool) \<noteq> None then
        (case api_update_pool api (set_pool_finalizers None pool) (w_server w) of
           (Inl err, s) \<Rightarrow> (Failed (''error updating pool: '' @ err), set_server s w)
         | (Inr answer, s) \<Rightarrow> (Done, drop_pool poolKey (set_server s w)))
      else (Done, drop_pool poolKey w))"

definition pool_finalizer_step ::
  "'s api \<Rightarrow> 's world \<Rightarrow> Pool \<Rightarrow> (reconcile_result \<times> 's world) + ('s world \<times> Pool)" where
  "pool_finalizer_step api w pool =
     (if om_Finalizers (p_Meta pool) = None then
        (case api_update_pool api (set_pool_finalizers (Some [PoolFinalizer]) pool) (w_server w) of
           (Inl err, s) \<Rightarrow> Inl (Failed (''error setting pool finalizer: '' @ err), set_server s w)
         | (Inr answer, s) \<Rightarrow> Inr (set_server s w, answer))
      else Inr (w, pool))"

text \<open>The short name of a pool: a random one when it has none, and no underscore in it; the flag tells whether to store it.\<close>

definition fix_short_name :: "string \<Rightarrow> Pool \<Rightarrow> bool \<times> Pool" where
  "fix_short_name randomName pool =
     (let (needed, pool) =
            (if p_ShortName pool = [] then (True, set_short_name (str_replace (CHR ''_'') (CHR ''-'') randomName) pool)
             else (False, pool))
      in if str_contains (p_ShortName pool) ''_''
         then (True, set_short_name (str_replace (CHR ''_'') (CHR ''-'') (p_ShortName pool)) pool)
         else (needed, pool))"

definition short_name_step ::
  "'s api \<Rightarrow> 's world \<Rightarrow> Pool \<Rightarrow> (reconcile_result \<times> 's world) + ('s world \<times> Pool)" where
  "short_name_step api w pool =
     (case fix_short_name (api_name api) pool of
        (False, pool) \<Rightarrow> Inr (w, pool)
      | (True, pool) \<Rightarrow>
          (case api_update_pool api pool (w_server w) of
             (Inl err, s) \<Rightarrow> Inl (Failed (''error setting pool short name: '' @ err), set_server s w)
           | (Inr answer, s) \<Rightarrow> Inr (set_server s w, answer)))"

definition init_pool_status :: "Pool \<Rightarrow> Pool" where
  "init_pool_status pool =
     (if \<not> pst_Initialized (p_Status pool)
      then pool\<lparr>p_Status := (p_Status pool)\<lparr>pst_VCpusAvailable := ps_VCpus (p_Spec pool),
             pst_MemoryAvailable := ps_Memory (p_Spec pool), pst_Initialized := True\<rparr>\<rparr>
      else pool)"

text \<open>
  The loop over the reconciled pools: the status of each one with the name of the request is copied to the pool
  at hand and stored. When the result is the pool at hand (same key), copying changes nothing.
\<close>

fun store_status_loop ::
  "'s api \<Rightarrow> string \<Rightarrow> string \<Rightarrow> Pool gomap \<Rightarrow> 's world \<times> Pool \<Rightarrow> (reconcile_result \<times> 's world) + ('s world \<times> Pool)" where
  "store_status_loop api name poolKey [] acc = Inr acc"
| "store_status_loop api name poolKey ((key, reconciledPool) # rest) (w, pool) =
     (if p_Name (if key = poolKey then pool else reconciledPool) = name then
        (let pool = (if key = poolKey then pool else pool\<lparr>p_Status := p_Status reconciledPool\<rparr>) in
         case api_status_pool api pool (w_server w) of
           (Inl err, s) \<Rightarrow>
             Inl (Failed (''error updating pool status: '' @ err), put_pool poolKey pool (set_server s w))
         | (Inr answer, s) \<Rightarrow>
             store_status_loop api name poolKey rest (put_pool poolKey answer (set_server s w), answer))
      else store_status_loop api name poolKey rest (w, pool))"

definition int_metric :: "string \<Rightarrow> string gomap \<Rightarrow> int \<Rightarrow> metric" where
  "int_metric name labels v = MSet name labels (f64_of_int v)"

definition pool_gauges :: "string gomap \<Rightarrow> Pool \<Rightarrow> metric list" where
  "pool_gauges labels pool =
     [int_metric ''pool_memory_available'' labels (pst_MemoryAvailable (p_Status pool)),
      int_metric ''pool_memory_total'' labels (ps_Memory (p_Spec pool)),
      int_metric ''pool_networks_available'' labels (pst_NetworkAvailable (p_Status pool)),
      int_metric ''pool_networks_total'' labels (int (length (tp_Networks (p_Topology pool)))),
      int_metric ''pool_cpus_available'' labels (pst_VCpusAvailable (p_Status pool)),
      int_metric ''pool_cpus_total'' labels (ps_VCpus (p_Spec pool)),
      int_metric ''leases_in_use'' labels (pst_LeaseCount (p_Status pool))]"

definition pool_ratios :: "string gomap \<Rightarrow> Pool \<Rightarrow> metric list" where
  "pool_ratios labels pool =
     (let ratio = (case ParseFloat (ps_OverCommitRatio (p_Spec pool)) 64 of Some r \<Rightarrow> r | None \<Rightarrow> Fin 1);
          effectiveCpus = f64_mul (f64_of_int (ps_VCpus (p_Spec pool))) ratio;
          memory = ps_Memory (p_Spec pool);
          networksTotal = f64_of_int (int (length (tp_Networks (p_Topology pool))))
      in (if f64_lt (Fin 0) effectiveCpus
          then [MSet ''pool_vcpus_utilization_ratio'' labels
                  (f64_div (f64_sub effectiveCpus (f64_of_int (pst_VCpusAvailable (p_Status pool)))) effectiveCpus)]
          else []) @
         (if memory > 0
          then [MSet ''pool_memory_utilization_ratio'' labels
                  (f64_div (f64_of_int (wrap64 (memory - pst_MemoryAvailable (p_Status pool)))) (f64_of_int memory))]
          else []) @
         (if f64_lt (Fin 0) networksTotal
          then [MSet ''pool_networks_utilization_ratio'' labels
                  (f64_div (f64_sub networksTotal (f64_of_int (pst_NetworkAvailable (p_Status pool)))) networksTotal)]
          else []))"

definition pool_flags :: "string gomap \<Rightarrow> Pool \<Rightarrow> metric list" where
  "pool_flags labels pool =
     [MSet ''pool_no_schedule'' labels (Fin (if ps_NoSchedule (p_Spec pool) then 1 else 0)),
      MSet ''pool_excluded'' labels (Fin (if ps_Exclude (p_Spec pool) then 1 else 0))]"

definition pool_metrics :: "request \<Rightarrow> Pool \<Rightarrow> metric list" where
  "pool_metrics req pool =
     (let labels = [(''namespace'', rq_Namespace req), (''pool'', rq_Name req)]
      in pool_gauges labels pool @ pool_ratios labels pool @ pool_flags labels pool)"

definition live_pool_step ::
  "choices \<Rightarrow> 's api \<Rightarrow> request \<Rightarrow> string \<Rightarrow> 's world \<Rightarrow> Pool \<Rightarrow> (reconcile_result \<times> 's world) option" where
  "live_pool_step os api req poolKey w pool =
     (case pool_finalizer_step api w pool of
        Inl r \<Rightarrow> Some r
      | Inr (w, pool) \<Rightarrow>
          (case short_name_step api w pool of
             Inl r \<Rightarrow> Some r
           | Inr (w, pool) \<Rightarrow>
               let w = put_pool poolKey (init_pool_status pool) w in
               do { (reconciledPools, ca) \<leftarrow> pool_states os (w_cache w);
                    let w = w\<lparr>w_cache := ca\<rparr>;
                    pool \<leftarrow> gget (ca_pools ca) poolKey;
                    Some (case store_status_loop api (rq_Name req) poolKey reconciledPools (w, pool) of
                            Inl r \<Rightarrow> r
                          | Inr (w, pool) \<Rightarrow> (Done, emit (pool_metrics req pool) w)) }))"

definition PoolReconcile :: "choices \<Rightarrow> 's api \<Rightarrow> request \<Rightarrow> 's world \<Rightarrow> (reconcile_result \<times> 's world) option" where
  "PoolReconcile os api req w =
     (let poolKey = object_key (rq_Namespace req) (rq_Name req) in
      case api_get_pool api (rq_Namespace req) (rq_Name req) (w_server w) of
        Inl err \<Rightarrow> Some (ignore_not_found err, w)
      | Inr pool \<Rightarrow>
          if om_DeletionTimestamp (p_Meta pool) \<noteq> None then Some (delete_pool_step api poolKey w pool)
          else live_pool_step os api req poolKey w pool)"

section \<open>Networks\<close>

definition set_network_finalizers :: "string list option \<Rightarrow> Network \<Rightarrow> Network" where
  "set_network_finalizers fs network = network\<lparr>n_Meta := (n_Meta network)\<lparr>om_Finalizers := fs\<rparr>\<rparr>"

text \<open>The code deletes the key from the map of pools.\<close>

definition delete_network_step :: "'s api \<Rightarrow> string \<Rightarrow> 's world \<Rightarrow> Network \<Rightarrow> reconcile_result \<times> 's world" where
  "delete_network_step api networkKey w network =
     (if om_Finalizers (n_Meta network) \<noteq> None then
        (case api_update_network api (set_network_finalizers None network) (w_server w) of
           (Inl err, s) \<Rightarrow> (Failed (''error updating network: '' @ err), set_server s w)
         | (Inr answer, s) \<Rightarrow> (Done, drop_pool networkKey (set_server s w)))
      else (Done, drop_pool networkKey w))"

definition NetworkReconcile :: "'s api \<Rightarrow> request \<Rightarrow> 's world \<Rightarrow> reconcile_result \<times> 's world" where
  "NetworkReconcile api req w =
     (let networkKey = object_key (rq_Namespace req) (rq_Name req) in
      case api_get_network api (rq_Namespace req) (rq_Name req) (w_server w) of
        Inl err \<Rightarrow> (ignore_not_found err, w)
      | Inr network \<Rightarrow>
          if om_DeletionTimestamp (n_Meta network) \<noteq> None then delete_network_step api networkKey w network
          else if om_Finalizers (n_Meta network) = None then
            (case api_update_network api (set_network_finalizers (Some [NetworkFinalizer]) network) (w_server w) of
               (Inl err, s) \<Rightarrow> (Failed (''error setting network finalizer: '' @ err), set_server s w)
             | (Inr answer, s) \<Rightarrow> (Done, put_network networkKey answer (set_server s w)))
          else (Done, put_network networkKey network w))"

section \<open>Namespaces\<close>

definition abandoned :: "string list \<Rightarrow> Lease \<Rightarrow> bool" where
  "abandoned namespaces lease =
     (case gget (l_Labels lease) LeaseNamespace of
        None \<Rightarrow> False
      | Some leaseNs \<Rightarrow> \<not> list_ex (\<lambda>ns. ns = leaseNs) namespaces)"

fun delete_leases :: "'s api \<Rightarrow> Lease list \<Rightarrow> 's \<Rightarrow> 's" where
  "delete_leases api [] s = s"
| "delete_leases api (lease # rest) s = delete_leases api rest (snd (api_delete_lease api lease s))"

definition PruneAbandonedLeases :: "choices \<Rightarrow> 's api \<Rightarrow> 's world \<Rightarrow> 's world" where
  "PruneAbandonedLeases os api w =
     (case api_list_namespaces api (w_server w) of
        Inl err \<Rightarrow> w
      | Inr namespaces \<Rightarrow>
          let leasesToDelete = filter (abandoned namespaces) (range_vals os (ca_leases (w_cache w)))
          in set_server (delete_leases api leasesToDelete (w_server w)) w)"

end
