(* ===== verification/LeaseReconcile.thy ===== *)
theory LeaseReconcile
  imports Triggers LeaseQueue PoolCapacity Controllers
begin

text \<open>
  \<open>LeaseReconciler.Reconcile\<close> of \<^verbatim>\<open>pkg/controller/leases.go\<close>, from the request to the stored lease. The
  handler is cut into steps in the order of the code. A step ends the reconcile (\<open>Inl\<close>) or hands the
  lease on (\<open>Inr\<close>); \<open>None\<close> is a panic. From \<open>leases[leaseKey] = lease\<close> on the cache holds the pointer to the
  lease, so a step that reads the cache or ends the reconcile first puts the current lease there.
\<close>

section \<open>Steps\<close>

type_synonym 's finished = "reconcile_result \<times> 's world"

abbreviation "LEASE_PENDING_RETRY_INTERVAL \<equiv> 30"
abbreviation "LEASE_PARTIAL_RETRY_INTERVAL \<equiv> 30"

definition transition_event :: "string \<Rightarrow> Lease \<Rightarrow> metric" where
  "transition_event phase lease =
     MInc ''lease_transitions_total'' [(''namespace'', l_Namespace lease), (''networkType'', ls_NetworkType (l_Spec lease)),
       (''phase'', phase)]"

definition init_step :: "choices \<Rightarrow> 's api \<Rightarrow> 's world \<Rightarrow> Lease \<Rightarrow> 's finished + 's world \<times> Lease" where
  "init_step os api w lease =
     (if l_Phase lease = [] then
        let lease' = init_status os lease; w = emit [transition_event PHASE_PENDING lease] w in
        (case api_status_lease api lease' (w_server w) of
           (Inl err, s) \<Rightarrow>
             Inl (Failed (''unable to set the initial status on the lease '' @ l_Name lease @ '': '' @ err), set_server s w)
         | (Inr answer, s) \<Rightarrow> Inr (set_server s w, answer))
      else Inr (w, lease))"

definition set_finalizers :: "string list option \<Rightarrow> Lease \<Rightarrow> Lease" where
  "set_finalizers fs lease = lease\<lparr>l_Meta := (l_Meta lease)\<lparr>om_Finalizers := fs\<rparr>\<rparr>"

definition finalizer_step :: "'s api \<Rightarrow> 's world \<Rightarrow> Lease \<Rightarrow> 's finished + 's world \<times> Lease" where
  "finalizer_step api w lease =
     (if om_Finalizers (l_Meta lease) = None then
        (case api_update_lease api (set_finalizers (Some [LeaseFinalizer]) lease) (w_server w) of
           (Inl err, s) \<Rightarrow> Inl (Failed (''error setting lease finalizer: '' @ err), set_server s w)
         | (Inr answer, s) \<Rightarrow> Inr (set_server s w, answer))
      else Inr (w, lease))"

subsection \<open>Deletion\<close>

definition drop_finalizer :: "Lease \<Rightarrow> Lease" where
  "drop_finalizer lease =
     (case om_Finalizers (l_Meta lease) of
        None \<Rightarrow> lease
      | Some fs \<Rightarrow>
          let preserved = filter (\<lambda>f. f \<noteq> LeaseFinalizer) fs
          in set_finalizers (if preserved = [] then None else Some preserved) lease)"

definition settle :: "choices \<Rightarrow> 's api \<Rightarrow> string \<Rightarrow> 's world \<Rightarrow> 's world option" where
  "settle os api networkType w =
     updateLeaseMetrics (sub 2 os) (triggerLeaseUpdates (sub 1 os) api networkType (triggerPoolUpdates (sub 0 os) api w))"

definition delete_step :: "choices \<Rightarrow> 's api \<Rightarrow> request \<Rightarrow> string \<Rightarrow> 's world \<Rightarrow> Lease \<Rightarrow> 's finished option" where
  "delete_step os api req leaseKey w lease =
     (case api_update_lease api (drop_finalizer lease) (w_server w) of
        (Inl err, s) \<Rightarrow> Some (Failed (''error dropping finalizers from lease: '' @ err), set_server s w)
      | (Inr answer, s) \<Rightarrow>
          let w = drop_lease leaseKey (set_server s w);
              w = (case DoesLeaseHavePool answer of
                     None \<Rightarrow> w
                   | Some ownRef \<Rightarrow> emit [MDec ''leases_in_use'' [(''namespace'', rq_Namespace req), (''pool'', or_Name ownRef)]] w)
          in do { (pools, ca) \<leftarrow> reconcilePoolStates (sub 0 os) (w_cache w);
                  w \<leftarrow> settle (sub 1 os) api (ls_NetworkType (l_Spec answer)) (w\<lparr>w_cache := ca\<rparr>);
                  Some (Done, w) })"

subsection \<open>Failing an unsatisfiable lease\<close>

definition restore_status :: "Lease \<Rightarrow> Lease \<Rightarrow> Lease" where
  "restore_status from lease = lease\<lparr>l_Status := l_Status from\<rparr>"

definition fail_step :: "choices \<Rightarrow> 's api \<Rightarrow> string \<Rightarrow> 's world \<Rightarrow> Lease \<Rightarrow> 's finished option" where
  "fail_step os api leaseKey w lease =
     (case api_update_lease api lease (w_server w) of
        (Inl err, s) \<Rightarrow>
          Some (Failed (''error releasing owner refs for unschedulable lease: '' @ err), put_lease leaseKey lease (set_server s w))
      | (Inr answer, s) \<Rightarrow>
          let lease = restore_status lease answer;
              w = emit [transition_event PHASE_FAILED lease] (set_server s w) in
          (case api_status_lease api lease (w_server w) of
             (Inl err, s) \<Rightarrow>
               Some (Failed (''error updating lease status to Failed: '' @ err), put_lease leaseKey lease (set_server s w))
           | (Inr answer, s) \<Rightarrow>
               do { w \<leftarrow> settle os api (ls_NetworkType (l_Spec answer)) (put_lease leaseKey answer (set_server s w));
                    Some (Done, w) }))"

subsection \<open>Waiting\<close>

definition pending_again :: "choices \<Rightarrow> 's world \<Rightarrow> Lease \<Rightarrow> 's world \<times> Lease" where
  "pending_again os w lease =
     (if l_Phase lease = [] then
        (emit [transition_event PHASE_PENDING lease] w, set_conds os pending_conditions (set_phase PHASE_PENDING lease))
      else (w, lease))"

definition default_network_type :: "Lease \<Rightarrow> Lease" where
  "default_network_type lease =
     (if ls_NetworkType (l_Spec lease) = [] then lease\<lparr>l_Spec := (l_Spec lease)\<lparr>ls_NetworkType := NetworkTypeSingleTenant\<rparr>\<rparr>
      else lease)"

definition delayed_conditions :: "Condition list" where
  "delayed_conditions =
     [TrueCondition LeaseConditionTypeDelayed,
      FalseConditionWithReason LeaseConditionTypeFulfilled ReasonLeaseDelayed ConditionSeverityInfo
        ''lease is being delayed due to presence of higher priority leases'']"

definition delay_step :: "choices \<Rightarrow> 's api \<Rightarrow> string \<Rightarrow> 's world \<Rightarrow> Lease \<Rightarrow> 's finished option" where
  "delay_step os api leaseKey w lease =
     (let w = emit [MInc ''lease_delays_total'' [(''namespace'', l_Namespace lease),
            (''networkType'', ls_NetworkType (l_Spec lease))]] w;
          lease = set_conds (sub 0 os) delayed_conditions lease in
      case api_status_lease api lease (w_server w) of
        (Inl err, s) \<Rightarrow> Some (Failed err, put_lease leaseKey lease (set_server s w))
      | (Inr answer, s) \<Rightarrow>
          do { w \<leftarrow> updateLeaseMetrics (sub 2 os) (triggerLeaseUpdates (sub 1 os) api (ls_NetworkType (l_Spec answer))
                 (put_lease leaseKey answer (set_server s w)));
               Some (RequeueAfter LEASE_PENDING_RETRY_INTERVAL, w) })"

subsection \<open>Pools\<close>

fun fetch_pools :: "'s api \<Rightarrow> string \<Rightarrow> 's \<Rightarrow> OwnerReference list \<Rightarrow> string + Pool list" where
  "fetch_pools api ns s [] = Inr []"
| "fetch_pools api ns s (poolRef # refs) =
     (case api_get_pool api ns (or_Name poolRef) s of
        Inl err \<Rightarrow> Inl (''error getting assigned pool '' @ or_Name poolRef @ '': '' @ err_text err)
      | Inr pool \<Rightarrow> (case fetch_pools api ns s refs of Inl err \<Rightarrow> Inl err | Inr pools \<Rightarrow> Inr (pool # pools)))"

definition released_condition :: "int \<Rightarrow> string \<Rightarrow> Condition" where
  "released_condition n reason =
     FalseConditionWithReason LeaseConditionTypeFulfilled ReasonLeaseNoPool ConditionSeverityWarning
       (''Released '' @ show_int n @ '' pools due to '' @ reason @ '' constraint, retrying'')"

definition release_step ::
  "choices \<Rightarrow> 's api \<Rightarrow> string \<Rightarrow> 's world \<Rightarrow> Lease \<Rightarrow> int \<Rightarrow> string \<Rightarrow> 's finished option" where
  "release_step os api leaseKey w lease n reason =
     (let lease = release_refs lease in
      case api_update_lease api lease (w_server w) of
        (Inl err, s) \<Rightarrow> Some (Failed err, put_lease leaseKey lease (set_server s w))
      | (Inr answer, s) \<Rightarrow>
          let w = set_server s w;
              lease = cond_Set (sub 0 os) (released_condition n reason) (clear_assignment answer) in
          (case api_status_lease api lease (w_server w) of
             (Inl err, s) \<Rightarrow> Some (Failed err, put_lease leaseKey lease (set_server s w))
           | (Inr answer, s) \<Rightarrow>
               do { w \<leftarrow> updateLeaseMetrics (sub 1 os) (put_lease leaseKey answer (set_server s w));
                    Some (RequeueAfter LEASE_PENDING_RETRY_INTERVAL, w) }))"

definition no_pool_step :: "choices \<Rightarrow> 's api \<Rightarrow> string \<Rightarrow> 's world \<Rightarrow> Lease \<Rightarrow> string \<Rightarrow> 's finished option" where
  "no_pool_step os api leaseKey w lease err =
     (let lease = cond_Set (sub 0 os)
            (FalseConditionWithReason LeaseConditionTypeFulfilled ReasonLeaseNoPool ConditionSeverityWarning err) lease;
          w = (case api_status_lease api lease (w_server w) of
                 (Inl uErr, s) \<Rightarrow> put_lease leaseKey lease (set_server s w)
               | (Inr answer, s) \<Rightarrow> put_lease leaseKey answer (set_server s w))
      in do { w \<leftarrow> updateLeaseMetrics (sub 1 os) w;
              Some (RequeueAfter LEASE_PENDING_RETRY_INTERVAL, w) })"

subsection \<open>Networks\<close>

definition publish_first_pool :: "Pool \<Rightarrow> Lease \<Rightarrow> Lease" where
  "publish_first_pool pool lease =
     (let fd = ps_FailureDomain (p_Spec pool);
          st = l_Status lease
      in lease\<lparr>l_Status := st\<lparr>lst_FailureDomain := fd\<lparr>fd_Topology := (fd_Topology fd)\<lparr>tp_Networks := []\<rparr>\<rparr>,
           lst_EnvVarsMap := Some (case lst_EnvVarsMap st of None \<Rightarrow> [] | Some m \<Rightarrow> m)\<rparr>\<rparr>)"

definition siblingPoolsForNetworkCommonality ::
  "choices \<Rightarrow> 's api \<Rightarrow> 's world \<Rightarrow> Lease \<Rightarrow> string + Pool list" where
  "siblingPoolsForNetworkCommonality os api w lease =
     (if network_only lease then Inr []
      else if gget (l_Labels lease) BoskosIdLabel = None then Inr []
      else case api_list_leases api (l_Namespace lease) (w_server w) of
        Inl err \<Rightarrow> Inl err
      | Inr items \<Rightarrow> Inr (resolveSiblingPools os (w_cache w) lease items))"

definition common_port_groups ::
  "choices \<Rightarrow> 's api \<Rightarrow> bool \<Rightarrow> 's world \<Rightarrow> Lease \<Rightarrow> Pool list \<Rightarrow> bool gomap option option" where
  "common_port_groups os api allow w lease assignedPools =
     (let commonalityPools = assignedPools @
            (case siblingPoolsForNetworkCommonality (sub 0 os) api w lease of Inl err \<Rightarrow> [] | Inr pools \<Rightarrow> pools)
      in if length commonalityPools > 1
         then map_option Some (commonPortGroupNames (sub 1 os) (w_cache w) allow commonalityPools (ls_NetworkType (l_Spec lease)))
         else Some None)"

text \<open>The lease after all its pools have been given networks and environment variables.\<close>

definition network_step ::
  "choices \<Rightarrow> 's api \<Rightarrow> bool \<Rightarrow> string \<Rightarrow> 's world \<Rightarrow> Lease \<Rightarrow> Pool list \<Rightarrow> Lease option" where
  "network_step os api allow leaseKey w lease assignedPools =
     (case assignedPools of
        [] \<Rightarrow> None
      | pool # _ \<Rightarrow>
          let lease = publish_first_pool pool lease;
              w = put_lease leaseKey lease w;
              vlanToNetworks = existing_vlans (sub 0 os) (w_cache w) (l_OwnerReferences lease) []
          in do { commonPortGroups \<leftarrow> common_port_groups (sub 1 os) api allow w lease assignedPools;
                  (lease, vlans) \<leftarrow> assign_networks (sub 2 os) (w_cache w) leaseKey allow commonPortGroups 0 assignedPools
                    (lease, vlanToNetworks);
                  Some lease })"

subsection \<open>The published status\<close>

definition network_path :: "string \<Rightarrow> string \<Rightarrow> string" where
  "network_path datacenter portGroup = CHR ''/'' # datacenter @ ''/network/'' @ portGroup"

definition assigned_paths :: "Pool \<Rightarrow> Network gomap \<Rightarrow> OwnerReference list \<Rightarrow> string list" where
  "assigned_paths pool poolNetworksMap refs =
     concat (map (\<lambda>ref. if or_Kind ref = ''Network'' then
         (case gget poolNetworksMap (or_Name ref) of
            None \<Rightarrow> [] | Some net \<Rightarrow> [network_path (tp_Datacenter (p_Topology pool)) (n_PortGroupName net)])
       else []) refs)"

fun pool_info :: "choices \<Rightarrow> cache \<Rightarrow> Lease \<Rightarrow> Pool list \<Rightarrow> FailureDomainSpec list option" where
  "pool_info os ca lease [] = Some []"
| "pool_info os ca lease (pool # pools) =
     do { poolNetworksMap \<leftarrow> getNetworksForPool (sub 0 os) ca pool;
          let fd = ps_FailureDomain (p_Spec pool);
          rest \<leftarrow> pool_info (sub 1 os) ca lease pools;
          Some (fd\<lparr>fd_Topology := (fd_Topology fd)\<lparr>tp_Networks :=
            assigned_paths pool poolNetworksMap (l_OwnerReferences lease)\<rparr>\<rparr> # rest) }"

fun all_networks :: "choices \<Rightarrow> cache \<Rightarrow> string \<Rightarrow> OwnerReference list \<Rightarrow> string list \<Rightarrow> string list" where
  "all_networks os ca datacenter [] allNetworks = allNetworks"
| "all_networks os ca datacenter (ref # refs) allNetworks =
     all_networks (sub 1 os) ca datacenter refs
       (if or_Kind ref = ''Network'' then
          (case find (\<lambda>net. n_Name net = or_Name ref) (range_vals (sub 0 os) (ca_networks ca)) of
             None \<Rightarrow> allNetworks
           | Some net \<Rightarrow>
               let networkPath = network_path datacenter (n_PortGroupName net) in
               if networkPath \<in> set allNetworks then allNetworks else allNetworks @ [networkPath])
        else allNetworks)"

fun networks_per_pool :: "choices \<Rightarrow> cache \<Rightarrow> Lease \<Rightarrow> Pool list \<Rightarrow> int gomap \<Rightarrow> int gomap option" where
  "networks_per_pool os ca lease [] m = Some m"
| "networks_per_pool os ca lease (pool # pools) m =
     do { poolNetworksMap \<leftarrow> getNetworksForPool (sub 0 os) ca pool;
          networks_per_pool (sub 1 os) ca lease pools (gset (p_Name pool) (count_pool_networks lease poolNetworksMap) m) }"

definition all_pools_have_networks :: "int \<Rightarrow> int gomap \<Rightarrow> bool" where
  "all_pools_have_networks needed m = list_all (\<lambda>(poolName, count). \<not> count < needed) m"

definition min_networks :: "int \<Rightarrow> int gomap \<Rightarrow> int" where
  "min_networks needed m = foldl (\<lambda>least (poolName, count). if count < least then count else least) needed m"

subsection \<open>Fulfilled or partial\<close>

definition partial_reason :: "Lease \<Rightarrow> Pool list \<Rightarrow> int \<Rightarrow> bool \<Rightarrow> int \<Rightarrow> string" where
  "partial_reason lease assignedPools requiredPools allPoolsHaveNetworks minNetworksAssigned =
     (if \<not> int (length assignedPools) \<ge> requiredPools then
        ''lease is currently assigned '' @ show_int (int (length assignedPools)) @ '' of '' @ show_int requiredPools @ '' pools'' @
        (let used = int (length (GetVCentersInUse assignedPools)); needed = ls_MinVCenters (l_Spec lease) in
         if needed > 0 \<and> used < needed
         then '', spanning '' @ show_int used @ '' of '' @ show_int needed @ '' required vCenters'' else [])
      else if \<not> allPoolsHaveNetworks then
        ''pools do not all have required networks (need '' @ show_int (ls_Networks (l_Spec lease)) @
        '' networks per pool, minimum assigned: '' @ show_int minNetworksAssigned @ '')''
      else ''lease is partially fulfilled'')"

definition fulfilled_conditions :: "Condition list" where
  "fulfilled_conditions = [TrueCondition LeaseConditionTypeFulfilled, FalseCondition LeaseConditionTypePending,
     FalseCondition LeaseConditionTypePartial]"

definition partial_conditions :: "string \<Rightarrow> Condition list" where
  "partial_conditions reason = [FalseCondition LeaseConditionTypePending,
     FalseConditionWithReason LeaseConditionTypeFulfilled ReasonLeasePartial ConditionSeverityInfo reason,
     TrueCondition LeaseConditionTypePartial]"

definition set_pool_info :: "FailureDomainSpec list \<Rightarrow> string list \<Rightarrow> Lease \<Rightarrow> Lease" where
  "set_pool_info infos networks lease =
     set_status_networks networks (lease\<lparr>l_Status := (l_Status lease)\<lparr>lst_PoolInfo := infos\<rparr>\<rparr>)"

definition conclude :: "choices \<Rightarrow> Lease \<Rightarrow> Pool list \<Rightarrow> int \<Rightarrow> int gomap \<Rightarrow> Lease" where
  "conclude os lease assignedPools requiredPools networksPerPoolActual =
     (let needed = ls_Networks (l_Spec lease);
          allPoolsHaveNetworks = all_pools_have_networks needed networksPerPoolActual
      in if int (length assignedPools) \<ge> requiredPools \<and> allPoolsHaveNetworks
         then set_conds os fulfilled_conditions (set_phase PHASE_FULFILLED lease)
         else set_conds os (partial_conditions (partial_reason lease assignedPools requiredPools allPoolsHaveNetworks
                (min_networks needed networksPerPoolActual))) (set_phase PHASE_PARTIAL lease))"

text \<open>The status computed from the owner references; the result is the lease to be stored.\<close>

definition status_step :: "choices \<Rightarrow> cache \<Rightarrow> Lease \<Rightarrow> Pool list \<Rightarrow> int \<Rightarrow> Lease option" where
  "status_step os ca lease assignedPools requiredPools =
     do { infos \<leftarrow> pool_info (sub 0 os) ca lease assignedPools;
          let networks = all_networks (sub 1 os) ca (tp_Datacenter (p_Topology (hd assignedPools))) (l_OwnerReferences lease) [];
          counts \<leftarrow> networks_per_pool (sub 2 os) ca lease assignedPools [];
          Some (conclude (sub 3 os) (set_pool_info infos networks lease) assignedPools requiredPools
            (range_map (sub 4 os) counts)) }"

subsection \<open>Storing the lease\<close>

definition missing_step :: "choices \<Rightarrow> 's api \<Rightarrow> string \<Rightarrow> 's world \<Rightarrow> Lease \<Rightarrow> 's finished option" where
  "missing_step os api leaseKey w lease =
     (case api_update_lease api lease (w_server w) of
        (Inl err, s) \<Rightarrow> Some (Failed (''error updating lease owner references: '' @ err), put_lease leaseKey lease (set_server s w))
      | (Inr answer, s) \<Rightarrow>
          do { w \<leftarrow> updateLeaseMetrics os (put_lease leaseKey answer (set_server s w));
               Some (RequeueAfter LEASE_PARTIAL_RETRY_INTERVAL, w) })"

definition stored_step ::
  "choices \<Rightarrow> 's api \<Rightarrow> request \<Rightarrow> string \<Rightarrow> 's world \<Rightarrow> Lease \<Rightarrow> Pool \<Rightarrow> 's finished option" where
  "stored_step os api req leaseKey w lease pool =
     (let w = put_lease leaseKey lease w in
      if l_Phase lease = PHASE_FULFILLED then
        do { w \<leftarrow> settle os api (ls_NetworkType (l_Spec lease))
               (emit [MAdd ''leases_in_use'' [(''namespace'', rq_Namespace req), (''pool'', p_Name pool)] (Fin 1)] w);
             Some (Done, w) }
      else if l_Phase lease = PHASE_PARTIAL then
        do { w \<leftarrow> updateLeaseMetrics os w; Some (RequeueAfter LEASE_PARTIAL_RETRY_INTERVAL, w) }
      else do { w \<leftarrow> updateLeaseMetrics os w; Some (Done, w) })"

definition persist_step ::
  "choices \<Rightarrow> 's api \<Rightarrow> request \<Rightarrow> string \<Rightarrow> 's world \<Rightarrow> Lease \<Rightarrow> Pool \<Rightarrow> 's finished option" where
  "persist_step os api req leaseKey w lease pool =
     (case api_update_lease api lease (w_server w) of
        (Inl err, s) \<Rightarrow> Some (Failed (''error updating lease, requeuing: '' @ err), put_lease leaseKey lease (set_server s w))
      | (Inr answer, s) \<Rightarrow>
          let lease = restore_status lease answer; w = set_server s w in
          (case api_status_lease api lease (w_server w) of
             (Inl err, s) \<Rightarrow>
               Some (Failed (''error updating lease status, requeuing: '' @ err), put_lease leaseKey lease (set_server s w))
           | (Inr answer, s) \<Rightarrow> stored_step os api req leaseKey (set_server s w) answer pool))"

subsection \<open>The handler\<close>

definition assign_step ::
  "choices \<Rightarrow> 's api \<Rightarrow> bool \<Rightarrow> request \<Rightarrow> string \<Rightarrow> 's world \<Rightarrow> Lease \<Rightarrow> Pool list \<Rightarrow> 's finished option" where
  "assign_step os api allow req leaseKey w lease assignedPools =
     do { lease \<leftarrow> network_step (sub 0 os) api allow leaseKey w lease assignedPools;
          let w = put_lease leaseKey lease w;
          missing \<leftarrow> poolMissingNetworks (sub 1 os) (w_cache w) lease assignedPools;
          (case missing of
             Some poolName \<Rightarrow> missing_step (sub 2 os) api leaseKey w lease
           | None \<Rightarrow>
               do { lease \<leftarrow> status_step (sub 2 os) (w_cache w) lease assignedPools (required_pools lease);
                    persist_step (sub 3 os) api req leaseKey (emit [transition_event (l_Phase lease) lease] w) lease
                      (hd assignedPools) }) }"

definition pools_step ::
  "choices \<Rightarrow> 's api \<Rightarrow> bool \<Rightarrow> request \<Rightarrow> string \<Rightarrow> 's world \<Rightarrow> Lease \<Rightarrow> Pool list \<Rightarrow> 's finished option" where
  "pools_step os api allow req leaseKey w lease updatedPools =
     (case fetch_pools api (rq_Namespace req) (w_server w) (GetLeasePoolRefs lease) of
        Inl err \<Rightarrow> Some (Failed err, put_lease leaseKey lease w)
      | Inr assignedPools \<Rightarrow>
          (case assign_pools (sub 0 os) lease updatedPools (required_pools lease) assignedPools of
             Released lease n reason \<Rightarrow> release_step (sub 1 os) api leaseKey w lease n reason
           | NoPoolLeft lease err \<Rightarrow> no_pool_step (sub 1 os) api leaseKey w lease err
           | Assigned lease pools \<Rightarrow> assign_step (sub 1 os) api allow req leaseKey w lease pools))"

definition live_step ::
  "choices \<Rightarrow> 's api \<Rightarrow> bool \<Rightarrow> request \<Rightarrow> string \<Rightarrow> 's world \<Rightarrow> Lease \<Rightarrow> 's finished option" where
  "live_step os api allow req leaseKey w lease =
     (let w = put_lease leaseKey lease w in
      if l_Phase lease = PHASE_FULFILLED \<or> l_Phase lease = PHASE_FAILED then Some (Done, w)
      else do {
        (updatedPools, ca) \<leftarrow> reconcilePoolStates (sub 0 os) (w_cache w);
        let w = w\<lparr>w_cache := ca\<rparr>;
        (case failLeaseIfUnsatisfiable (sub 1 os) lease updatedPools of
           (True, lease) \<Rightarrow> fail_step (sub 2 os) api leaseKey w lease
         | (False, lease) \<Rightarrow>
             let (w, lease) = pending_again (sub 3 os) w lease;
                 lease = default_network_type lease;
                 w = put_lease leaseKey lease w in
             if shouldLeaseBeDelayed (sub 4 os) (w_cache w) lease
             then delay_step (sub 5 os) api leaseKey w lease
             else pools_step (sub 6 os) api allow req leaseKey w
                    (cond_Set (sub 7 os) (FalseCondition LeaseConditionTypeDelayed) lease) updatedPools) })"

definition LeaseReconcile :: "choices \<Rightarrow> 's api \<Rightarrow> bool \<Rightarrow> request \<Rightarrow> 's world \<Rightarrow> 's finished option" where
  "LeaseReconcile os api allow req w =
     (let leaseKey = object_key (rq_Namespace req) (rq_Name req) in
      case api_get_lease api (rq_Namespace req) (rq_Name req) (w_server w) of
        Inl err \<Rightarrow> Some (ignore_not_found err, w)
      | Inr lease \<Rightarrow>
          (case init_step (sub 0 os) api w lease of
             Inl r \<Rightarrow> Some r
           | Inr (w, lease) \<Rightarrow>
               (case finalizer_step api w lease of
                  Inl r \<Rightarrow> Some r
                | Inr (w, lease) \<Rightarrow>
                    if l_DeletionTimestamp lease \<noteq> None then delete_step (sub 1 os) api req leaseKey w lease
                    else live_step (sub 2 os) api allow req leaseKey w lease)))"

end
