(* ===== verification/LeaseOutcome.thy ===== *)
theory LeaseOutcome
  imports LeaseReconcile
begin

text \<open>
  What the status published by \<open>LeaseReconciler.Reconcile\<close> says about a lease: a fulfilled lease has all
  its pools and networks, what it publishes can be read back, and finished leases are left alone.
\<close>

section \<open>Networks a lease holds in a pool\<close>

definition held :: "cache \<Rightarrow> Lease \<Rightarrow> Pool \<Rightarrow> int" where
  "held ca lease pool = int (length (filter
     (\<lambda>ref. or_Kind ref = ''Network'' \<and> (\<exists>n. net_in_pool ca pool n \<and> n_Name n = or_Name ref)) (l_OwnerReferences lease)))"

lemma count_pool_networks_length:
  "count_pool_networks lease m =
     int (length (filter (\<lambda>ref. or_Kind ref = ''Network'' \<and> gget m (or_Name ref) \<noteq> None) (l_OwnerReferences lease)))"
proof -
  have "foldl (\<lambda>n ref. if P ref then n + 1 else n) i refs = i + int (length (filter P refs))" for P refs and i :: int
    by (induction refs arbitrary: i) auto
  from this [of "\<lambda>ref. or_Kind ref = ''Network'' \<and> gget m (or_Name ref) \<noteq> None" 0 "l_OwnerReferences lease"]
  show ?thesis by (simp only: count_pool_networks_def add_0)
qed

lemma view_some_iff:
  assumes "choices_ok os" "inventory_ok ca" "getNetworksForPool os ca pool = Some m"
  shows "gget m k \<noteq> None \<longleftrightarrow> (\<exists>n. net_in_pool ca pool n \<and> n_Name n = k)"
proof
  assume "gget m k \<noteq> None"
  then show "\<exists>n. net_in_pool ca pool n \<and> n_Name n = k"
    using pn.view_sound [OF assms(1) inventory_cache_ok [OF assms(2)] assms(3)] by blast
next
  assume "\<exists>n. net_in_pool ca pool n \<and> n_Name n = k"
  then show "gget m k \<noteq> None" using pn.view_complete [OF assms] by auto
qed

lemma count_held:
  assumes "choices_ok os" "inventory_ok ca" "getNetworksForPool os ca pool = Some m"
  shows "count_pool_networks lease m = held ca lease pool"
  unfolding count_pool_networks_length held_def view_some_iff [OF assms] by (rule refl)

lemma networks_per_pool_total:
  assumes "choices_ok os" "inventory_ok ca"
  shows "networks_per_pool os ca lease pools m \<noteq> None"
  using assms(1)
proof (induction pools arbitrary: os m)
  case (Cons pool pools)
  obtain nm where "getNetworksForPool (sub 0 os) ca pool = Some nm"
    using pn.view_total [OF _ assms(2), of "sub 0 os" pool] Cons.prems by auto
  with Cons.IH [of "sub 1 os"] Cons.prems show ?case by simp
qed simp

lemma networks_per_pool_entries:
  assumes "choices_ok os" "inventory_ok ca" "gomap_ok m" "networks_per_pool os ca lease pools m = Some m'"
    and "distinct (map p_Name pools)" "\<forall>p \<in> set pools. gget m (p_Name p) = None"
  shows "gomap_ok m' \<and> (\<forall>k v. gget m' k = Some v \<longleftrightarrow>
    gget m k = Some v \<or> (\<exists>p \<in> set pools. p_Name p = k \<and> held ca lease p = v))"
  using assms(1,3-6)
proof (induction pools arbitrary: os m)
  case (Cons pool pools)
  from Cons.prems(3) obtain nm where nm: "getNetworksForPool (sub 0 os) ca pool = Some nm"
    and rest: "networks_per_pool (sub 1 os) ca lease pools (gset (p_Name pool) (count_pool_networks lease nm) m) = Some m'"
    by (auto split: Option.bind_splits)
  have c: "count_pool_networks lease nm = held ca lease pool"
    using count_held [OF _ assms(2) nm] Cons.prems(1) by simp
  let ?m = "gset (p_Name pool) (held ca lease pool) m"
  have "p_Name p \<noteq> p_Name pool" if "p \<in> set pools" for p
  proof -
    have "p_Name pool \<notin> p_Name ` set pools" using Cons.prems(4) by simp
    moreover have "p_Name p \<in> p_Name ` set pools" using that by (rule imageI)
    ultimately show ?thesis by (metis (no_types))
  qed
  then have fresh: "\<forall>p \<in> set pools. gget ?m (p_Name p) = None" using Cons.prems(5) by simp
  have "gomap_ok m' \<and> (\<forall>k v. gget m' k = Some v \<longleftrightarrow>
      gget ?m k = Some v \<or> (\<exists>p \<in> set pools. p_Name p = k \<and> held ca lease p = v))"
    using Cons.IH [OF _ _ rest [unfolded c] _ fresh] Cons.prems(1,2,4) by simp
  moreover have "gget m (p_Name pool) = None" using Cons.prems(5) by simp
  ultimately show ?case by auto
qed simp

lemma all_pools_have_networks_iff:
  assumes "choices_ok os" "choices_ok os'" "inventory_ok ca" "distinct (map p_Name pools)"
    and "networks_per_pool os ca lease pools [] = Some counts"
  shows "all_pools_have_networks needed (range_map os' counts) \<longleftrightarrow> (\<forall>p \<in> set pools. needed \<le> held ca lease p)"
proof -
  have e: "gomap_ok counts" "\<forall>k v. gget counts k = Some v \<longleftrightarrow> (\<exists>p \<in> set pools. p_Name p = k \<and> held ca lease p = v)"
    using networks_per_pool_entries [OF assms(1,3) gomap_ok_Nil assms(5,4)] by simp_all
  have "all_pools_have_networks needed (range_map os' counts) \<longleftrightarrow> (\<forall>(k, v) \<in> set counts. needed \<le> v)"
    unfolding all_pools_have_networks_def list_all_iff set_range_map [OF assms(2) e(1)] by (auto simp: not_less)
  also have "\<dots> \<longleftrightarrow> (\<forall>p \<in> set pools. needed \<le> held ca lease p)"
  proof (intro iffI ballI)
    fix p assume "\<forall>(k, v) \<in> set counts. needed \<le> v" "p \<in> set pools"
    moreover from this(2) have "(p_Name p, held ca lease p) \<in> set counts" using e gomap_in_set_iff [OF e(1)] by blast
    ultimately show "needed \<le> held ca lease p" by blast
  next
    fix kv assume *: "\<forall>p \<in> set pools. needed \<le> held ca lease p" "kv \<in> set counts"
    obtain k v where kv: "kv = (k, v)" by (cases kv)
    with *(2) have "gget counts k = Some v" using gomap_in_set_iff [OF e(1)] by blast
    with e(2) *(1) kv show "case kv of (k, v) \<Rightarrow> needed \<le> v" by auto
  qed
  finally show ?thesis .
qed

section \<open>The concluded lease\<close>

lemma set_pool_info_simps [simp]:
  "l_Meta (set_pool_info i n l) = l_Meta l" "l_Spec (set_pool_info i n l) = l_Spec l"
  "l_Conditions (set_pool_info i n l) = l_Conditions l"
  by (simp_all add: set_pool_info_def set_status_networks_def)

lemma status_step_split:
  assumes "status_step os ca lease pools req = Some lease'"
  shows "\<exists>infos networks counts. pool_info (sub 0 os) ca lease pools = Some infos \<and>
    networks_per_pool (sub 2 os) ca lease pools [] = Some counts \<and>
    networks = all_networks (sub 1 os) ca (tp_Datacenter (p_Topology (hd pools))) (l_OwnerReferences lease) [] \<and>
    lease' = conclude (sub 3 os) (set_pool_info infos networks lease) pools req (range_map (sub 4 os) counts)"
  using assms by (auto simp: status_step_def Let_def split: Option.bind_splits)

lemma set_conds_statuses:
  assumes "choices_ok os" "lease_conds_ok l" "distinct (map c_Type cs)"
  shows "map (\<lambda>c. cond_status (c_Type c) (set_conds os cs l)) cs = map (\<lambda>c. Some (c_Status c)) cs"
  using set_conds_status [OF assms] by simp

definition concluded :: "bool \<Rightarrow> Lease \<Rightarrow> bool" where
  "concluded full l \<longleftrightarrow> l_Phase l = (if full then PHASE_FULFILLED else PHASE_PARTIAL) \<and>
     cond_status LeaseConditionTypeFulfilled l = Some (if full then ConditionTrue else ConditionFalse) \<and>
     cond_status LeaseConditionTypePartial l = Some (if full then ConditionFalse else ConditionTrue) \<and>
     cond_status LeaseConditionTypePending l = Some ConditionFalse"

lemma conclude_concluded:
  assumes "choices_ok os" "lease_conds_ok l"
  shows "concluded (req \<le> int (length pools) \<and> all_pools_have_networks (ls_Networks (l_Spec l)) counts)
    (conclude os l pools req counts)"
proof -
  have ok: "lease_conds_ok (set_phase ph l)" for ph using assms(2) by (simp add: lease_conds_ok_def)
  have d: "distinct (map c_Type fulfilled_conditions)" "distinct (map c_Type (partial_conditions r))" for r
    by (simp_all add: fulfilled_conditions_def partial_conditions_def)
  have f: "concluded True (set_conds os fulfilled_conditions (set_phase PHASE_FULFILLED l))"
    using set_conds_statuses [OF assms(1) ok d(1), of PHASE_FULFILLED]
    by (simp add: concluded_def) (simp add: fulfilled_conditions_def)
  have p: "concluded False (set_conds os (partial_conditions r) (set_phase PHASE_PARTIAL l))" for r
    using set_conds_statuses [OF assms(1) ok d(2), of r PHASE_PARTIAL]
    by (simp add: concluded_def) (simp add: partial_conditions_def)
  show ?thesis
  proof (cases "req \<le> int (length pools) \<and> all_pools_have_networks (ls_Networks (l_Spec l)) counts")
    case True
    with f show ?thesis by (simp add: conclude_def)
  next
    case False
    then have "(req \<le> int (length pools) \<and> all_pools_have_networks (ls_Networks (l_Spec l)) counts) = False" by blast
    with p show ?thesis by (simp only: conclude_def Let_def if_False)
  qed
qed

lemma pool_info_total:
  assumes "choices_ok os" "inventory_ok ca"
  shows "pool_info os ca lease pools \<noteq> None"
  using assms(1)
proof (induction pools arbitrary: os)
  case (Cons pool pools)
  obtain nm where "getNetworksForPool (sub 0 os) ca pool = Some nm"
    using pn.view_total [OF _ assms(2), of "sub 0 os" pool] Cons.prems by auto
  with Cons.IH [of "sub 1 os"] Cons.prems show ?case by (auto simp: Let_def)
qed simp

lemma status_step_total:
  assumes "choices_ok os" "inventory_ok ca"
  shows "\<exists>lease'. status_step os ca lease pools req = Some lease'"
proof -
  have "choices_ok (sub 0 os)" "choices_ok (sub 2 os)" using assms(1) by simp_all
  then obtain infos counts where "pool_info (sub 0 os) ca lease pools = Some infos"
      "networks_per_pool (sub 2 os) ca lease pools [] = Some counts"
    using pool_info_total [OF _ assms(2)] networks_per_pool_total [OF _ assms(2)] by (metis not_None_eq)
  then show ?thesis by (simp add: status_step_def Let_def)
qed

lemma conclude_frame:
  "l_Meta (conclude os l ps req cs) = l_Meta l \<and> l_Spec (conclude os l ps req cs) = l_Spec l \<and>
   lst_PoolInfo (l_Status (conclude os l ps req cs)) = lst_PoolInfo (l_Status l) \<and>
   lst_FailureDomain (l_Status (conclude os l ps req cs)) = lst_FailureDomain (l_Status l)"
  by (simp add: conclude_def Let_def)

section \<open>Published networks\<close>

definition held_networks :: "cache \<Rightarrow> OwnerReference list \<Rightarrow> Network set" where
  "held_networks ca refs = {n \<in> snd ` set (ca_networks ca). \<exists>ref \<in> set refs. or_Kind ref = ''Network'' \<and> or_Name ref = n_Name n}"

lemma held_networks_Cons:
  "held_networks ca (ref # refs) = {n \<in> snd ` set (ca_networks ca). or_Kind ref = ''Network'' \<and> or_Name ref = n_Name n}
     \<union> held_networks ca refs"
  unfolding held_networks_def by auto

lemma all_networks_exact:
  assumes "choices_ok os" "inventory_ok ca" "distinct acc"
  shows "distinct (all_networks os ca dc refs acc) \<and>
    set (all_networks os ca dc refs acc) = set acc \<union> (\<lambda>n. network_path dc (n_PortGroupName n)) ` held_networks ca refs"
  using assms(1,3)
proof (induction refs arbitrary: os acc)
  case Nil
  then show ?case by (simp add: held_networks_def)
next
  case (Cons ref refs)
  let ?N = "{n \<in> snd ` set (ca_networks ca). or_Kind ref = ''Network'' \<and> or_Name ref = n_Name n}"
  let ?find = "find (\<lambda>net. n_Name net = or_Name ref) (range_vals (sub 0 os) (ca_networks ca))"
  let ?acc = "if or_Kind ref = ''Network'' then (case ?find of None \<Rightarrow> acc | Some net \<Rightarrow>
      let p = network_path dc (n_PortGroupName net) in if p \<in> set acc then acc else acc @ [p]) else acc"
  have vals: "set (range_vals (sub 0 os) (ca_networks ca)) = snd ` set (ca_networks ca)"
    using Cons.prems(1) inventory_cache_ok [OF assms(2)] by (simp add: cache_ok_def)
  have inj: "inj_on n_Name (snd ` set (ca_networks ca))" using assms(2) by (simp add: inventory_ok_def)
  have acc: "distinct ?acc \<and> set ?acc = set acc \<union> (\<lambda>n. network_path dc (n_PortGroupName n)) ` ?N"
  proof (cases "or_Kind ref = ''Network''")
    case True
    show ?thesis
    proof (cases ?find)
      case None
      then have "?N = {}" unfolding find_None_iff vals by force
      then have image: "f ` ?N = {}" for f :: "Network \<Rightarrow> string" by simp
      show ?thesis unfolding image using True None Cons.prems(2) by simp
    next
      case (Some net)
      then have net: "net \<in> snd ` set (ca_networks ca)" "n_Name net = or_Name ref"
        unfolding find_Some_iff vals [symmetric] by (auto simp: in_set_conv_nth)
      have "n = net" if "n \<in> ?N" for n
        by (rule inj_onD [OF inj]) (use that net in simp_all)
      then have N: "?N = {net}" using True net by auto
      show ?thesis unfolding N using True Some Cons.prems(2) by (auto simp: Let_def)
    qed
  next
    case False
    then have "?N = {}" by simp
    then have image: "f ` ?N = {}" for f :: "Network \<Rightarrow> string" by simp
    show ?thesis unfolding image using False Cons.prems(2) by simp
  qed
  have step: "all_networks os ca dc (ref # refs) acc = all_networks (sub 1 os) ca dc refs ?acc" by simp
  show ?case
    unfolding step held_networks_Cons image_Un
    using Cons.IH [of "sub 1 os" ?acc] Cons.prems(1) acc by (simp only: choices_ok_sub) blast
qed

lemma path_base_network_path: "CHR ''/'' \<notin> set pg \<Longrightarrow> path_base (network_path dc pg) = pg"
  using path_base_append [of pg "CHR ''/'' # dc @ ''/network''"] by (simp add: network_path_def)

lemma use_networks_get:
  "gget (gget_default [] (use_networks os ca lease iu)
      (dc_id (getIBMDatacenterAndPod os ca (fd_Server (lst_FailureDomain (l_Status lease)))))) pg \<noteq> None \<longleftrightarrow>
   gget (gget_default [] iu (dc_id (getIBMDatacenterAndPod os ca (fd_Server (lst_FailureDomain (l_Status lease)))))) pg \<noteq> None \<or>
   pg \<in> path_base ` set (tp_Networks (fd_Topology (lst_FailureDomain (l_Status lease))))"
proof -
  have "gget (foldl (\<lambda>m p. gset (path_base p) (path_base p) m) m ps) pg \<noteq> None \<longleftrightarrow>
      gget m pg \<noteq> None \<or> pg \<in> path_base ` set ps" for m ps
    by (induction ps arbitrary: m) auto
  then show ?thesis by (simp add: use_networks_def Let_def)
qed

section \<open>A lease that asks for no network\<close>

lemma count_nonneg: "0 \<le> count_pool_networks lease m"
  by (simp add: count_pool_networks_length)

lemma assign_networks_none:
  assumes "ls_Networks (l_Spec lease) \<le> 0"
    and "assign_networks os ca lk allow cpg idx pools (lease, vl) = Some (lease', vl')"
  shows "l_Meta lease' = l_Meta lease \<and> l_Spec lease' = l_Spec lease"
  using assms
proof (induction pools arbitrary: os idx lease vl)
  case (Cons pool pools)
  have skip: "assign_pool_networks os' ca lk allow cpg idx pool m (lease, vl) = Some (lease, vl)" for os' m
    using Cons.prems(1) count_nonneg [of lease m] by (simp add: assign_pool_networks_def)
  from Cons.prems(2) obtain m l2 where
      env: "(case env_network_for m (l_OwnerReferences lease) of None \<Rightarrow> Some lease | Some net \<Rightarrow> GenerateEnvVars lease pool net) = Some l2"
    and rest: "assign_networks (sub 2 os) ca lk allow cpg (Suc idx) pools (l2, vl) = Some (lease', vl')"
    by (auto simp: skip split: Option.bind_splits)
  have frame: "l_Meta l2 = l_Meta lease" "l_Spec l2 = l_Spec lease"
    using env GenerateEnvVars_frame by (auto split: option.splits)
  with Cons.IH [OF _ rest] Cons.prems(1) show ?case by simp
qed simp

lemma poolMissingNetworks_none:
  assumes "\<forall>ref \<in> set (l_OwnerReferences lease). or_Kind ref \<noteq> ''Network''" "pools \<noteq> []"
    and "poolMissingNetworks os ca lease pools = Some r"
  shows "r \<noteq> None"
proof -
  have "count_pool_networks lease m = 0" for m
    using assms(1) by (auto simp: count_pool_networks_length filter_empty_conv)
  with assms(2,3) show ?thesis by (cases pools) (auto split: Option.bind_splits)
qed

lemma publish_first_pool_frame [simp]:
  "l_Meta (publish_first_pool p l) = l_Meta l" "l_Spec (publish_first_pool p l) = l_Spec l"
  by (simp_all add: publish_first_pool_def Let_def)

lemma network_step_assigns:
  assumes "network_step os api allow lk w lease (pool # rest) = Some l1"
  shows "\<exists>cpg vl vl'. assign_networks (sub 2 os) (w_cache (put_lease lk (publish_first_pool pool lease) w)) lk allow cpg 0
    (pool # rest) (publish_first_pool pool lease, vl) = Some (l1, vl')"
  using assms by (auto simp: network_step_def Let_def simp del: assign_networks.simps split: Option.bind_splits)

lemma assign_step_cases:
  assumes "assign_step os api allow req k w lease pools = Some (r, w')"
  obtains (missing) l name where "network_step (sub 0 os) api allow k w lease pools = Some l"
      "poolMissingNetworks (sub 1 os) (w_cache (put_lease k l w)) l pools = Some (Some name)"
      "missing_step (sub 2 os) api k (put_lease k l w) l = Some (r, w')"
    | (stored) l l' where "network_step (sub 0 os) api allow k w lease pools = Some l"
      "poolMissingNetworks (sub 1 os) (w_cache (put_lease k l w)) l pools = Some None"
      "status_step (sub 2 os) (w_cache (put_lease k l w)) l pools (required_pools l) = Some l'"
      "persist_step (sub 3 os) api req k (emit [transition_event (l_Phase l') l'] (put_lease k l w)) l' (hd pools) = Some (r, w')"
proof -
  from assms obtain l m where net: "network_step (sub 0 os) api allow k w lease pools = Some l"
    and miss: "poolMissingNetworks (sub 1 os) (w_cache (put_lease k l w)) l pools = Some m"
    and fin: "(case m of Some poolName \<Rightarrow> missing_step (sub 2 os) api k (put_lease k l w) l
      | None \<Rightarrow> do { l' \<leftarrow> status_step (sub 2 os) (w_cache (put_lease k l w)) l pools (required_pools l);
          persist_step (sub 3 os) api req k (emit [transition_event (l_Phase l') l'] (put_lease k l w)) l' (hd pools) })
      = Some (r, w')"
    by (auto simp: assign_step_def Let_def simp del: One_nat_def split: Option.bind_splits)
  show thesis
  proof (cases m)
    case None
    with fin obtain l' where "status_step (sub 2 os) (w_cache (put_lease k l w)) l pools (required_pools l) = Some l'"
        "persist_step (sub 3 os) api req k (emit [transition_event (l_Phase l') l'] (put_lease k l w)) l' (hd pools) = Some (r, w')"
      by (auto split: Option.bind_splits)
    with stored net miss None show thesis by blast
  next
    case (Some name)
    with missing net miss fin show thesis by simp
  qed
qed

section \<open>Properties\<close>


text \<open>
  C30: Finished leases are left alone: a reconcile of a lease in phase \<open>Fulfilled\<close> or \<open>Failed\<close> that is not being
  deleted and has its finalizers neither writes to the API server nor changes a metric; it
  only caches the lease.
\<close>

theorem finished_lease_untouched:
  assumes "api_get_lease api (rq_Namespace req) (rq_Name req) (w_server w) = Inr lease"
    and "l_Phase lease = PHASE_FULFILLED \<or> l_Phase lease = PHASE_FAILED"
    and "om_Finalizers (l_Meta lease) \<noteq> None" "l_DeletionTimestamp lease = None"
  shows "LeaseReconcile os api allow req w =
    Some (Done, put_lease (object_key (rq_Namespace req) (rq_Name req)) lease w)"
proof -
  have "init_step (sub 0 os) api w lease = Inr (w, lease)" using assms(2) by (auto simp: init_step_def)
  moreover have "finalizer_step api w lease = Inr (w, lease)" using assms(3) by (auto simp: finalizer_step_def)
  moreover have "live_step (sub 2 os) api allow req k w lease = Some (Done, put_lease k lease w)" for k
    using assms(2) by (simp add: live_step_def)
  ultimately show ?thesis using assms(1,4) by (simp add: LeaseReconcile_def)
qed

text \<open>
  C31: The networks a lease publishes are read back: after the pool accounting has processed a lease whose
  published networks were computed from its owner references, the port groups it finds in use in the data
  center of the lease are those found before and exactly the port groups of the networks the lease owns.
\<close>

theorem published_networks_roundtrip:
  assumes "choices_ok os" "inventory_ok ca"
    and "\<forall>n \<in> snd ` set (ca_networks ca). CHR ''/'' \<notin> set (n_PortGroupName n)"
    and "tp_Networks (fd_Topology (lst_FailureDomain (l_Status lease))) = all_networks os ca dc (l_OwnerReferences lease) []"
    and "dcId = dc_id (getIBMDatacenterAndPod os' ca (fd_Server (lst_FailureDomain (l_Status lease))))"
  shows "gget (gget_default [] (use_networks os' ca lease iu) dcId) pg \<noteq> None \<longleftrightarrow>
    gget (gget_default [] iu dcId) pg \<noteq> None \<or> pg \<in> n_PortGroupName ` held_networks ca (l_OwnerReferences lease)"
proof -
  have "set (all_networks os ca dc (l_OwnerReferences lease) []) =
      (\<lambda>n. network_path dc (n_PortGroupName n)) ` held_networks ca (l_OwnerReferences lease)"
    using all_networks_exact [OF assms(1,2), of "[]" dc "l_OwnerReferences lease"] by simp
  moreover have "path_base (network_path dc (n_PortGroupName n)) = n_PortGroupName n"
    if "n \<in> held_networks ca (l_OwnerReferences lease)" for n
    using that assms(3) by (intro path_base_network_path) (auto simp: held_networks_def)
  ultimately have "path_base ` set (all_networks os ca dc (l_OwnerReferences lease) []) =
      n_PortGroupName ` held_networks ca (l_OwnerReferences lease)"
    by (simp add: image_image)
  then show ?thesis unfolding assms(5) use_networks_get assms(4) by (simp only:)
qed


section \<open>Witnesses\<close>

lemma view_held: "1 \<le> held view_cache view_sibling view_pool"
proof -
  have "mk_ref ''Network'' ''n1'' \<in> set (filter (\<lambda>ref. or_Kind ref = ''Network'' \<and>
      (\<exists>n. net_in_pool view_cache view_pool n \<and> n_Name n = or_Name ref)) (l_OwnerReferences view_sibling))"
    using view_in_pool(1) by (auto simp: view_sibling_def view_n1_def)
  then have "0 < length (filter (\<lambda>ref. or_Kind ref = ''Network'' \<and>
      (\<exists>n. net_in_pool view_cache view_pool n \<and> n_Name n = or_Name ref)) (l_OwnerReferences view_sibling))"
    by (rule length_pos_if_in_set)
  then show ?thesis unfolding held_def by linarith
qed


definition finished_lease :: Lease where
  "finished_lease = set_finalizers (Some [LeaseFinalizer]) (set_phase PHASE_FULFILLED view_lease)"

definition example_world :: "unit world" where
  "example_world = \<lparr>w_cache = view_cache, w_server = (), w_metrics = []\<rparr>"

theorem finished_lease_untouched_witness:
  "LeaseReconcile std_choices (echo_api finished_lease view_pool view_n1) False \<lparr>rq_Namespace = ''ns'', rq_Name = ''lease''\<rparr>
     example_world = Some (Done, put_lease ''ns/lease'' finished_lease example_world)"
  using finished_lease_untouched [of "echo_api finished_lease view_pool view_n1"
      "\<lparr>rq_Namespace = ''ns'', rq_Name = ''lease''\<rparr>" example_world finished_lease std_choices False]
  by (simp add: finished_lease_def set_finalizers_def object_key_def)
    (simp add: view_lease_def mk_lease_def zero_defs)

theorem published_networks_roundtrip_witness:
  "gget (gget_default [] (use_networks std_choices view_cache
       (set_status_networks (all_networks std_choices view_cache ''dc'' (l_OwnerReferences view_sibling) []) view_sibling) [])
       (dc_id (getIBMDatacenterAndPod std_choices view_cache []))) ''vlan-1'' \<noteq> None"
proof -
  let ?l = "set_status_networks (all_networks std_choices view_cache ''dc'' (l_OwnerReferences view_sibling) []) view_sibling"
  have st: "l_OwnerReferences ?l = l_OwnerReferences view_sibling" "fd_Server (lst_FailureDomain (l_Status ?l)) = []"
      "tp_Networks (fd_Topology (lst_FailureDomain (l_Status ?l))) =
        all_networks std_choices view_cache ''dc'' (l_OwnerReferences ?l) []"
    by (simp_all add: set_status_networks_def) (simp add: view_sibling_def mk_lease_def zero_defs)
  have noslash: "\<forall>n \<in> snd ` set (ca_networks view_cache). CHR ''/'' \<notin> set (n_PortGroupName n)"
    by (simp add: view_cache_def view_n1_def view_n2_def)
  have "view_n1 \<in> held_networks view_cache (l_OwnerReferences view_sibling)"
    by (simp add: held_networks_def view_defs)
  then have "''vlan-1'' \<in> n_PortGroupName ` held_networks view_cache (l_OwnerReferences ?l)"
    unfolding st(1) by (rule image_eqI [rotated]) (simp add: view_n1_def)
  with published_networks_roundtrip [OF std_choices_ok view_inventory noslash st(3) refl, of std_choices "[]" "''vlan-1''"]
  show ?thesis unfolding st(2) by blast
qed

definition bare_lease :: Lease where
  "bare_lease = view_lease\<lparr>l_Spec := (l_Spec view_lease)\<lparr>ls_Networks := 0\<rparr>\<rparr>"

lemma bare_lease_simps [simp]:
  "l_OwnerReferences bare_lease = []" "ls_Networks (l_Spec bare_lease) = 0" "l_Labels bare_lease = [(BoskosIdLabel, ''job'')]"
  by (simp_all add: bare_lease_def) (simp_all add: view_lease_def)

lemma bare_missing:
  "\<exists>l1. network_step std_choices (echo_api bare_lease view_pool view_n1) False ''ns/lease'' example_world bare_lease [view_pool] = Some l1 \<and>
     l_OwnerReferences l1 = []"
proof -
  let ?api = "echo_api bare_lease view_pool view_n1" and ?l = "publish_first_pool view_pool bare_lease"
  let ?w = "put_lease ''ns/lease'' ?l example_world"
  have sib: "siblingPoolsForNetworkCommonality std_choices ?api ?w ?l = Inr []"
    by (simp add: siblingPoolsForNetworkCommonality_def resolveSiblingPools_def split: option.splits)
  have nets: "getNetworksForPool std_choices (w_cache ?w) view_pool = Some [(''n1'', view_n1), (''n2'', view_n2)]"
    using view_networks by (simp add: getNetworksForPool_def example_world_def)
  have "count_pool_networks ?l m = 0" for m by (simp add: count_pool_networks_def)
  then have skip: "assign_pool_networks std_choices (w_cache ?w) ''ns/lease'' False None 0 view_pool m (?l, vl) = Some (?l, vl)" for m vl
    by (simp add: assign_pool_networks_def)
  show ?thesis
    by (simp add: network_step_def common_port_groups_def sib nets skip)
qed


end
