(* ===== verification/ControllerFacts.thy ===== *)
theory ControllerFacts
  imports Controllers Triggers
begin

text \<open>
  What the handlers of theory \<open>Controllers\<close> and the triggers achieve: the pool controller publishes the
  accounted state of a pool under a valid short name, pruning deletes exactly the abandoned leases,
  the trigger touches the oldest unfinished lease, and a deleted network is not forgotten.
\<close>

section \<open>Short names\<close>

lemma contains_char: "str_contains s [c] \<longleftrightarrow> c \<in> set s"
  by (simp add: str_contains_sublist sublist_def) (metis split_list append_Cons append_Nil in_set_conv_decomp)

lemma short_name_set [simp]: "p_ShortName (set_short_name n p) = n"
  by (simp add: p_ShortName_def set_short_name_def)

lemma replace_clean: "CHR ''_'' \<notin> set (str_replace (CHR ''_'') (CHR ''-'') s)"
  by (auto simp: str_replace_def)

lemma fix_short_name_clean: "CHR ''_'' \<notin> set (p_ShortName (snd (fix_short_name r p)))"
  using replace_clean by (auto simp: fix_short_name_def Let_def contains_char)

section \<open>Storing the status of a pool\<close>

text \<open>A server that stores pools as they are sent.\<close>

definition pools_echoed :: "'s api \<Rightarrow> bool" where
  "pools_echoed api \<longleftrightarrow> (\<forall>p s. fst (api_update_pool api p s) = Inr p) \<and> (\<forall>p s. fst (api_status_pool api p s) = Inr p)"

lemma echoed_update: "pools_echoed api \<Longrightarrow> \<exists>s'. api_update_pool api p s = (Inr p, s')"
  unfolding pools_echoed_def by (metis prod.collapse)

lemma echoed_status: "pools_echoed api \<Longrightarrow> \<exists>s'. api_status_pool api p s = (Inr p, s')"
  unfolding pools_echoed_def by (metis prod.collapse)

lemma store_status_echo:
  assumes "pools_echoed api" "gomap_ok kps" "\<And>k q. (k, q) \<in> set kps \<Longrightarrow> k \<noteq> key \<Longrightarrow> p_Name q \<noteq> name"
    and "gget (ca_pools (w_cache w)) key = Some p"
  shows "\<exists>w'. store_status_loop api name key kps (w, p) = Inr (w', p) \<and> gget (ca_pools (w_cache w')) key = Some p \<and>
    ca_leases (w_cache w') = ca_leases (w_cache w)"
  using assms(2-4)
proof (induction kps arbitrary: w)
  case (Cons kq kps)
  obtain k q where kq: "kq = (k, q)" by (cases kq)
  have ok: "gomap_ok kps" using Cons.prems(1) by (simp add: gomap_ok_def)
  show ?case
  proof (cases "k = key \<and> p_Name p = name")
    case True
    obtain s where s: "api_status_pool api p (w_server w) = (Inr p, s)" using echoed_status [OF assms(1)] by blast
    from Cons.IH [OF ok, of "put_pool key p (set_server s w)"] Cons.prems(2) True kq s show ?thesis by auto
  next
    case False
    then have "p_Name (if k = key then p else q) \<noteq> name" using Cons.prems(2) [of k q] kq by auto
    with Cons.IH [OF ok, of w] Cons.prems kq show ?thesis by auto
  qed
qed auto

lemma finalizer_echo:
  assumes "pools_echoed api"
  shows "\<exists>w' p'. pool_finalizer_step api w p = Inr (w', p') \<and> w_cache w' = w_cache w \<and> p_Spec p' = p_Spec p \<and>
    p_Kind p' = p_Kind p \<and> p_Name p' = p_Name p"
proof (cases "om_Finalizers (p_Meta p) = None")
  case True
  obtain s where "api_update_pool api (set_pool_finalizers (Some [PoolFinalizer]) p) (w_server w) =
      (Inr (set_pool_finalizers (Some [PoolFinalizer]) p), s)" using echoed_update [OF assms] by blast
  with True show ?thesis by (simp add: pool_finalizer_step_def set_pool_finalizers_def)
qed (auto simp: pool_finalizer_step_def)

lemma short_name_echo:
  assumes "pools_echoed api"
  shows "\<exists>w' p'. short_name_step api w p = Inr (w', p') \<and> w_cache w' = w_cache w \<and> p_Kind p' = p_Kind p \<and> p_Name p' = p_Name p \<and>
    CHR ''_'' \<notin> set (p_ShortName p')"
proof -
  obtain b q where q: "fix_short_name (api_name api) p = (b, q)" by fastforce
  have f: "CHR ''_'' \<notin> set (p_ShortName q)" "p_Kind q = p_Kind p" "p_Name q = p_Name p"
    using fix_short_name_clean [of "api_name api" p] q
    by (auto simp: fix_short_name_def set_short_name_def Let_def split: if_splits)
  obtain s where "api_update_pool api q (w_server w) = (Inr q, s)" using echoed_update [OF assms] by blast
  with q f show ?thesis by (cases b) (simp_all add: short_name_step_def)
qed

text \<open>The accounted state in terms of the pool it is the state of.\<close>

lemma accounted_result:
  assumes "accounted ca p p'"
  shows "pst_VCpusAvailable (p_Status p') = wrap64 (cpu_capacity p' - used_cpus ca p') \<and>
    pst_MemoryAvailable (p_Status p') = wrap64 (ps_Memory (p_Spec p') - used_memory ca p') \<and>
    pst_LeaseCount (p_Status p') = int (length (users ca p'))"
proof -
  have m: "p_Meta p' = p_Meta p" "p_Spec p' = p_Spec p" "p_Kind p' = p_Kind p" using assms by (simp_all add: accounted_def)
  have "uses_pool p' = uses_pool p" by (rule ext) (simp only: uses_pool_def m)
  then have u: "users ca p' = users ca p" by (simp only: users_def)
  have "cpu_capacity p' = cpu_capacity p" by (simp only: cpu_capacity_def over_commit_ratio_def m)
  with assms u m(2) show ?thesis by (simp add: accounted_def used_cpus_def used_memory_def)
qed

section \<open>The oldest lease\<close>

text \<open>Leases that the trigger considers: unfinished ones of the type, as they are read from the server.\<close>

definition considered :: "'s api \<Rightarrow> 's \<Rightarrow> string \<Rightarrow> Lease \<Rightarrow> Lease option" where
  "considered api s nt l =
     (if ls_NetworkType (l_Spec l) \<noteq> nt \<or> l_Phase l = PHASE_FULFILLED \<or> l_Phase l = PHASE_FAILED then None
      else case api_get_lease api (l_Namespace l) (l_Name l) s of Inl e \<Rightarrow> None | Inr got \<Rightarrow> Some got)"

lemma trigger_scan_Cons:
  "trigger_scan api nt ((k, l) # kls) (w, best) =
     (case considered api (w_server w) nt l of
        None \<Rightarrow> trigger_scan api nt kls (w, best)
      | Some got \<Rightarrow> trigger_scan api nt kls (put_lease k got w,
          case best of None \<Rightarrow> Some (k, got)
          | Some (k', old) \<Rightarrow> if l_CreationTimestamp got < l_CreationTimestamp old then Some (k, got) else best))"
  by (auto simp: considered_def split: sum.split option.split)

lemma trigger_scan_oldest:
  assumes "trigger_scan api nt kls (w, best) = (w', best')"
  shows "w_server w' = w_server w \<and>
    (best' = None \<longrightarrow> best = None \<and> (\<forall>(k, l) \<in> set kls. considered api (w_server w) nt l = None)) \<and>
    (\<forall>k x. best' = Some (k, x) \<longrightarrow>
      (best = Some (k, x) \<or> (\<exists>l. (k, l) \<in> set kls \<and> considered api (w_server w) nt l = Some x)) \<and>
      (\<forall>(k', l) \<in> set kls. \<forall>y. considered api (w_server w) nt l = Some y \<longrightarrow> l_CreationTimestamp x \<le> l_CreationTimestamp y) \<and>
      (\<forall>k' y. best = Some (k', y) \<longrightarrow> l_CreationTimestamp x \<le> l_CreationTimestamp y))"
  using assms
proof (induction kls arbitrary: w best)
  case (Cons kl kls)
  obtain k l where kl: "kl = (k, l)" by (cases kl)
  show ?case
  proof (cases "considered api (w_server w) nt l")
    case None
    with Cons.IH [of w best] Cons.prems kl show ?thesis by (auto simp: trigger_scan_Cons simp del: trigger_scan.simps)
  next
    case (Some got)
    let ?b = "case best of None \<Rightarrow> Some (k, got)
      | Some (k', old) \<Rightarrow> if l_CreationTimestamp got < l_CreationTimestamp old then Some (k, got) else best"
    have "trigger_scan api nt kls (put_lease k got w, ?b) = (w', best')"
      using Cons.prems kl Some by (simp add: trigger_scan_Cons del: trigger_scan.simps)
    from Cons.IH [OF this] Some kl show ?thesis
      by (cases best) (auto split: if_splits)
  qed
qed auto

section \<open>Properties\<close>


text \<open>
  C32: Pruning deletes exactly the abandoned leases: on a server that records the deletions asked for, these are
  the cached leases with a namespace label that names no existing namespace, each once, whatever the map order.
\<close>

theorem prune_deletes_abandoned:
  assumes "choices_ok os" "gomap_ok (ca_leases (w_cache w))" "\<And>l s. snd (api_delete_lease api l s) = s @ [l]"
    and "api_list_namespaces api (w_server w) = Inr namespaces"
  shows "mset (w_server (PruneAbandonedLeases os api w)) = mset (w_server w) +
    filter_mset (\<lambda>l. \<exists>ns. gget (l_Labels l) LeaseNamespace = Some ns \<and> ns \<notin> set namespaces) (mset (map snd (ca_leases (w_cache w))))"
proof -
  have del: "delete_leases api ls s = s @ ls" for ls s
    by (induction ls arbitrary: s) (simp_all add: assms(3))
  have ab: "abandoned namespaces = (\<lambda>l. \<exists>ns. gget (l_Labels l) LeaseNamespace = Some ns \<and> ns \<notin> set namespaces)"
    by (rule ext) (auto simp: abandoned_def list_ex_iff split: option.split)
  show ?thesis
    using assms(1,2,4) by (simp add: PruneAbandonedLeases_def Let_def del ab mset_range_vals mset_filter)
qed

text \<open>
  C17: The trigger is fair: it updates the oldest of the unfinished leases of the type, by the creation times on the
  server, whatever the map order; if there is none it writes nothing.
\<close>

theorem triggerLeaseUpdates_oldest:
  assumes "choices_ok os" "gomap_ok (ca_leases (w_cache w))"
  shows "(\<exists>k l x. (k, l) \<in> set (ca_leases (w_cache w)) \<and> considered api (w_server w) nt l = Some x \<and>
      (\<forall>(k', l') \<in> set (ca_leases (w_cache w)). \<forall>y. considered api (w_server w) nt l' = Some y \<longrightarrow>
        l_CreationTimestamp x \<le> l_CreationTimestamp y) \<and>
      w_server (triggerLeaseUpdates os api nt w) =
        snd (api_update_lease api (annotate_lease (api_stamp api (time_now (sub 1 os))) x) (w_server w))) \<or>
    (\<forall>(k, l) \<in> set (ca_leases (w_cache w)). considered api (w_server w) nt l = None) \<and>
      w_server (triggerLeaseUpdates os api nt w) = w_server w"
proof -
  let ?kls = "range_map (sub 0 os) (ca_leases (w_cache w))"
  have kls: "set ?kls = set (ca_leases (w_cache w))" using assms by simp
  obtain w1 best where scan: "trigger_scan api nt ?kls (w, None) = (w1, best)" by fastforce
  note o = trigger_scan_oldest [OF scan, unfolded kls]
  show ?thesis
  proof (cases best)
    case None
    with o scan show ?thesis by (simp add: triggerLeaseUpdates_def)
  next
    case (Some kx)
    obtain k x where kx: "kx = (k, x)" by (cases kx)
    have srv: "w_server (triggerLeaseUpdates os api nt w) =
        snd (api_update_lease api (annotate_lease (api_stamp api (time_now (sub 1 os))) x) (w_server w))"
      using scan Some kx o by (simp add: triggerLeaseUpdates_def Let_def del: One_nat_def split: prod.split sum.split)
    from o Some kx have best: "(\<exists>l. (k, l) \<in> set (ca_leases (w_cache w)) \<and> considered api (w_server w) nt l = Some x)"
        "\<forall>(k', l') \<in> set (ca_leases (w_cache w)). \<forall>y. considered api (w_server w) nt l' = Some y \<longrightarrow>
          l_CreationTimestamp x \<le> l_CreationTimestamp y" by simp_all
    then obtain l where l: "(k, l) \<in> set (ca_leases (w_cache w))" "considered api (w_server w) nt l = Some x" by blast
    show ?thesis by (intro disjI1 exI [of _ k] exI [of _ l] exI [of _ x] conjI l best(2) srv)
  qed
qed

text \<open>
  C38: A deleted network is not forgotten: after a reconcile of a network that is being deleted the cache of networks
  is as it was, with the network if it was there, and the pool cached under the same key is gone.
\<close>

theorem deleted_network_stays_cached:
  assumes "api_get_network api (rq_Namespace req) (rq_Name req) (w_server w) = Inr network"
    and "om_DeletionTimestamp (n_Meta network) \<noteq> None" "NetworkReconcile api req w = (Done, w')"
  shows "ca_networks (w_cache w') = ca_networks (w_cache w) \<and>
    gget (ca_pools (w_cache w')) (object_key (rq_Namespace req) (rq_Name req)) = None"
proof -
  have "delete_network_step api (object_key (rq_Namespace req) (rq_Name req)) w network = (Done, w')"
    using assms by (auto simp: NetworkReconcile_def Let_def)
  then show ?thesis by (auto simp: delete_network_step_def split: if_splits prod.splits sum.splits)
qed

section \<open>Witnesses\<close>

definition log_api :: "Lease list api" where
  "log_api = \<lparr>api_get_lease = (\<lambda>_ _ _. Inr view_lease), api_get_pool = (\<lambda>_ _ _. Inr view_pool), api_get_network = (\<lambda>_ _ _. Inr view_n1),
     api_update_lease = (\<lambda>l s. (Inr l, s)), api_status_lease = (\<lambda>l s. (Inr l, s)), api_delete_lease = (\<lambda>l s. (Inr (), s @ [l])),
     api_update_pool = (\<lambda>p s. (Inr p, s)), api_status_pool = (\<lambda>p s. (Inr p, s)), api_update_network = (\<lambda>n s. (Inr n, s)),
     api_list_leases = (\<lambda>_ _. Inr []), api_list_namespaces = (\<lambda>_. Inr [''ci'']),
     api_stamp = (\<lambda>_. ''2024-01-01T00:00:00Z''), api_name = ''happy_einstein''\<rparr>"

definition labelled :: "string \<Rightarrow> string \<Rightarrow> Lease" where
  "labelled name ns = zero_lease\<lparr>l_Meta := zero_meta\<lparr>om_Name := name, om_Labels := [(LeaseNamespace, ns)]\<rparr>\<rparr>"

definition prune_world :: "Lease list world" where
  "prune_world = \<lparr>w_cache = \<lparr>ca_pools = [], ca_leases = [(''/a'', labelled ''a'' ''gone''), (''/b'', labelled ''b'' ''ci''), (''/c'', view_lease)],
     ca_networks = []\<rparr>, w_server = [], w_metrics = []\<rparr>"

theorem prune_deletes_abandoned_witness:
  "mset (w_server (PruneAbandonedLeases std_choices log_api prune_world)) = {#labelled ''a'' ''gone''#}"
proof -
  have "gomap_ok (ca_leases (w_cache prune_world))" by (simp add: prune_world_def gomap_ok_def)
  from prune_deletes_abandoned [OF std_choices_ok this, of log_api "[''ci'']"] show ?thesis
    by (simp add: log_api_def) (simp add: prune_world_def labelled_def view_lease_def mk_lease_def zero_defs)
qed

theorem triggerLeaseUpdates_oldest_witness:
  "\<exists>l x. considered log_api [] NetworkTypeSingleTenant l = Some x \<and>
     w_server (triggerLeaseUpdates std_choices log_api NetworkTypeSingleTenant prune_world) =
       snd (api_update_lease log_api (annotate_lease (api_stamp log_api (time_now std_choices)) x) [])"
proof -
  have ok: "gomap_ok (ca_leases (w_cache prune_world))" by (simp add: prune_world_def gomap_ok_def)
  have "considered log_api [] NetworkTypeSingleTenant view_lease = Some view_lease"
    by (simp add: considered_def log_api_def view_lease_def mk_lease_def zero_defs)
  moreover have "(''/c'', view_lease) \<in> set (ca_leases (w_cache prune_world))" by (simp add: prune_world_def)
  moreover have "w_server prune_world = []" by (simp add: prune_world_def)
  ultimately show ?thesis
    using triggerLeaseUpdates_oldest [OF std_choices_ok ok, of log_api NetworkTypeSingleTenant] by (simp del: One_nat_def) force
qed

theorem deleted_network_stays_cached_witness:
  "\<exists>w'. NetworkReconcile (echo_api view_lease view_pool (view_n1\<lparr>n_Meta := (n_Meta view_n1)\<lparr>om_DeletionTimestamp := Some 5\<rparr>\<rparr>))
      \<lparr>rq_Namespace = ''ns'', rq_Name = ''n1''\<rparr> \<lparr>w_cache = view_cache, w_server = (), w_metrics = []\<rparr> = (Done, w') \<and>
     gget (ca_networks (w_cache w')) ''ns/n1'' = Some view_n1"
proof -
  let ?n = "view_n1\<lparr>n_Meta := (n_Meta view_n1)\<lparr>om_DeletionTimestamp := Some 5\<rparr>\<rparr>"
  let ?w = "\<lparr>w_cache = view_cache, w_server = (), w_metrics = []\<rparr>" and ?req = "\<lparr>rq_Namespace = ''ns'', rq_Name = ''n1''\<rparr>"
  have r: "NetworkReconcile (echo_api view_lease view_pool ?n) ?req ?w = (Done, drop_pool (object_key ''ns'' ''n1'') ?w)"
    by (simp add: NetworkReconcile_def delete_network_step_def Let_def view_n1_def mk_network_def zero_defs)
  from deleted_network_stays_cached [OF _ _ r] have "gget (ca_networks (w_cache (drop_pool (object_key ''ns'' ''n1'') ?w))) ''ns/n1'' = Some view_n1"
    by (simp add: view_cache_def)
  with r show ?thesis by blast
qed

end
