(* ===== verification/NoPanic.thy ===== *)
theory NoPanic
  imports LeaseOutcome ControllerFacts
begin

text \<open>
  The handlers return: the code dereferences optional fields of networks and takes the first of the assigned
  pools without a check, so a handler could panic. On an inventory where those fields are set, and for
  leases that pass the validation of the CRD, none does.
\<close>

section \<open>Inventories with all fields set\<close>

definition full_inventory :: "cache \<Rightarrow> bool" where
  "full_inventory ca \<longleftrightarrow> inventory_ok ca \<and>
     (\<forall>n \<in> snd ` set (ca_networks ca). ns_Gateway (n_Spec n) \<noteq> None \<and> ns_DatacenterName (n_Spec n) \<noteq> None)"

lemma full_inventoryD: "full_inventory ca \<Longrightarrow> inventory_ok ca" "full_inventory ca \<Longrightarrow> cache_ok ca"
  by (simp_all add: full_inventory_def inventory_ok_def)

lemma full_fields:
  "full_inventory ca \<Longrightarrow> n \<in> snd ` set (ca_networks ca) \<Longrightarrow> ns_Gateway (n_Spec n) \<noteq> None"
  "full_inventory ca \<Longrightarrow> n \<in> snd ` set (ca_networks ca) \<Longrightarrow> ns_DatacenterName (n_Spec n) \<noteq> None"
  unfolding full_inventory_def by blast+

lemma full_inventory_cong:
  "full_inventory ca \<Longrightarrow> ca_networks ca' = ca_networks ca \<Longrightarrow> cache_ok ca' \<Longrightarrow> full_inventory ca'"
  by (simp add: full_inventory_def inventory_ok_def)

lemma full_with_lease: "full_inventory ca \<Longrightarrow> full_inventory (with_lease ca k l)"
  by (rule full_inventory_cong) (simp_all add: full_inventoryD)

section \<open>Network assignment\<close>

lemma view_total_ex:
  assumes "choices_ok os" "inventory_ok ca"
  obtains m where "getNetworksForPool os ca pool = Some m"
  using pn.view_total [OF assms] by auto

lemma view_cached:
  assumes "choices_ok os" "cache_ok ca" "getNetworksForPool os ca pool = Some m" "gget m k = Some n"
  shows "n \<in> snd ` set (ca_networks ca)"
  using pn.view_sound [OF assms] net_in_pool_cached by blast

lemma available_total:
  assumes "choices_ok os" "inventory_ok ca"
  obtains ns where "getAvailableNetworks os ca pool ty = Some ns" "set ns \<subseteq> snd ` set (ca_networks ca)"
  using getAvailableNetworks_exact [OF assms, of pool ty] net_in_pool_cached that by (metis (no_types, lifting) mem_Collect_eq subsetI)

lemma candidate_total:
  assumes "choices_ok os" "inventory_ok ca"
  shows "\<exists>ns. candidate_networks os ca allow lease cpg idx pool m = Some ns \<and> set ns \<subseteq> snd ` set (ca_networks ca)"
proof -
  have ok: "choices_ok (sub 0 os)" "choices_ok (sub 1 os)" "choices_ok (sub 2 os)" using assms(1) by simp_all
  obtain av where av: "getAvailableNetworks (sub 1 os) ca pool (ls_NetworkType (l_Spec lease)) = Some av"
    "set av \<subseteq> snd ` set (ca_networks ca)" by (rule available_total [OF ok(2) assms(2)])
  obtain ss where ss: "getAvailableNetworks (sub 2 os) ca pool NetworkTypeSingleTenant = Some ss"
    "set ss \<subseteq> snd ` set (ca_networks ca)" by (rule available_total [OF ok(3) assms(2)])
  show ?thesis
  proof (cases "getCommonNetworksForLease (sub 0 os) ca lease")
    case (Inl e)
    with av ss show ?thesis by (auto simp: candidate_networks_def split: option.splits)
  next
    case (Inr cands)
    from getCommonNetworks_Inr [OF ok(1) inventory_cache_ok [OF assms(2)] Inr]
    have "set cands \<subseteq> snd ` set (ca_networks ca)" by blast
    with Inr av show ?thesis
      by (auto simp: candidate_networks_def resolveCommonNetworksForPool_def Let_def simp del: One_nat_def)
  qed
qed

lemma contain_loop_total:
  assumes "\<And>k n. gget m k = Some n \<Longrightarrow> ns_DatacenterName (n_Spec n) \<noteq> None" "ns_DatacenterName (n_Spec net) \<noteq> None"
  shows "\<exists>c. contain_loop m net refs = Some c"
proof (induction refs)
  case (Cons ref refs)
  show ?case
  proof (cases "or_Kind ref = ''Network''")
    case True
    with Cons assms(2) assms(1) [of "or_Name ref"] show ?thesis by (cases "gget m (or_Name ref)") auto
  qed (use Cons in simp)
qed (simp only: contain_loop.simps option.inject, blast)

lemma contain_total:
  assumes "choices_ok os" "full_inventory ca" "net \<in> snd ` set (ca_networks ca)"
  shows "\<exists>c. doesLeaseContainPortGroup os ca lease pool net = Some c"
proof -
  obtain m where m: "getNetworksForPool os ca pool = Some m" by (rule view_total_ex [OF assms(1) full_inventoryD(1) [OF assms(2)]])
  have "\<exists>c. contain_loop m net (l_OwnerReferences lease) = Some c"
    by (rule contain_loop_total [OF full_fields(2) [OF assms(2) view_cached [OF assms(1) full_inventoryD(2) [OF assms(2)] m]]
          full_fields(2) [OF assms(2,3)]])
  with m show ?thesis by (simp add: doesLeaseContainPortGroup_def)
qed

lemma first_pool_loop_total:
  assumes "full_inventory ca"
  shows "choices_ok os \<Longrightarrow> set ns \<subseteq> snd ` set (ca_networks ca) \<Longrightarrow> \<exists>st'. first_pool_loop os ca pool k ns st = Some st'"
proof (induction ns arbitrary: os st)
  case Nil
  then show ?case by (cases st) simp
next
  case (Cons n ns)
  obtain c l v where st: "st = (c, l, v)" by (cases st) auto
  obtain b where "doesLeaseContainPortGroup (sub 0 os) ca l pool n = Some b"
    using contain_total [OF _ assms, of "sub 0 os" n l pool] Cons.prems by auto
  with Cons.IH [of "sub 1 os"] Cons.prems st show ?case by auto
qed

lemma match_vlan_total:
  assumes "full_inventory ca"
  shows "choices_ok os \<Longrightarrow> set ns \<subseteq> snd ` set (ca_networks ca) \<Longrightarrow> \<exists>r. match_vlan os ca lease pool m vlan ns = Some r"
proof (induction ns arbitrary: os)
  case (Cons n ns)
  obtain b where "doesLeaseContainPortGroup (sub 0 os) ca lease pool n = Some b"
    using contain_total [OF _ assms, of "sub 0 os" n lease pool] Cons.prems by auto
  with Cons.IH [of "sub 1 os"] Cons.prems show ?case by auto
qed simp

lemma later_pool_loop_total:
  assumes "full_inventory ca" "set ns \<subseteq> snd ` set (ca_networks ca)"
  shows "choices_ok os \<Longrightarrow> \<exists>st'. later_pool_loop os ca pool m k ns vlans st = Some st'"
proof (induction vlans arbitrary: os st)
  case Nil
  then show ?case by (cases st) simp
next
  case (Cons v vs)
  obtain c l vm where st: "st = (c, l, vm)" by (cases st) auto
  obtain r where "match_vlan (sub 0 os) ca l pool m v ns = Some r"
    using match_vlan_total [OF assms(1) _ assms(2), of "sub 0 os" l pool m v] Cons.prems by auto
  with Cons.IH [of "sub 1 os"] Cons.prems st show ?case by auto
qed

lemma assign_pool_networks_total:
  assumes "choices_ok os" "full_inventory ca"
  shows "\<exists>st'. assign_pool_networks os ca k allow cpg idx pool m st = Some st'"
proof -
  obtain lease vl where st: "st = (lease, vl)" by (cases st)
  have ok: "choices_ok (sub 0 os)" "choices_ok (sub 1 os)" "choices_ok (sub 2 os)" using assms(1) by simp_all
  obtain ns where ns: "candidate_networks (sub 0 os) (with_lease ca k lease) allow lease cpg idx pool m = Some ns"
      "set ns \<subseteq> snd ` set (ca_networks ca)"
    using candidate_total [OF ok(1) full_inventoryD(1) [OF full_with_lease [OF assms(2)]]] by force
  have sub: "set (shuffle_slice (sub 1 os) ns) \<subseteq> snd ` set (ca_networks ca)" using ns(2) ok(2) by simp
  obtain a b where "first_pool_loop (sub 2 os) ca pool (ls_Networks (l_Spec lease)) (shuffle_slice (sub 1 os) ns)
      (count_pool_networks lease m, lease, vl) = Some a"
    "later_pool_loop (sub 2 os) ca pool m (ls_Networks (l_Spec lease)) (shuffle_slice (sub 1 os) ns)
      (map fst (range_map (sub 3 os) vl)) (count_pool_networks lease m, lease, vl) = Some b"
    using first_pool_loop_total [OF assms(2) ok(3) sub] later_pool_loop_total [OF assms(2) sub ok(3)] by blast
  with ns(1) st show ?thesis
    by (auto simp: assign_pool_networks_def Let_def simp del: One_nat_def)
qed

lemma env_network_for_get: "env_network_for m refs = Some n \<Longrightarrow> \<exists>k. gget m k = Some n"
  by (induction refs) (auto split: if_splits option.splits)

lemma assign_networks_total:
  assumes "full_inventory ca"
  shows "choices_ok os \<Longrightarrow> \<exists>st'. assign_networks os ca k allow cpg idx pools st = Some st'"
proof (induction pools arbitrary: os idx st)
  case (Cons pool pools)
  have ok: "choices_ok (sub 0 os)" "choices_ok (sub 1 os)" "choices_ok (sub 2 os)" using Cons.prems by simp_all
  obtain m where m: "getNetworksForPool (sub 0 os) ca pool = Some m" by (rule view_total_ex [OF ok(1) full_inventoryD(1) [OF assms]])
  obtain l v where lv: "assign_pool_networks (sub 1 os) ca k allow cpg idx pool m st = Some (l, v)"
    using assign_pool_networks_total [OF ok(2) assms] by fastforce
  have "\<exists>l'. (case env_network_for m (l_OwnerReferences l) of None \<Rightarrow> Some l | Some net \<Rightarrow> GenerateEnvVars l pool net) = Some l'"
  proof (cases "env_network_for m (l_OwnerReferences l)")
    case (Some net)
    with env_network_for_get view_cached [OF ok(1) full_inventoryD(2) [OF assms] m] have "net \<in> snd ` set (ca_networks ca)" by blast
    from full_fields(1) [OF assms this] have "ns_Gateway (n_Spec net) \<noteq> None" .
    with Some show ?thesis by (auto simp: GenerateEnvVars_def Let_def)
  qed simp
  with Cons.IH [OF ok(3)] m lv show ?case by auto
qed simp

section \<open>The steps of the handlers\<close>

definition safe :: "'s world \<Rightarrow> bool" where
  "safe w \<longleftrightarrow> full_inventory (w_cache w)"

lemma safe_cong: "safe w \<Longrightarrow> ca_networks (w_cache w') = ca_networks (w_cache w) \<Longrightarrow> cache_ok (w_cache w') \<Longrightarrow> safe w'"
  unfolding safe_def by (rule full_inventory_cong)

lemma safe_ok: "safe w \<Longrightarrow> cache_ok (w_cache w)" "safe w \<Longrightarrow> inventory_ok (w_cache w)"
  by (simp_all add: safe_def full_inventoryD)

lemma safe_world [simp]:
  "safe w \<Longrightarrow> safe (emit ms w)" "safe w \<Longrightarrow> safe (set_server s w)" "safe w \<Longrightarrow> safe (put_lease k l w)"
  "safe w \<Longrightarrow> safe (drop_lease k w)" "safe w \<Longrightarrow> safe (put_pool k p w)"
  by (rule safe_cong; simp add: safe_ok)+

lemma metrics_total: "choices_ok os \<Longrightarrow> safe w \<Longrightarrow> \<exists>w'. updateLeaseMetrics os w = Some w'"
  by (rule updateLeaseMetrics_total) (simp_all add: safe_ok)

lemma safe_trigger_pools: "safe w \<Longrightarrow> safe (triggerPoolUpdates os api w)"
  unfolding triggerPoolUpdates_def
  by (rule safe_cong) (simp_all add: trigger_pools_loop_frame safe_ok)

lemma safe_trigger_scan: "safe w \<Longrightarrow> trigger_scan api nt kls (w, best) = (w', best') \<Longrightarrow> safe w'"
proof (induction kls arbitrary: w best)
  case (Cons kl kls)
  obtain k l where kl: "kl = (k, l)" by (cases kl)
  from Cons.prems(2) obtain w1 b1 where "trigger_scan api nt kls (w1, b1) = (w', best')" "w1 = w \<or> (\<exists>got. w1 = put_lease k got w)"
    unfolding kl by (simp split: if_splits sum.splits) blast+
  with Cons.IH [of w1 b1] Cons.prems(1) show ?case by (auto simp del: trigger_scan.simps)
qed simp

lemma safe_trigger_leases:
  assumes "safe w"
  shows "safe (triggerLeaseUpdates os api nt w)"
proof -
  obtain w1 best where scan: "trigger_scan api nt (range_map (sub 0 os) (ca_leases (w_cache w))) (w, None) = (w1, best)" by fastforce
  have "safe w1" by (rule safe_trigger_scan [OF assms scan])
  with scan show ?thesis
    by (auto simp: triggerLeaseUpdates_def Let_def split: option.splits prod.splits sum.splits)
qed

lemma settle_total: "choices_ok os \<Longrightarrow> safe w \<Longrightarrow> \<exists>w'. settle os api nt w = Some w'"
  unfolding settle_def by (intro metrics_total safe_trigger_leases safe_trigger_pools) simp_all

lemma pool_states_total:
  assumes "choices_ok os" "safe w"
  obtains ps ca where "reconcilePoolStates os (w_cache w) = Some (ps, ca)" "safe (w\<lparr>w_cache := ca\<rparr>)"
proof -
  obtain r where r: "reconcilePoolStates os (w_cache w) = Some r"
    using reconcilePoolStates_total [OF assms(1) safe_ok(2) [OF assms(2)]] by auto
  obtain ps ca where pc: "r = (ps, ca)" by (cases r)
  have "ca_networks ca = ca_networks (w_cache w)" "cache_ok ca"
    using reconcilePoolStates_accounted [OF assms(1) safe_ok(1) [OF assms(2)]] r pc by simp_all
  with r pc that safe_cong [OF assms(2), of "w\<lparr>w_cache := ca\<rparr>"] show thesis by simp
qed

lemma delete_step_total:
  assumes "choices_ok os" "safe w"
  shows "delete_step os api req k w lease \<noteq> None"
proof -
  obtain u s where u: "api_update_lease api (drop_finalizer lease) (w_server w) = (u, s)" by fastforce
  show ?thesis
  proof (cases u)
    case (Inr a)
    define w1 where "w1 = (case DoesLeaseHavePool a of None \<Rightarrow> drop_lease k (set_server s w)
      | Some ownRef \<Rightarrow> emit [MDec ''leases_in_use'' [(''namespace'', rq_Namespace req), (''pool'', or_Name ownRef)]]
          (drop_lease k (set_server s w)))"
    have "safe w1" using assms(2) by (auto simp: w1_def split: option.split)
    then obtain ps ca where ps: "reconcilePoolStates (sub 0 os) (w_cache w1) = Some (ps, ca)" "safe (w1\<lparr>w_cache := ca\<rparr>)"
      using pool_states_total [of "sub 0 os" w1] assms(1) by auto
    obtain w2 where "settle (sub 1 os) api (ls_NetworkType (l_Spec a)) (w1\<lparr>w_cache := ca\<rparr>) = Some w2"
      using settle_total [OF _ ps(2), of "sub 1 os"] assms(1) by auto
    with u Inr ps(1) show ?thesis
      by (simp add: delete_step_def Let_def w1_def [symmetric] del: One_nat_def)
  qed (simp add: delete_step_def u)
qed

lemma fail_step_total:
  assumes "choices_ok os" "safe w"
  shows "fail_step os api k w lease \<noteq> None"
proof -
  have "settle os api nt (put_lease k a (set_server s (emit ms (set_server s' w)))) \<noteq> None" for nt a s ms s'
    using settle_total [OF assms(1), of "put_lease k a (set_server s (emit ms (set_server s' w)))" api nt] assms(2) by auto
  then show ?thesis by (auto simp: fail_step_def Let_def bind_eq_None_conv simp del: not_None_eq split: prod.split sum.split)
qed

lemma delay_step_total:
  assumes "choices_ok os" "safe w"
  shows "delay_step os api k w lease \<noteq> None"
proof -
  have "updateLeaseMetrics (sub 2 os) (triggerLeaseUpdates (sub 1 os) api nt (put_lease k a (set_server s (emit ms w)))) \<noteq> None" for nt a s ms
    using metrics_total [OF _ safe_trigger_leases, of "sub 2 os" "put_lease k a (set_server s (emit ms w))" "sub 1 os" api nt] assms
    by (auto simp del: One_nat_def)
  then show ?thesis
    by (auto simp: delay_step_def Let_def bind_eq_None_conv simp del: not_None_eq One_nat_def split: prod.split sum.split)
qed

lemma retry_total:
  assumes "choices_ok os" "safe w"
  shows "updateLeaseMetrics os (put_lease k a (set_server s w)) \<noteq> None"
  using metrics_total [OF assms(1), of "put_lease k a (set_server s w)"] assms(2) by auto

lemma release_step_total: "choices_ok os \<Longrightarrow> safe w \<Longrightarrow> release_step os api k w lease n reason \<noteq> None"
  using retry_total [of "sub 1 os" "set_server s w" for s]
  by (auto simp: release_step_def Let_def bind_eq_None_conv simp del: not_None_eq One_nat_def split: prod.split sum.split)

lemma no_pool_step_total: "choices_ok os \<Longrightarrow> safe w \<Longrightarrow> no_pool_step os api k w lease err \<noteq> None"
  using retry_total [of "sub 1 os" w]
  by (auto simp: no_pool_step_def Let_def bind_eq_None_conv simp del: not_None_eq One_nat_def split: prod.split sum.split)

lemma missing_step_total: "choices_ok os \<Longrightarrow> safe w \<Longrightarrow> missing_step os api k w lease \<noteq> None"
  using retry_total [of os w] by (auto simp: missing_step_def bind_eq_None_conv simp del: not_None_eq split: prod.split sum.split)

lemma stored_step_total:
  assumes "choices_ok os" "safe w"
  shows "stored_step os api req k w lease pool \<noteq> None"
proof -
  have "settle os api nt (emit ms (put_lease k lease w)) \<noteq> None" for nt ms
    using settle_total [OF assms(1), of "emit ms (put_lease k lease w)" api nt] assms(2) by auto
  moreover have "updateLeaseMetrics os (put_lease k lease w) \<noteq> None"
    using metrics_total [OF assms(1), of "put_lease k lease w"] assms(2) by auto
  ultimately show ?thesis
    by (auto simp: stored_step_def Let_def bind_eq_None_conv simp del: not_None_eq)
qed

lemma persist_step_total: "choices_ok os \<Longrightarrow> safe w \<Longrightarrow> persist_step os api req k w lease pool \<noteq> None"
  using stored_step_total [of os "set_server s (set_server s' w)" for s s']
  by (auto simp: persist_step_def Let_def simp del: not_None_eq split: prod.split sum.split)

lemma common_port_groups_total:
  assumes "choices_ok os" "safe w"
  shows "\<exists>r. common_port_groups os api allow w lease pools = Some r"
proof -
  have "commonPortGroupNames (sub 1 os) (w_cache w) allow ps ty \<noteq> None" for ps ty
  proof (cases ps)
    case (Cons p ps')
    obtain m where m: "pool_port_groups (sub 0 (sub 1 os)) (w_cache w) allow p ty = Some m" "gomap_ok m"
      using pool_port_groups_exact [OF _ safe_ok(2) [OF assms(2)], of "sub 0 (sub 1 os)" allow p ty] assms(1) by auto
    from common_loop_exact [OF _ safe_ok(2) [OF assms(2)] m(2), of "sub 1 (sub 1 os)" allow ty ps'] assms(1) m(1) Cons
    show ?thesis by (auto simp: commonPortGroupNames_def simp del: One_nat_def)
  qed (simp add: commonPortGroupNames_def)
  then show ?thesis
    unfolding common_port_groups_def Let_def by (simp del: One_nat_def)
qed

lemma network_step_total:
  assumes "choices_ok os" "safe w" "pools \<noteq> []"
  shows "\<exists>l. network_step os api allow k w lease pools = Some l"
proof -
  obtain pool rest where pools: "pools = pool # rest" using assms(3) by (cases pools) auto
  let ?l = "publish_first_pool pool lease" and ?w = "put_lease k (publish_first_pool pool lease) w"
  have s: "safe ?w" using assms(2) by simp
  obtain cpg where c: "common_port_groups (sub 1 os) api allow ?w ?l pools = Some cpg"
    using common_port_groups_total [OF _ s, of "sub 1 os" api allow ?l pools] assms(1) by auto
  obtain l v where "assign_networks (sub 2 os) (w_cache ?w) k allow cpg 0 pools
      (?l, existing_vlans (sub 0 os) (w_cache ?w) (l_OwnerReferences ?l) []) = Some (l, v)"
    using assign_networks_total [OF s [unfolded safe_def], of "sub 2 os"] assms(1) by fastforce
  with c show ?thesis
    unfolding network_step_def pools by (simp add: Let_def del: One_nat_def assign_networks.simps)
qed

lemma missing_total:
  assumes "inventory_ok ca"
  shows "choices_ok os \<Longrightarrow> \<exists>r. poolMissingNetworks os ca lease pools = Some r"
proof (induction pools arbitrary: os)
  case (Cons pool pools)
  have "choices_ok (sub 0 os)" using Cons.prems by simp
  then obtain m where "getNetworksForPool (sub 0 os) ca pool = Some m" using view_total_ex [OF _ assms] by blast
  with Cons.IH [of "sub 1 os"] Cons.prems show ?case by simp
qed simp

lemma assign_step_total:
  assumes "choices_ok os" "safe w" "pools \<noteq> []"
  shows "assign_step os api allow req k w lease pools \<noteq> None"
proof -
  have ok: "choices_ok (sub n os)" for n using assms(1) by simp
  obtain l where l: "network_step (sub 0 os) api allow k w lease pools = Some l"
    using network_step_total [OF ok assms(2,3)] by blast
  let ?w = "put_lease k l w"
  have s: "safe ?w" using assms(2) by simp
  obtain m where m: "poolMissingNetworks (sub 1 os) (w_cache ?w) l pools = Some m"
    using missing_total [OF safe_ok(2) [OF s] ok] by blast
  obtain l' where l': "status_step (sub 2 os) (w_cache ?w) l pools (required_pools l) = Some l'"
    using status_step_total [OF ok safe_ok(2) [OF s]] by blast
  have "persist_step (sub 3 os) api req k (emit ms ?w) l' p \<noteq> None" for ms p
    by (rule persist_step_total [OF ok]) (use s in simp)
  with missing_step_total [OF ok s] l m l' show ?thesis
    by (auto simp: assign_step_def Let_def simp del: One_nat_def not_None_eq poolMissingNetworks.simps split: option.split)
qed

text \<open>The loop over pools never ends with an empty list unless no pool is asked for.\<close>

lemma assign_pools_nonempty:
  "0 < req \<Longrightarrow> assign_pools os lease ups req assigned = Assigned l ps \<Longrightarrow> ps \<noteq> []"
proof (induction os lease ups req assigned rule: assign_pools.induct)
  case (1 os lease ups req assigned)
  show ?case
  proof (cases "int (length assigned) < req")
    case False
    with 1(2,3) show ?thesis by (auto simp: assign_pools.simps [of os])
  next
    case True
    let ?av = "available_pools ups assigned" and ?d = "GetDiversityExcludedVCenters lease assigned"
    let ?ex = "excluded_vcenters (sub 0 os) lease ?av assigned req (?d \<noteq> None)"
    show ?thesis
    proof (cases "pick_pool (sub 1 os) lease ?av ?ex (nil_map ?d)")
      case (Inl err)
      with True 1(3) show ?thesis
        by (auto simp: assign_pools.simps [of os] stuck_def Let_def split: if_splits)
    next
      case (Inr r)
      obtain pool lease' where r: "r = (pool, lease')" by (cases r)
      from True Inr r 1(3) have "assign_pools (sub 2 os) lease' ups req (assigned @ [pool]) = Assigned l ps"
        by (simp add: assign_pools.simps [of os] Let_def)
      with 1(1) [OF True refl refl refl refl Inr r [symmetric]] 1(2) show ?thesis by blast
    qed
  qed
qed

lemma pools_step_total:
  assumes "choices_ok os" "safe w" "0 \<le> ls_Pools (l_Spec lease)"
  shows "pools_step os api allow req k w lease ups \<noteq> None"
proof -
  have ok: "choices_ok (sub 1 os)" using assms(1) by simp
  have req: "0 < required_pools lease" using assms(3) by (simp add: required_pools_def)
  show ?thesis
    unfolding pools_step_def
    using assign_step_total [OF ok assms(2)] assign_pools_nonempty [OF req]
      release_step_total [OF ok assms(2)] no_pool_step_total [OF ok assms(2)]
    by (simp del: not_None_eq split: sum.split pool_outcome.split)
qed

lemma live_step_total:
  assumes "choices_ok os" "safe w" "0 \<le> ls_Pools (l_Spec lease)"
  shows "live_step os api allow req k w lease \<noteq> None"
proof (cases "l_Phase lease = PHASE_FULFILLED \<or> l_Phase lease = PHASE_FAILED")
  case True
  then show ?thesis by (auto simp: live_step_def Let_def)
next
  case False
  have ok: "choices_ok (sub n os)" for n using assms(1) by simp
  let ?w = "put_lease k lease w"
  have "safe ?w" using assms(2) by simp
  then obtain ups ca where ps: "reconcilePoolStates (sub 0 os) (w_cache ?w) = Some (ups, ca)" "safe (?w\<lparr>w_cache := ca\<rparr>)"
    using pool_states_total [OF ok] by blast
  obtain w2 l2 where p: "pending_again (sub 3 os) (?w\<lparr>w_cache := ca\<rparr>) lease = (w2, l2)" by fastforce
  have w2: "safe w2" "ls_Pools (l_Spec l2) = ls_Pools (l_Spec lease)"
    using p ps(2) by (auto simp: pending_again_def set_phase_def split: if_splits)
  let ?l3 = "default_network_type l2"
  have l3: "ls_Pools (l_Spec ?l3) = ls_Pools (l_Spec lease)" using w2(2) by (simp add: default_network_type_def)
  have s3: "safe (put_lease k ?l3 w2)" using w2(1) by simp
  have "pools_step (sub 6 os) api allow req k (put_lease k ?l3 w2)
      (cond_Set (sub 7 os) (FalseCondition LeaseConditionTypeDelayed) ?l3) ups \<noteq> None"
    by (rule pools_step_total [OF ok s3]) (use l3 assms(3) in simp)
  moreover obtain failed y where y: "failLeaseIfUnsatisfiable (sub 1 os) lease ups = (failed, y)" by fastforce
  moreover have "\<not> failed \<Longrightarrow> y = lease" using y by (auto simp: failLeaseIfUnsatisfiable_def split: prod.splits if_splits)
  ultimately show ?thesis
    using False ps(1) p fail_step_total [OF ok ps(2)] delay_step_total [OF ok s3]
    by (cases failed) (simp_all add: live_step_def Let_def del: One_nat_def not_None_eq)
qed

section \<open>Properties\<close>

text \<open>The API server validates what it stores: \<^verbatim>\<open>spec.pools\<close> is not negative.\<close>

definition leases_validated :: "'s api \<Rightarrow> bool" where
  "leases_validated api \<longleftrightarrow>
     (\<forall>ns n s l. api_get_lease api ns n s = Inr l \<longrightarrow> 0 \<le> ls_Pools (l_Spec l)) \<and>
     (\<forall>x s a s'. api_update_lease api x s = (Inr a, s') \<longrightarrow> 0 \<le> ls_Pools (l_Spec a)) \<and>
     (\<forall>x s a s'. api_status_lease api x s = (Inr a, s') \<longrightarrow> 0 \<le> ls_Pools (l_Spec a))"

lemma LeaseReconcile_total:
  assumes "choices_ok os" "safe w" "leases_validated api"
  shows "LeaseReconcile os api allow req w \<noteq> None"
proof (cases "api_get_lease api (rq_Namespace req) (rq_Name req) (w_server w)")
  case (Inl e)
  then show ?thesis by (simp add: LeaseReconcile_def Let_def)
next
  case (Inr x)
  have up: "0 \<le> ls_Pools (l_Spec a)" if "api_update_lease api x s = (Inr a, s')" for x s a s'
    using assms(3) that unfolding leases_validated_def by blast
  have st: "0 \<le> ls_Pools (l_Spec a)" if "api_status_lease api x s = (Inr a, s')" for x s a s'
    using assms(3) that unfolding leases_validated_def by blast
  have x: "0 \<le> ls_Pools (l_Spec x)" using assms(3) Inr unfolding leases_validated_def by blast
  have i: "case init_step (sub 0 os) api w x of Inl r \<Rightarrow> True | Inr (w', y) \<Rightarrow> safe w' \<and> 0 \<le> ls_Pools (l_Spec y)"
    using assms(2) x by (auto simp: init_step_def Let_def intro: st split: prod.split sum.split)
  have f: "case finalizer_step api w' y of Inl r \<Rightarrow> True | Inr (w'', z) \<Rightarrow> safe w'' \<and> 0 \<le> ls_Pools (l_Spec z)"
    if "safe w'" "0 \<le> ls_Pools (l_Spec y)" for w' y
    using that by (auto simp: finalizer_step_def intro: up split: prod.split sum.split)
  show ?thesis
  proof (cases "init_step (sub 0 os) api w x")
    case (Inl r)
    with Inr show ?thesis by (simp add: LeaseReconcile_def Let_def)
  next
    case ii: (Inr wy)
    obtain w1 y where wy: "wy = (w1, y)" by (cases wy)
    have 1: "safe w1" "0 \<le> ls_Pools (l_Spec y)" using i ii wy by simp_all
    show ?thesis
    proof (cases "finalizer_step api w1 y")
      case (Inl r)
      with Inr ii wy show ?thesis by (simp add: LeaseReconcile_def Let_def)
    next
      case ff: (Inr wz)
      obtain w2 z where wz: "wz = (w2, z)" by (cases wz)
      have 2: "safe w2" "0 \<le> ls_Pools (l_Spec z)" using f [OF 1] ff wz by simp_all
      have "delete_step (sub 1 os) api req k w2 z \<noteq> None" "live_step (sub 2 os) api allow req k w2 z \<noteq> None" for k
        using delete_step_total [OF _ 2(1), of "sub 1 os"] live_step_total [OF _ 2, of "sub 2 os"] assms(1) by simp_all
      with Inr ii wy ff wz show ?thesis
        by (simp add: LeaseReconcile_def Let_def del: One_nat_def not_None_eq)
    qed
  qed
qed

lemma pool_states_key:
  assumes "choices_ok os" "safe w" "gget (ca_pools (w_cache w)) k \<noteq> None"
  obtains out ca p where "pool_states os (w_cache w) = Some (out, ca)" "gget (ca_pools ca) k = Some p"
proof -
  obtain r where "reconcilePoolStates os (w_cache w) = Some r"
    using reconcilePoolStates_total [OF assms(1) safe_ok(2) [OF assms(2)]] by auto
  then obtain out ca where p: "pool_states os (w_cache w) = Some (out, ca)" by (auto simp: reconcilePoolStates_def)
  from pool_states_accounted [OF assms(1) safe_ok(1) [OF assms(2)] p]
  have "rel_option (accounted (w_cache w)) (gget (ca_pools (w_cache w)) k) (gget (ca_pools ca) k)" by blast
  with assms(3) p that show thesis by (cases "gget (ca_pools ca) k") auto
qed

lemma PoolReconcile_total:
  assumes "choices_ok os" "safe w"
  shows "PoolReconcile os api req w \<noteq> None"
proof (cases "api_get_pool api (rq_Namespace req) (rq_Name req) (w_server w)")
  case (Inl e)
  then show ?thesis by (simp add: PoolReconcile_def Let_def)
next
  case (Inr pool)
  let ?k = "object_key (rq_Namespace req) (rq_Name req)"
  have f: "case pool_finalizer_step api w pool of Inl r \<Rightarrow> True | Inr (w', p) \<Rightarrow> safe w'"
    using assms(2) by (auto simp: pool_finalizer_step_def split: prod.split sum.split)
  have n: "case short_name_step api w' p of Inl r \<Rightarrow> True | Inr (w'', q) \<Rightarrow> safe w''" if "safe w'" for w' p
    using that by (auto simp: short_name_step_def split: prod.split sum.split bool.split)
  have "live_pool_step os api req ?k w pool \<noteq> None"
  proof (cases "pool_finalizer_step api w pool")
    case (Inl r)
    then show ?thesis by (simp add: live_pool_step_def)
  next
    case fin: (Inr wp)
    obtain w1 p1 where wp: "wp = (w1, p1)" by (cases wp)
    have w1: "safe w1" using f fin wp by simp
    show ?thesis
    proof (cases "short_name_step api w1 p1")
      case (Inl r)
      with fin wp show ?thesis by (simp add: live_pool_step_def)
    next
      case sn: (Inr wq)
      obtain w2 p2 where wq: "wq = (w2, p2)" by (cases wq)
      have w2: "safe (put_pool ?k (init_pool_status p2) w2)" using n [OF w1, of p1] sn wq by simp
      obtain out ca p where "pool_states os (w_cache (put_pool ?k (init_pool_status p2) w2)) = Some (out, ca)"
        "gget (ca_pools ca) ?k = Some p" by (rule pool_states_key [OF assms(1) w2, of ?k]) simp_all
      with fin wp sn wq show ?thesis by (simp add: live_pool_step_def Let_def)
    qed
  qed
  with Inr show ?thesis by (simp add: PoolReconcile_def Let_def)
qed

text \<open>
  C6: The handlers that touch networks always return: every loop ends and nothing panics, whatever the requests,
  the answers and errors of the server and the map orders, when the cached networks have their pod,
  gateway and data center set and the leases pass validation.
\<close>

theorem handlers_return:
  assumes "choices_ok os" "full_inventory (w_cache w)" "leases_validated api"
  shows "(\<exists>r w'. LeaseReconcile os api allow req w = Some (r, w')) \<and> (\<exists>r w'. PoolReconcile os api req w = Some (r, w'))"
  using LeaseReconcile_total [OF assms(1) _ assms(3), of w allow req] PoolReconcile_total [OF assms(1), of w api req] assms(2)
  by (auto simp: safe_def)

text \<open>
  The fields matter: when a cached network has no gateway, giving it to a lease panics in the generation of
  environment variables.
\<close>

lemma missing_gateway_panics:
  assumes "getNetworksForPool (sub 0 os) ca pool = Some m" "ls_Networks (l_Spec lease) \<le> count_pool_networks lease m"
    and "env_network_for m (l_OwnerReferences lease) = Some net" "ns_Gateway (n_Spec net) = None"
  shows "assign_networks os ca k allow cpg idx (pool # pools) (lease, vl) = None"
  using assms by (simp add: assign_pool_networks_def GenerateEnvVars_def)

section \<open>Witness\<close>

lemma view_full: "full_inventory view_cache"
  using view_inventory by (simp add: full_inventory_def view_cache_def view_n1_def view_n2_def mk_network_def zero_defs)

text \<open>A server that answers with what it is sent if it passes validation.\<close>

definition check_lease :: "Lease \<Rightarrow> unit \<Rightarrow> (string + Lease) \<times> unit" where
  "check_lease x s = (if 0 \<le> ls_Pools (l_Spec x) then (Inr x, s) else (Inl ''invalid'', s))"

definition checking_api :: "unit api" where
  "checking_api = (echo_api view_lease view_pool view_n1)\<lparr>api_update_lease := check_lease, api_status_lease := check_lease\<rparr>"

lemma checking_api_validates: "leases_validated checking_api"
  unfolding leases_validated_def checking_api_def
  by (auto simp: check_lease_def view_lease_def mk_lease_def zero_defs echo_api_def split: if_splits)

theorem handlers_return_witness:
  "(\<exists>r w'. LeaseReconcile std_choices checking_api True \<lparr>rq_Namespace = ''ns'', rq_Name = ''lease''\<rparr>
      \<lparr>w_cache = view_cache, w_server = (), w_metrics = []\<rparr> = Some (r, w')) \<and>
   (\<exists>r w'. PoolReconcile std_choices checking_api \<lparr>rq_Namespace = ''ns'', rq_Name = ''lease''\<rparr>
      \<lparr>w_cache = view_cache, w_server = (), w_metrics = []\<rparr> = Some (r, w'))"
  by (rule handlers_return [OF std_choices_ok _ checking_api_validates]) (simp add: view_full)


end
