(* ===== verification/MetricsRegistry.thy ===== *)
theory MetricsRegistry
  imports ApiClient
begin

text \<open>
  The Prometheus collectors of \<^verbatim>\<open>pkg/controller/metrics.go\<close>, their registration, and what a call on a
  collector does. Registration and calls follow the vendored client library
  (\<^verbatim>\<open>registry.go\<close>, \<^verbatim>\<open>desc.go\<close>, \<^verbatim>\<open>vec.go\<close>, \<^verbatim>\<open>labels.go\<close>): registering an invalid descriptor or a name twice panics, and so
  does a call whose labels are not the ones the collector was declared with. Label values come from JSON
  objects of the API server, so they are valid UTF-8. Descriptors are compared by name instead of by the hash of the name.
\<close>

section \<open>Collectors\<close>

datatype metric_kind = Gauge | Counter

record collector =
  co_Kind :: metric_kind
  co_Name :: string
  co_Help :: string
  co_Labels :: "string list"

definition PoolMemoryAvailable :: collector where
  "PoolMemoryAvailable = \<lparr>co_Kind = Gauge, co_Name = ''pool_memory_available'',
     co_Help = ''The amount of memory available in a pool'',
     co_Labels = [''namespace'', ''pool'']\<rparr>"

definition PoolMemoryTotal :: collector where
  "PoolMemoryTotal = \<lparr>co_Kind = Gauge, co_Name = ''pool_memory_total'',
     co_Help = ''The total amount of memory of a pool'',
     co_Labels = [''namespace'', ''pool'']\<rparr>"

definition PoolCpusAvailable :: collector where
  "PoolCpusAvailable = \<lparr>co_Kind = Gauge, co_Name = ''pool_cpus_available'',
     co_Help = ''The amount of cpus available in a pool'',
     co_Labels = [''namespace'', ''pool'']\<rparr>"

definition PoolCpusTotal :: collector where
  "PoolCpusTotal = \<lparr>co_Kind = Gauge, co_Name = ''pool_cpus_total'',
     co_Help = ''The total amount of cpus of a pool'',
     co_Labels = [''namespace'', ''pool'']\<rparr>"

definition PoolNetworksAvailable :: collector where
  "PoolNetworksAvailable = \<lparr>co_Kind = Gauge, co_Name = ''pool_networks_available'',
     co_Help = ''Number of available (not in use) networks per pool'',
     co_Labels = [''namespace'', ''pool'']\<rparr>"

definition PoolNetworksTotal :: collector where
  "PoolNetworksTotal = \<lparr>co_Kind = Gauge, co_Name = ''pool_networks_total'',
     co_Help = ''Total number of networks in a pool'',
     co_Labels = [''namespace'', ''pool'']\<rparr>"

definition PoolNetworksAvailableByType :: collector where
  "PoolNetworksAvailableByType = \<lparr>co_Kind = Gauge, co_Name = ''pool_networks_available_by_type'',
     co_Help = ''Number of available (not in use) networks per pool, broken down by network type'',
     co_Labels = [''namespace'', ''pool'', ''networkType'']\<rparr>"

definition PoolNetworksTotalByType :: collector where
  "PoolNetworksTotalByType = \<lparr>co_Kind = Gauge, co_Name = ''pool_networks_total_by_type'',
     co_Help = ''Total number of networks per pool, broken down by network type'',
     co_Labels = [''namespace'', ''pool'', ''networkType'']\<rparr>"

definition PoolVcpusUtilizationRatio :: collector where
  "PoolVcpusUtilizationRatio = \<lparr>co_Kind = Gauge, co_Name = ''pool_vcpus_utilization_ratio'',
     co_Help = ''Ratio of vCPUs in use to total available (with overcommit) per pool'',
     co_Labels = [''namespace'', ''pool'']\<rparr>"

definition PoolMemoryUtilizationRatio :: collector where
  "PoolMemoryUtilizationRatio = \<lparr>co_Kind = Gauge, co_Name = ''pool_memory_utilization_ratio'',
     co_Help = ''Ratio of memory in use to total available per pool'',
     co_Labels = [''namespace'', ''pool'']\<rparr>"

definition PoolNetworksUtilizationRatio :: collector where
  "PoolNetworksUtilizationRatio = \<lparr>co_Kind = Gauge, co_Name = ''pool_networks_utilization_ratio'',
     co_Help = ''Ratio of networks in use to total available per pool'',
     co_Labels = [''namespace'', ''pool'']\<rparr>"

definition PoolNoSchedule :: collector where
  "PoolNoSchedule = \<lparr>co_Kind = Gauge, co_Name = ''pool_no_schedule'',
     co_Help = ''Whether pool has scheduling disabled (1=disabled, 0=enabled)'',
     co_Labels = [''namespace'', ''pool'']\<rparr>"

definition PoolExcluded :: collector where
  "PoolExcluded = \<lparr>co_Kind = Gauge, co_Name = ''pool_excluded'',
     co_Help = ''Whether pool is excluded from default scheduling (1=excluded, 0=included)'',
     co_Labels = [''namespace'', ''pool'']\<rparr>"

definition LeasesInUse :: collector where
  "LeasesInUse = \<lparr>co_Kind = Gauge, co_Name = ''leases_in_use'',
     co_Help = ''Number of leases in use'',
     co_Labels = [''namespace'', ''pool'']\<rparr>"

definition LeaseCounts :: collector where
  "LeaseCounts = \<lparr>co_Kind = Gauge, co_Name = ''leases_counts'',
     co_Help = ''Counts of active leases'',
     co_Labels = [''namespace'', ''networkType'', ''phase'']\<rparr>"

definition LeaseAgeSeconds :: collector where
  "LeaseAgeSeconds = \<lparr>co_Kind = Gauge, co_Name = ''lease_age_seconds'',
     co_Help = ''Age of active leases in seconds since creation'',
     co_Labels = [''namespace'', ''lease'', ''pool'', ''networkType'']\<rparr>"

definition LeaseTransitionsTotal :: collector where
  "LeaseTransitionsTotal = \<lparr>co_Kind = Counter, co_Name = ''lease_transitions_total'',
     co_Help = ''Total number of lease phase transitions'',
     co_Labels = [''namespace'', ''networkType'', ''phase'']\<rparr>"

definition LeaseDelaysTotal :: collector where
  "LeaseDelaysTotal = \<lparr>co_Kind = Counter, co_Name = ''lease_delays_total'',
     co_Help = ''Total number of times leases have been delayed'',
     co_Labels = [''namespace'', ''networkType'']\<rparr>"

definition NetworkLeaseCount :: collector where
  "NetworkLeaseCount = \<lparr>co_Kind = Gauge, co_Name = ''network_lease_count'',
     co_Help = ''Number of leases currently using each network'',
     co_Labels = [''namespace'', ''network'', ''networkType'', ''pool'']\<rparr>"

section \<open>Registration\<close>

definition name_char :: "bool \<Rightarrow> char \<Rightarrow> bool" where
  "name_char first c =
     (let n = of_char c :: nat in
      (97 \<le> n \<and> n \<le> 122) \<or> (65 \<le> n \<and> n \<le> 90) \<or> c = CHR ''_'' \<or> (48 \<le> n \<and> n \<le> 57 \<and> \<not> first))"

fun IsValidMetricName :: "string \<Rightarrow> bool" where
  "IsValidMetricName [] = False"
| "IsValidMetricName (c # cs) = ((name_char True c \<or> c = CHR '':'') \<and> list_all (\<lambda>c. name_char False c \<or> c = CHR '':'') cs)"

fun checkLabelName :: "string \<Rightarrow> bool" where
  "checkLabelName [] = False"
| "checkLabelName (c # cs) =
     (name_char True c \<and> list_all (name_char False) cs \<and> take 2 (c # cs) \<noteq> ''__'')"

definition desc_valid :: "collector \<Rightarrow> bool" where
  "desc_valid c \<longleftrightarrow> IsValidMetricName (co_Name c) \<and> list_all checkLabelName (co_Labels c) \<and> distinct (co_Labels c)"

type_synonym registry = "collector list"

definition find_collector :: "registry \<Rightarrow> string \<Rightarrow> collector option" where
  "find_collector reg name = find (\<lambda>c. co_Name c = name) reg"

definition Register :: "collector \<Rightarrow> registry \<Rightarrow> registry option" where
  "Register c reg = (if desc_valid c \<and> find_collector reg (co_Name c) = None then Some (reg @ [c]) else None)"

fun MustRegister :: "collector list \<Rightarrow> registry \<Rightarrow> registry option" where
  "MustRegister [] reg = Some reg"
| "MustRegister (c # cs) reg = (case Register c reg of None \<Rightarrow> None | Some reg \<Rightarrow> MustRegister cs reg)"

definition controller_collectors :: "collector list" where
  "controller_collectors =
     [PoolMemoryAvailable, PoolMemoryTotal,
      PoolNetworksAvailable, PoolNetworksTotal,
      PoolNetworksAvailableByType, PoolNetworksTotalByType,
      PoolCpusAvailable, PoolCpusTotal,
      PoolVcpusUtilizationRatio, PoolMemoryUtilizationRatio, PoolNetworksUtilizationRatio,
      PoolNoSchedule, PoolExcluded,
      LeasesInUse, LeaseCounts,
      LeaseAgeSeconds, LeaseTransitionsTotal, LeaseDelaysTotal,
      NetworkLeaseCount]"

definition InitMetrics :: "registry \<Rightarrow> registry option" where
  "InitMetrics reg = MustRegister controller_collectors reg"

section \<open>Calls\<close>

text \<open>\<open>With\<close> returns the series of a set of labels, or panics.\<close>

definition with_ok :: "collector \<Rightarrow> string gomap \<Rightarrow> bool" where
  "with_ok c labels \<longleftrightarrow> length labels = length (co_Labels c) \<and> list_all (\<lambda>n. gget labels n \<noteq> None) (co_Labels c)"

definition labels_ok :: "registry \<Rightarrow> string \<Rightarrow> string gomap \<Rightarrow> bool" where
  "labels_ok reg name labels = (case find_collector reg name of None \<Rightarrow> False | Some c \<Rightarrow> with_ok c labels)"

definition is_gauge :: "registry \<Rightarrow> string \<Rightarrow> bool" where
  "is_gauge reg name = (case find_collector reg name of None \<Rightarrow> False | Some c \<Rightarrow> co_Kind c = Gauge)"

fun call_ok :: "registry \<Rightarrow> metric \<Rightarrow> bool" where
  "call_ok reg (MInc name labels) = labels_ok reg name labels"
| "call_ok reg (MDec name labels) = (is_gauge reg name \<and> labels_ok reg name labels)"
| "call_ok reg (MAdd name labels v) = (is_gauge reg name \<and> labels_ok reg name labels)"
| "call_ok reg (MSet name labels v) = (is_gauge reg name \<and> labels_ok reg name labels)"
| "call_ok reg (MReset name) = (find_collector reg name \<noteq> None)"

text \<open>The series of a collector are found by the label values in the declared order.\<close>

type_synonym series = "string \<Rightarrow> string list \<Rightarrow> gofloat option"

definition series_key :: "registry \<Rightarrow> string \<Rightarrow> string gomap \<Rightarrow> string list" where
  "series_key reg name labels =
     (case find_collector reg name of None \<Rightarrow> [] | Some c \<Rightarrow> map (gget_default [] labels) (co_Labels c))"

definition set_series :: "string \<Rightarrow> string list \<Rightarrow> gofloat option \<Rightarrow> series \<Rightarrow> series" where
  "set_series name vals v st = (\<lambda>n vs. if n = name \<and> vs = vals then v else st n vs)"

definition add_series :: "registry \<Rightarrow> string \<Rightarrow> string gomap \<Rightarrow> gofloat \<Rightarrow> series \<Rightarrow> series" where
  "add_series reg name labels v st =
     (let vals = series_key reg name labels
      in set_series name vals (Some (f64_add (case st name vals of None \<Rightarrow> Fin 0 | Some old \<Rightarrow> old) v)) st)"

fun apply_call :: "registry \<Rightarrow> metric \<Rightarrow> series \<Rightarrow> series" where
  "apply_call reg (MInc name labels) st = add_series reg name labels (Fin 1) st"
| "apply_call reg (MDec name labels) st = add_series reg name labels (Fin (-1)) st"
| "apply_call reg (MAdd name labels v) st = add_series reg name labels v st"
| "apply_call reg (MSet name labels v) st = set_series name (series_key reg name labels) (Some v) st"
| "apply_call reg (MReset name) st = (\<lambda>n vs. if n = name then None else st n vs)"

definition exposed :: "registry \<Rightarrow> metric list \<Rightarrow> series" where
  "exposed reg calls = fold (apply_call reg) calls (\<lambda>_ _. None)"

section \<open>Lemmas\<close>

lemmas collector_defs =
  PoolMemoryAvailable_def PoolMemoryTotal_def PoolCpusAvailable_def PoolCpusTotal_def PoolNetworksAvailable_def
  PoolNetworksTotal_def PoolNetworksAvailableByType_def PoolNetworksTotalByType_def PoolVcpusUtilizationRatio_def
  PoolMemoryUtilizationRatio_def PoolNetworksUtilizationRatio_def PoolNoSchedule_def PoolExcluded_def LeasesInUse_def
  LeaseCounts_def LeaseAgeSeconds_def LeaseTransitionsTotal_def LeaseDelaysTotal_def NetworkLeaseCount_def

lemma find_collector_None: "find_collector reg name = None \<longleftrightarrow> name \<notin> co_Name ` set reg"
  by (auto simp: find_collector_def find_None_iff image_iff)

lemma find_collector_append:
  "find_collector (reg @ cs) name = (case find_collector reg name of None \<Rightarrow> find_collector cs name | Some c \<Rightarrow> Some c)"
  by (induction reg) (auto simp: find_collector_def)

lemma MustRegister_Some:
  "MustRegister cs reg = Some reg' \<longleftrightarrow>
     list_all desc_valid cs \<and> distinct (map co_Name cs) \<and> co_Name ` set cs \<inter> co_Name ` set reg = {} \<and> reg' = reg @ cs"
proof (induction cs arbitrary: reg)
  case (Cons c cs)
  show ?case by (auto simp: Register_def find_collector_None Cons.IH split: option.split)
qed auto

text \<open>What the controllers rely on: each of their collectors is the one registered under its name.\<close>

definition ready :: "registry \<Rightarrow> bool" where
  "ready reg \<longleftrightarrow> list_all (\<lambda>c. find_collector reg (co_Name c) = Some c) controller_collectors"

lemma controller_collectors_valid:
  "list_all desc_valid controller_collectors" "distinct (map co_Name controller_collectors)" "ready controller_collectors"
  by code_simp+

lemma InitMetrics_ready:
  assumes "InitMetrics reg = Some reg'"
  shows "ready reg'"
proof -
  from assms have r: "co_Name ` set controller_collectors \<inter> co_Name ` set reg = {}" "reg' = reg @ controller_collectors"
    by (simp_all add: InitMetrics_def MustRegister_Some)
  have "find_collector reg' (co_Name c) = Some c" if c: "c \<in> set controller_collectors" for c
  proof -
    have "find_collector reg (co_Name c) = None" unfolding find_collector_None using r(1) c by blast
    then show ?thesis
      using controller_collectors_valid(3) c unfolding r(2) find_collector_append ready_def list_all_iff by simp
  qed
  then show ?thesis by (simp add: ready_def list_all_iff)
qed

lemma ready_find:
  assumes "ready reg"
  shows
    "find_collector reg ''pool_memory_available'' = Some PoolMemoryAvailable"
    "find_collector reg ''pool_memory_total'' = Some PoolMemoryTotal"
    "find_collector reg ''pool_cpus_available'' = Some PoolCpusAvailable"
    "find_collector reg ''pool_cpus_total'' = Some PoolCpusTotal"
    "find_collector reg ''pool_networks_available'' = Some PoolNetworksAvailable"
    "find_collector reg ''pool_networks_total'' = Some PoolNetworksTotal"
    "find_collector reg ''pool_networks_available_by_type'' = Some PoolNetworksAvailableByType"
    "find_collector reg ''pool_networks_total_by_type'' = Some PoolNetworksTotalByType"
    "find_collector reg ''pool_vcpus_utilization_ratio'' = Some PoolVcpusUtilizationRatio"
    "find_collector reg ''pool_memory_utilization_ratio'' = Some PoolMemoryUtilizationRatio"
    "find_collector reg ''pool_networks_utilization_ratio'' = Some PoolNetworksUtilizationRatio"
    "find_collector reg ''pool_no_schedule'' = Some PoolNoSchedule"
    "find_collector reg ''pool_excluded'' = Some PoolExcluded"
    "find_collector reg ''leases_in_use'' = Some LeasesInUse"
    "find_collector reg ''leases_counts'' = Some LeaseCounts"
    "find_collector reg ''lease_age_seconds'' = Some LeaseAgeSeconds"
    "find_collector reg ''lease_transitions_total'' = Some LeaseTransitionsTotal"
    "find_collector reg ''lease_delays_total'' = Some LeaseDelaysTotal"
    "find_collector reg ''network_lease_count'' = Some NetworkLeaseCount"
  using assms by (simp_all add: ready_def controller_collectors_def collector_defs)

end
