(* ===== verification/Exclusivity.thy ===== *)
theory Exclusivity
  imports LeaseOutcome
begin

text \<open>
  Exclusive networks through whole reconciles. The invariant relates the cache to what the API server stores:
  no two cached leases of different jobs own one network, and whatever network a stored lease owns,
  its cached version owns too. What is assumed of the server is stated first; every handler of the
  controllers then keeps the invariant.
\<close>

section \<open>Owners\<close>

definition job_of :: "Lease \<Rightarrow> bool \<times> string option" where
  "job_of l = (network_only l, gget (l_Labels l) BoskosIdLabel)"

lemma same_job_cong: "job_of a = job_of a' \<Longrightarrow> job_of b = job_of b' \<Longrightarrow> same_job a b = same_job a' b'"
  unfolding same_job_def job_of_def by (simp only: prod.inject)

definition same_owner :: "Lease \<Rightarrow> Lease \<Rightarrow> bool" where
  "same_owner a b \<longleftrightarrow> l_Namespace a = l_Namespace b \<and> l_Name a = l_Name b \<and> refers_to a = refers_to b \<and> job_of a = job_of b"

text \<open>Whatever network \<open>l\<close> owns, \<open>x\<close> owns too, for the same job.\<close>

definition covers :: "Lease \<Rightarrow> Lease \<Rightarrow> bool" where
  "covers x l \<longleftrightarrow> (\<forall>name. refers_to l name \<longrightarrow> refers_to x name \<and> job_of x = job_of l)"

lemma same_owner_refl [simp]: "same_owner a a" by (simp add: same_owner_def)

lemma same_owner_sym: "same_owner a b \<Longrightarrow> same_owner b a" by (simp add: same_owner_def)

lemma same_owner_trans: "same_owner a b \<Longrightarrow> same_owner b c \<Longrightarrow> same_owner a c" by (simp add: same_owner_def)

lemma covers_refl [simp]: "covers a a" by (simp add: covers_def)

lemma covers_trans: "covers a b \<Longrightarrow> covers b c \<Longrightarrow> covers a c" unfolding covers_def by metis

lemma covers_same: "same_owner a b \<Longrightarrow> covers a b" by (simp add: covers_def same_owner_def)

lemma same_owner_frame:
  assumes "l_Meta a = l_Meta b" "l_Spec a = l_Spec b"
  shows "same_owner a b"
  unfolding same_owner_def using assms by (simp add: refers_to_def [abs_def] job_of_def network_only_def)

section \<open>What is assumed of the API server\<close>

abbreviation "lease_id x \<equiv> (l_Namespace x, l_Name x)"

definition stored_lease :: "'s api \<Rightarrow> Lease \<Rightarrow> 's \<Rightarrow> api_error + Lease" where
  "stored_lease api x s = api_get_lease api (l_Namespace x) (l_Name x) s"

text \<open>Outside \<open>K\<close> no lease appears, no deletion is taken back and no lease changes its job or networks.\<close>

definition kept :: "'s api \<Rightarrow> (string \<times> string) set \<Rightarrow> 's \<Rightarrow> 's \<Rightarrow> bool" where
  "kept api K s s' \<longleftrightarrow> (\<forall>ns n l. (ns, n) \<notin> K \<longrightarrow> api_get_lease api ns n s' = Inr l \<longrightarrow>
     (\<exists>l0. api_get_lease api ns n s = Inr l0 \<and> same_owner l0 l \<and>
       (l_DeletionTimestamp l = None \<longrightarrow> l_DeletionTimestamp l0 = None)))"

text \<open>A read returns the object of that name; a namespace has no slash in its name.\<close>

definition reads_ok :: "'s api \<Rightarrow> bool" where
  "reads_ok api \<longleftrightarrow> (\<forall>ns n s l. api_get_lease api ns n s = Inr l \<longrightarrow>
     l_Namespace l = ns \<and> l_Name l = n \<and> CHR ''/'' \<notin> set ns)"

text \<open>
  An update concerns one lease that exists and answers what is stored afterwards, with the networks and
  the job that were sent; when it fails, the old or the new lease is stored. An object that is being
  deleted may vanish.
\<close>

definition lease_writes_ok :: "'s api \<Rightarrow> bool" where
  "lease_writes_ok api \<longleftrightarrow> (\<forall>x s r s'. api_update_lease api x s = (r, s') \<longrightarrow>
     kept api {lease_id x} s s' \<and>
     (\<forall>l. stored_lease api x s' = Inr l \<longrightarrow> (\<exists>l0. stored_lease api x s = Inr l0 \<and>
        (l_DeletionTimestamp l = None \<longrightarrow> l_DeletionTimestamp l0 = None) \<and> (same_owner x l \<or> same_owner l0 l))) \<and>
     (\<forall>a. r = Inr a \<longrightarrow> same_owner x a \<and>
        (stored_lease api x s' = Inr a \<or> l_DeletionTimestamp a \<noteq> None \<and> (\<forall>l. stored_lease api x s' \<noteq> Inr l))))"

text \<open>The status is a subresource: writing it changes neither owners nor labels, and the answer is what is stored.\<close>

definition status_writes_ok :: "'s api \<Rightarrow> bool" where
  "status_writes_ok api \<longleftrightarrow> (\<forall>x s r s'. api_status_lease api x s = (r, s') \<longrightarrow>
     kept api {} s s' \<and> (\<forall>a. r = Inr a \<longrightarrow> lease_id a = lease_id x \<and> stored_lease api a s' = Inr a))"

text \<open>Writes of other objects do not concern leases; deleting a lease only marks it.\<close>

definition other_writes_ok :: "'s api \<Rightarrow> bool" where
  "other_writes_ok api \<longleftrightarrow>
     (\<forall>p s. kept api {} s (snd (api_update_pool api p s))) \<and> (\<forall>p s. kept api {} s (snd (api_status_pool api p s))) \<and>
     (\<forall>n s. kept api {} s (snd (api_update_network api n s))) \<and> (\<forall>l s. kept api {} s (snd (api_delete_lease api l s)))"

text \<open>The client fills in the kind of the objects it reads and keeps it in the objects it writes.\<close>

definition kinds_served :: "'s api \<Rightarrow> bool" where
  "kinds_served api \<longleftrightarrow>
     (\<forall>ns n s x. api_get_network api ns n s = Inr x \<longrightarrow> n_Kind x = ''Network'') \<and>
     (\<forall>x s a s'. api_update_network api x s = (Inr a, s') \<longrightarrow> n_Kind a = n_Kind x) \<and>
     (\<forall>ns n s x. api_get_pool api ns n s = Inr x \<longrightarrow> p_Kind x = ''Pool'') \<and>
     (\<forall>x s a s'. api_update_pool api x s = (Inr a, s') \<longrightarrow> p_Kind a = p_Kind x) \<and>
     (\<forall>x s a s'. api_status_pool api x s = (Inr a, s') \<longrightarrow> p_Kind a = p_Kind x)"

text \<open>An update that would take networks away from the stored lease does not fail.\<close>

definition releases_succeed :: "'s api \<Rightarrow> bool" where
  "releases_succeed api \<longleftrightarrow> (\<forall>x s e s' l. api_update_lease api x s = (Inl e, s') \<longrightarrow> stored_lease api x s' = Inr l \<longrightarrow>
     (\<forall>name. refers_to l name \<longrightarrow> refers_to x name))"

definition server_ok :: "'s api \<Rightarrow> bool" where
  "server_ok api \<longleftrightarrow> reads_ok api \<and> lease_writes_ok api \<and> status_writes_ok api \<and> other_writes_ok api \<and>
     kinds_served api \<and> releases_succeed api"

lemma server_okD:
  "server_ok api \<Longrightarrow> reads_ok api" "server_ok api \<Longrightarrow> lease_writes_ok api" "server_ok api \<Longrightarrow> status_writes_ok api"
  "server_ok api \<Longrightarrow> other_writes_ok api" "server_ok api \<Longrightarrow> kinds_served api" "server_ok api \<Longrightarrow> releases_succeed api"
  by (simp_all add: server_ok_def)

lemma kept_refl [simp]: "kept api K s s"
  unfolding kept_def by (metis same_owner_refl)

lemma keptE:
  assumes "kept api K s s'" "api_get_lease api ns n s' = Inr l" "(ns, n) \<notin> K"
  obtains l0 where "api_get_lease api ns n s = Inr l0" "same_owner l0 l"
    "l_DeletionTimestamp l = None \<longrightarrow> l_DeletionTimestamp l0 = None"
  using assms unfolding kept_def by blast

lemma kept_mono: "kept api {} s s' \<Longrightarrow> kept api K s s'"
  unfolding kept_def by blast

lemma readD: "server_ok api \<Longrightarrow> api_get_lease api ns n s = Inr l \<Longrightarrow> l_Namespace l = ns \<and> l_Name l = n \<and> CHR ''/'' \<notin> set ns"
  unfolding server_ok_def reads_ok_def by blast

section \<open>The invariant\<close>

definition key_of :: "Lease \<Rightarrow> string" where
  "key_of l = object_key (l_Namespace l) (l_Name l)"

definition keyed :: "cache \<Rightarrow> bool" where
  "keyed ca \<longleftrightarrow> (\<forall>k l. gget (ca_leases ca) k = Some l \<longrightarrow> k = key_of l \<and> CHR ''/'' \<notin> set (l_Namespace l))"

definition pool_kinds_ok :: "cache \<Rightarrow> bool" where
  "pool_kinds_ok ca \<longleftrightarrow> (\<forall>k p. gget (ca_pools ca) k = Some p \<longrightarrow> p_Kind p = ''Pool'')"

definition synced :: "'s api \<Rightarrow> cache \<Rightarrow> 's \<Rightarrow> bool" where
  "synced api ca s \<longleftrightarrow> (\<forall>ns n l. api_get_lease api ns n s = Inr l \<longrightarrow>
     (case gget (ca_leases ca) (object_key ns n) of
        Some c \<Rightarrow> covers c l
      | None \<Rightarrow> l_DeletionTimestamp l = None \<longrightarrow> (\<forall>name. \<not> refers_to l name)))"

definition winv :: "'s api \<Rightarrow> 's world \<Rightarrow> bool" where
  "winv api w \<longleftrightarrow> cache_ok (w_cache w) \<and> kinds_ok (w_cache w) \<and> pool_kinds_ok (w_cache w) \<and> keyed (w_cache w) \<and>
     networks_exclusive (w_cache w) \<and> synced api (w_cache w) (w_server w)"

lemma winvD:
  assumes "winv api w"
  shows "cache_ok (w_cache w)" "kinds_ok (w_cache w)" "pool_kinds_ok (w_cache w)" "keyed (w_cache w)"
    "networks_exclusive (w_cache w)" "synced api (w_cache w) (w_server w)"
  using assms by (simp_all add: winv_def)

lemma object_key_inj:
  assumes "CHR ''/'' \<notin> set ns" "CHR ''/'' \<notin> set ns'" "object_key ns n = object_key ns' n'"
  shows "ns = ns' \<and> n = n'"
proof -
  have tw: "takeWhile (\<lambda>c. c \<noteq> CHR ''/'') (object_key m y) = m" if "CHR ''/'' \<notin> set m" for m y
    using that by (auto simp: object_key_def takeWhile_append)
  have "ns = ns'" using tw [OF assms(1), of n] tw [OF assms(2), of n'] assms(3) by simp
  with assms(3) show ?thesis by (simp add: object_key_def)
qed

lemma synced_cached:
  "synced api ca s \<Longrightarrow> api_get_lease api ns n s = Inr l \<Longrightarrow> gget (ca_leases ca) (object_key ns n) = Some c \<Longrightarrow> covers c l"
  by (auto simp: synced_def split: option.splits)

lemma synced_fresh:
  "synced api ca s \<Longrightarrow> api_get_lease api ns n s = Inr l \<Longrightarrow> gget (ca_leases ca) (object_key ns n) = None \<Longrightarrow>
   l_DeletionTimestamp l = None \<Longrightarrow> \<not> refers_to l name"
  unfolding synced_def by (drule spec [of _ ns], drule spec [of _ n], drule spec [of _ l]) simp

text \<open>The lease at hand owns only networks that its cached version owns, and all those the stored one owns.\<close>

definition inside :: "cache \<Rightarrow> Lease \<Rightarrow> bool" where
  "inside ca x \<longleftrightarrow> (\<forall>name. refers_to x name \<longrightarrow>
     (\<exists>c. gget (ca_leases ca) (key_of x) = Some c \<and> refers_to c name \<and> job_of c = job_of x))"

definition backed :: "'s api \<Rightarrow> 's \<Rightarrow> Lease \<Rightarrow> bool" where
  "backed api s x \<longleftrightarrow> (\<forall>l. stored_lease api x s = Inr l \<longrightarrow> covers x l)"

definition cur :: "'s api \<Rightarrow> 's world \<Rightarrow> Lease \<Rightarrow> bool" where
  "cur api w x \<longleftrightarrow> winv api w \<and> CHR ''/'' \<notin> set (l_Namespace x) \<and> inside (w_cache w) x \<and> backed api (w_server w) x"

lemma exclusive_inside:
  assumes "networks_exclusive ca" "inside ca x"
  shows "networks_exclusive (with_lease ca (key_of x) x)"
  unfolding networks_exclusive_def
proof (intro allI impI)
  fix k k' l l' name
  assume *: "gget (ca_leases (with_lease ca (key_of x) x)) k = Some l"
    "gget (ca_leases (with_lease ca (key_of x) x)) k' = Some l'" "k \<noteq> k'" "refers_to l name" "refers_to l' name"
  have old: "\<exists>c. gget (ca_leases ca) i = Some c \<and> refers_to c name \<and> job_of c = job_of m"
    if "gget (ca_leases (with_lease ca (key_of x) x)) i = Some m" "refers_to m name" for i m
    using that assms(2) by (cases "i = key_of x") (auto simp: inside_def)
  from old [OF *(1,4)] old [OF *(2,5)] obtain c c' where
      "gget (ca_leases ca) k = Some c" "refers_to c name" "job_of c = job_of l"
      "gget (ca_leases ca) k' = Some c'" "refers_to c' name" "job_of c' = job_of l'" by blast
  with exclusiveD [OF assms(1)] *(3) same_job_cong show "same_job l l'" by blast
qed

lemma put_lease_with: "w_cache (put_lease k x w) = with_lease (w_cache w) k x"
  by (simp add: put_lease_def with_lease_def)

text \<open>The lease at hand is put into the cache.\<close>

lemma winv_put:
  assumes srv: "server_ok api" and w: "winv api w" and x: "CHR ''/'' \<notin> set (l_Namespace x)"
    and ex: "networks_exclusive (with_lease (w_cache w) (key_of x) x)" and b: "backed api (w_server w) x"
  shows "winv api (put_lease (key_of x) x w)"
proof -
  have "synced api (with_lease (w_cache w) (key_of x) x) (w_server w)"
    unfolding synced_def
  proof (intro allI impI)
    fix ns n l assume get: "api_get_lease api ns n (w_server w) = Inr l"
    show "case gget (ca_leases (with_lease (w_cache w) (key_of x) x)) (object_key ns n) of
        Some c \<Rightarrow> covers c l | None \<Rightarrow> l_DeletionTimestamp l = None \<longrightarrow> (\<forall>name. \<not> refers_to l name)"
    proof (cases "object_key ns n = key_of x")
      case True
      then have "ns = l_Namespace x \<and> n = l_Name x"
        using object_key_inj [OF _ x, of ns n "l_Name x"] readD [OF srv get] by (simp add: key_of_def)
      with b get have "covers x l" by (simp add: backed_def stored_lease_def)
      with True show ?thesis by simp
    next
      case False
      with winvD(6) [OF w] get show ?thesis by (simp add: synced_def)
    qed
  qed
  moreover have "keyed (with_lease (w_cache w) (key_of x) x)"
    using winvD(4) [OF w] x by (simp add: keyed_def)
  ultimately show ?thesis
    using winvD [OF w] ex by (simp add: winv_def put_lease_with kinds_ok_def pool_kinds_ok_def)
qed

lemma cur_put:
  assumes "server_ok api" "cur api w x"
  shows "winv api (put_lease (key_of x) x w) \<and> cur api (put_lease (key_of x) x w) x"
proof -
  from assms(2) have *: "winv api w" "CHR ''/'' \<notin> set (l_Namespace x)" "inside (w_cache w) x" "backed api (w_server w) x"
    by (simp_all add: cur_def)
  have "winv api (put_lease (key_of x) x w)"
    by (rule winv_put [OF assms(1) *(1,2) exclusive_inside [OF winvD(5) [OF *(1)] *(3)] *(4)])
  with * show ?thesis by (simp add: cur_def inside_def)
qed

lemma winv_put_cur: "server_ok api \<Longrightarrow> cur api w x \<Longrightarrow> k = key_of x \<Longrightarrow> winv api (put_lease k x w)"
  using cur_put by blast

lemma key_of_same: "same_owner x y \<Longrightarrow> key_of y = key_of x"
  by (simp add: key_of_def same_owner_def)

lemma cur_same:
  assumes "cur api w x" "same_owner x y"
  shows "cur api w y"
proof -
  have y: "refers_to y = refers_to x" "job_of y = job_of x" "l_Namespace y = l_Namespace x" "l_Name y = l_Name x"
    using assms(2) by (simp_all add: same_owner_def)
  show ?thesis
    using assms(1) unfolding cur_def inside_def backed_def stored_lease_def covers_def key_of_def y .
qed

section \<open>Calls of the server\<close>

lemma covers_stored:
  assumes "synced api ca s" "api_get_lease api ns n s = Inr l0" "covers l0 l"
    and "l_DeletionTimestamp l = None \<longrightarrow> l_DeletionTimestamp l0 = None"
  shows "case gget (ca_leases ca) (object_key ns n) of
    Some c \<Rightarrow> covers c l | None \<Rightarrow> l_DeletionTimestamp l = None \<longrightarrow> (\<forall>name. \<not> refers_to l name)"
proof (cases "gget (ca_leases ca) (object_key ns n)")
  case None
  then show ?thesis
    using synced_fresh [OF assms(1,2)] assms(3,4) unfolding covers_def by simp blast
next
  case (Some c)
  from covers_trans [OF synced_cached [OF assms(1,2) Some] assms(3)] Some show ?thesis by simp
qed

lemma winv_kept:
  assumes "winv api w" "kept api {} (w_server w) s'"
  shows "winv api (set_server s' w)"
proof -
  have "synced api (w_cache w) s'"
    unfolding synced_def
  proof (intro allI impI)
    fix ns n l assume get: "api_get_lease api ns n s' = Inr l"
    obtain l0 where l0: "api_get_lease api ns n (w_server w) = Inr l0" "same_owner l0 l"
      "l_DeletionTimestamp l = None \<longrightarrow> l_DeletionTimestamp l0 = None" by (rule keptE [OF assms(2) get]) simp_all
    show "case gget (ca_leases (w_cache w)) (object_key ns n) of
        Some c \<Rightarrow> covers c l | None \<Rightarrow> l_DeletionTimestamp l = None \<longrightarrow> (\<forall>name. \<not> refers_to l name)"
      by (rule covers_stored [OF winvD(6) [OF assms(1)] l0(1) covers_same [OF l0(2)] l0(3)])
  qed
  with assms(1) show ?thesis by (simp add: winv_def)
qed

lemma backed_kept:
  assumes "backed api s x" "kept api {} s s'"
  shows "backed api s' x"
  unfolding backed_def
proof (intro allI impI)
  fix l assume l: "stored_lease api x s' = Inr l"
  obtain l0 where "stored_lease api x s = Inr l0" "same_owner l0 l"
    by (rule keptE [OF assms(2) l [unfolded stored_lease_def]]) (simp_all add: stored_lease_def)
  with assms(1) covers_trans covers_same show "covers x l" unfolding backed_def by blast
qed

lemma cur_kept: "cur api w x \<Longrightarrow> kept api {} (w_server w) s' \<Longrightarrow> cur api (set_server s' w) x"
  by (auto simp: cur_def winv_kept intro: backed_kept)

text \<open>What a read returns is the lease at hand, unless it is being deleted and not cached.\<close>

lemma cur_read:
  assumes "server_ok api" "winv api w" "api_get_lease api ns n (w_server w) = Inr x"
    and "gget (ca_leases (w_cache w)) (object_key ns n) \<noteq> None \<or> l_DeletionTimestamp x = None"
  shows "cur api w x"
proof -
  note sy = winvD(6) [OF assms(2)]
  have id: "l_Namespace x = ns" "l_Name x = n" "CHR ''/'' \<notin> set ns" using readD [OF assms(1,3)] by simp_all
  have "inside (w_cache w) x"
    unfolding inside_def key_of_def id
  proof (intro allI impI)
    fix name assume x: "refers_to x name"
    show "\<exists>c. gget (ca_leases (w_cache w)) (object_key ns n) = Some c \<and> refers_to c name \<and> job_of c = job_of x"
    proof (cases "gget (ca_leases (w_cache w)) (object_key ns n)")
      case None
      with assms(4) synced_fresh [OF sy assms(3)] x show ?thesis by simp
    next
      case (Some c)
      with synced_cached [OF sy assms(3)] x show ?thesis by (simp add: covers_def)
    qed
  qed
  with assms(2,3) id show ?thesis by (simp add: cur_def backed_def stored_lease_def)
qed

lemma cur_status:
  assumes srv: "server_ok api" and x: "cur api w x" and r: "api_status_lease api x (w_server w) = (r, s')"
  shows "cur api (set_server s' w) x \<and> (\<forall>a. r = Inr a \<longrightarrow> cur api (set_server s' w) a \<and> key_of a = key_of x)"
proof (intro conjI allI impI)
  have k: "kept api {} (w_server w) s'"
    using server_okD(3) [OF srv] r unfolding status_writes_ok_def by blast
  show c: "cur api (set_server s' w) x" by (rule cur_kept [OF x k])
  fix a assume "r = Inr a"
  then have id: "l_Namespace a = l_Namespace x" "l_Name a = l_Name x" and st: "stored_lease api a s' = Inr a"
    using server_okD(3) [OF srv] r unfolding status_writes_ok_def by blast+
  show key: "key_of a = key_of x" by (simp add: key_of_def id)
  have "covers x a" using c st unfolding cur_def backed_def stored_lease_def id by simp
  with c have "inside (w_cache w) a" unfolding cur_def inside_def covers_def key by simp metis
  with c st id show "cur api (set_server s' w) a" by (simp add: cur_def backed_def)
qed

text \<open>An update of a lease that owns no network its cached version does not own.\<close>

lemma winv_update:
  assumes srv: "server_ok api" and w: "winv api w" and x: "CHR ''/'' \<notin> set (l_Namespace x)" "inside (w_cache w) x"
    and r: "api_update_lease api x (w_server w) = (r, s')"
  shows "winv api (set_server s' w)"
proof -
  have wr: "kept api {lease_id x} (w_server w) s'" "\<And>l. stored_lease api x s' = Inr l \<Longrightarrow> \<exists>l0. stored_lease api x (w_server w) = Inr l0 \<and>
      (l_DeletionTimestamp l = None \<longrightarrow> l_DeletionTimestamp l0 = None) \<and> (same_owner x l \<or> same_owner l0 l)"
    using server_okD(2) [OF srv] r unfolding lease_writes_ok_def by blast+
  have "synced api (w_cache w) s'"
    unfolding synced_def
  proof (intro allI impI)
    fix ns n l assume get: "api_get_lease api ns n s' = Inr l"
    show "case gget (ca_leases (w_cache w)) (object_key ns n) of
        Some c \<Rightarrow> covers c l | None \<Rightarrow> l_DeletionTimestamp l = None \<longrightarrow> (\<forall>name. \<not> refers_to l name)" (is ?goal)
    proof (cases "(ns, n) = lease_id x")
      case False
      obtain l0 where l0: "api_get_lease api ns n (w_server w) = Inr l0" "same_owner l0 l"
        "l_DeletionTimestamp l = None \<longrightarrow> l_DeletionTimestamp l0 = None" by (rule keptE [OF wr(1) get]) (use False in simp_all)
      show ?thesis by (rule covers_stored [OF winvD(6) [OF w] l0(1) covers_same [OF l0(2)] l0(3)])
    next
      case True
      with wr(2) get obtain l0 where l0: "api_get_lease api ns n (w_server w) = Inr l0"
        "l_DeletionTimestamp l = None \<longrightarrow> l_DeletionTimestamp l0 = None" "same_owner x l \<or> same_owner l0 l"
        unfolding stored_lease_def by auto
      from l0(3) show ?goal
      proof
        assume "same_owner l0 l"
        then show ?goal by (rule covers_stored [OF winvD(6) [OF w] l0(1) covers_same l0(2)])
      next
        assume "same_owner x l"
        then have own: "refers_to l = refers_to x" "job_of l = job_of x" by (simp_all add: same_owner_def)
        show ?goal
          using x(2) True unfolding inside_def key_of_def covers_def own by (auto split: option.splits)
      qed
    qed
  qed
  with w show ?thesis by (simp add: winv_def)
qed

lemma cur_update:
  assumes srv: "server_ok api" and w: "winv api w" and x: "CHR ''/'' \<notin> set (l_Namespace x)" "inside (w_cache w) x"
    and job: "\<And>l name. stored_lease api x (w_server w) = Inr l \<Longrightarrow> refers_to l name \<Longrightarrow> job_of x = job_of l"
    and r: "api_update_lease api x (w_server w) = (r, s')"
  shows "case r of Inl e \<Rightarrow> cur api (set_server s' w) x | Inr a \<Rightarrow> cur api (set_server s' w) a \<and> same_owner x a"
proof (cases r)
  case (Inl e)
  have "backed api s' x"
    unfolding backed_def covers_def
  proof (intro allI impI conjI)
    fix l name assume l: "stored_lease api x s' = Inr l" "refers_to l name"
    show "refers_to x name"
      using server_okD(6) [OF srv] r Inl l unfolding releases_succeed_def by blast
    from server_okD(2) [OF srv] r l(1) obtain l0 where "stored_lease api x (w_server w) = Inr l0" "same_owner x l \<or> same_owner l0 l"
      unfolding lease_writes_ok_def by blast
    with job l(2) show "job_of x = job_of l" unfolding same_owner_def by metis
  qed
  with Inl winv_update [OF srv w x r] x show ?thesis by (simp add: cur_def)
next
  case (Inr a)
  with server_okD(2) [OF srv] r have a: "same_owner x a" "\<And>l. stored_lease api x s' = Inr l \<Longrightarrow> l = a"
    unfolding lease_writes_ok_def by (blast, metis sum.inject(2))
  then have own: "refers_to a = refers_to x" "job_of a = job_of x" "l_Namespace a = l_Namespace x" "l_Name a = l_Name x"
    by (simp_all add: same_owner_def)
  have "inside (w_cache w) a" using x(2) unfolding inside_def key_of_def own .
  moreover have "backed api s' a" using a(2) unfolding backed_def stored_lease_def own by auto
  ultimately show ?thesis using Inr a(1) winv_update [OF srv w x r] x own by (simp add: cur_def)
qed

lemma cur_update_cur:
  assumes "server_ok api" "cur api w x" "api_update_lease api x (w_server w) = (r, s')"
  shows "case r of Inl e \<Rightarrow> cur api (set_server s' w) x | Inr a \<Rightarrow> cur api (set_server s' w) a \<and> same_owner x a"
  by (rule cur_update [OF assms(1) _ _ _ _ assms(3)])
    (use assms(2) in \<open>simp_all add: cur_def backed_def covers_def\<close>)

text \<open>The same calls with the lease put back into the cache.\<close>

lemma winv_status_put:
  assumes "server_ok api" "cur api w x" "api_status_lease api x (w_server w) = (r, s)" "k = key_of x"
  shows "winv api (case r of Inl e \<Rightarrow> put_lease k x (set_server s w) | Inr a \<Rightarrow> put_lease k a (set_server s w))"
  using cur_status [OF assms(1-3)] assms(4) by (auto intro!: winv_put_cur [OF assms(1)] split: sum.splits)

lemma winv_update_put:
  assumes "server_ok api" "cur api w x" "api_update_lease api x (w_server w) = (r, s)" "k = key_of x"
  shows "winv api (case r of Inl e \<Rightarrow> put_lease k x (set_server s w) | Inr a \<Rightarrow> put_lease k a (set_server s w))"
  using cur_update_cur [OF assms(1-3)] assms(4)
  by (auto intro!: winv_put_cur [OF assms(1)] simp: key_of_same split: sum.splits)

section \<open>Metrics, pool states and triggers\<close>

lemma winv_cong:
  assumes "winv api w" "w_server w' = w_server w" "ca_leases (w_cache w') = ca_leases (w_cache w)"
    "ca_networks (w_cache w') = ca_networks (w_cache w)" "gomap_ok (ca_pools (w_cache w'))" "pool_kinds_ok (w_cache w')"
  shows "winv api w'"
  using assms by (simp add: winv_def cache_ok_def kinds_ok_def keyed_def networks_exclusive_def synced_def)

lemma cur_cong:
  assumes "cur api w x" "winv api w'" "w_server w' = w_server w" "ca_leases (w_cache w') = ca_leases (w_cache w)"
  shows "cur api w' x"
  using assms by (simp add: cur_def inside_def)

lemma winv_emit [simp]: "winv api (emit ms w) = winv api w"
  by (simp add: winv_def)

lemma cur_emit [simp]: "cur api (emit ms w) x = cur api w x"
  by (simp add: cur_def)

lemma winv_metrics: "winv api w \<Longrightarrow> updateLeaseMetrics os w = Some w' \<Longrightarrow> winv api w'"
  using updateLeaseMetrics_frame [of os w w'] by (simp add: winv_def)

lemma winv_put_pool: "winv api w \<Longrightarrow> p_Kind p = ''Pool'' \<Longrightarrow> winv api (put_pool k p w)"
  by (rule winv_cong) (auto simp: winv_def cache_ok_def pool_kinds_ok_def)

lemma winv_drop_pool: "winv api w \<Longrightarrow> winv api (drop_pool k w)"
  by (rule winv_cong) (auto simp: winv_def cache_ok_def pool_kinds_ok_def)

lemma annotate_pool_kind [simp]: "p_Kind (annotate_pool st p) = p_Kind p"
  by (simp add: annotate_pool_def)

lemma winv_update_pool:
  assumes "server_ok api" "winv api w" "api_update_pool api p (w_server w) = (r, s)" "p_Kind p = ''Pool''"
  shows "winv api (set_server s w) \<and> (\<forall>a. r = Inr a \<longrightarrow> p_Kind a = ''Pool'')"
proof -
  have "kept api {} (w_server w) s" using server_okD(4) [OF assms(1)] assms(3) unfolding other_writes_ok_def by (metis snd_conv)
  moreover have "p_Kind a = ''Pool''" if "r = Inr a" for a
    using server_okD(5) [OF assms(1)] assms(3,4) that unfolding kinds_served_def by metis
  ultimately show ?thesis using winv_kept [OF assms(2)] by blast
qed

lemma winv_trigger_pools:
  assumes srv: "server_ok api"
  shows "winv api w \<Longrightarrow> winv api (trigger_pools_loop os api kps w)"
proof (induction kps arbitrary: os w)
  case (Cons kp kps)
  obtain key p where kp: "kp = (key, p)" by (cases kp)
  show ?case
  proof (cases "api_get_pool api (om_Namespace (p_Meta p)) (p_Name p) (w_server w)")
    case (Inl e)
    with kp Cons show ?thesis by simp
  next
    case (Inr got)
    let ?x = "annotate_pool (api_stamp api (time_now (sub 0 os))) got"
    have k: "p_Kind ?x = ''Pool''" using server_okD(5) [OF srv] Inr unfolding kinds_served_def by simp
    obtain r s where r: "api_update_pool api ?x (w_server w) = (r, s)" by fastforce
    from winv_update_pool [OF srv Cons.prems r k] k
    have "winv api (case r of Inl err \<Rightarrow> put_pool key ?x (set_server s w) | Inr a \<Rightarrow> put_pool key a (set_server s w))"
      by (auto intro: winv_put_pool split: sum.split)
    from Cons.IH [OF this, of "sub 1 os"] show ?thesis
      using kp Inr r by (auto split: sum.splits)
  qed
qed simp

lemma trigger_scan_step:
  obtains (skip) "trigger_scan api nt ((k, l) # kls) (w, best) = trigger_scan api nt kls (w, best)"
    | (got) got best' where "api_get_lease api (l_Namespace l) (l_Name l) (w_server w) = Inr got"
      "trigger_scan api nt ((k, l) # kls) (w, best) = trigger_scan api nt kls (put_lease k got w, best')"
      "best' = best \<or> best' = Some (k, got)"
proof (cases "ls_NetworkType (l_Spec l) \<noteq> nt \<or> l_Phase l = PHASE_FULFILLED \<or> l_Phase l = PHASE_FAILED")
  case True
  then show ?thesis by (intro skip) auto
next
  case run: False
  show ?thesis
  proof (cases "api_get_lease api (l_Namespace l) (l_Name l) (w_server w)")
    case (Inl e)
    with run show ?thesis by (intro skip) simp
  next
    case (Inr x)
    let ?b = "case best of None \<Rightarrow> Some (k, x)
      | Some (k', old) \<Rightarrow> if l_CreationTimestamp x < l_CreationTimestamp old then Some (k, x) else best"
    show ?thesis by (rule got [of x ?b]) (use Inr run in \<open>auto split: option.splits\<close>)
  qed
qed

lemma trigger_scan_inv:
  assumes srv: "server_ok api"
  shows "\<lbrakk>winv api w; \<forall>(k, l) \<in> set kls. k = key_of l \<and> gget (ca_leases (w_cache w)) k \<noteq> None;
      case best of None \<Rightarrow> True | Some (k, x) \<Rightarrow> k = key_of x \<and> gget (ca_leases (w_cache w)) k \<noteq> None \<and>
        stored_lease api x (w_server w) = Inr x;
      trigger_scan api nt kls (w, best) = (w', best')\<rbrakk> \<Longrightarrow>
    winv api w' \<and> (case best' of None \<Rightarrow> True | Some (k, x) \<Rightarrow> k = key_of x \<and> cur api w' x)"
proof (induction kls arbitrary: w best)
  case Nil
  have "cur api w x" if "best = Some (k, x)" for k x
    by (rule cur_read [OF srv Nil.prems(1), of "l_Namespace x" "l_Name x"])
      (use that Nil.prems(3) in \<open>auto simp: stored_lease_def key_of_def\<close>)
  with Nil show ?case by (auto split: option.splits)
next
  case (Cons kl kls)
  obtain k l where kl: "kl = (k, l)" by (cases kl)
  have key: "k = key_of l" "gget (ca_leases (w_cache w)) k \<noteq> None" using Cons.prems(2) kl by auto
  show ?case
  proof (rule trigger_scan_step [of api nt k l kls w best])
    assume "trigger_scan api nt ((k, l) # kls) (w, best) = trigger_scan api nt kls (w, best)"
    with Cons.IH [OF Cons.prems(1) _ Cons.prems(3)] Cons.prems(2,4) kl show ?thesis by simp
  next
    fix got best''
    assume got: "api_get_lease api (l_Namespace l) (l_Name l) (w_server w) = Inr got"
      "trigger_scan api nt ((k, l) # kls) (w, best) = trigger_scan api nt kls (put_lease k got w, best'')"
      "best'' = best \<or> best'' = Some (k, got)"
    have g: "lease_id got = lease_id l" using readD [OF srv got(1)] by simp
    have kg: "k = key_of got" using key g by (simp add: key_of_def)
    have "cur api w got"
      by (rule cur_read [OF srv Cons.prems(1) got(1)]) (use key in \<open>simp add: key_of_def\<close>)
    from cur_put [OF srv this] have w1: "winv api (put_lease k got w)" using kg by simp
    have st: "stored_lease api got (w_server w) = Inr got" using got(1) g by (simp add: stored_lease_def)
    show ?thesis
      by (rule Cons.IH [OF w1, of best'']) (use Cons.prems(2-4) got(2,3) kl kg st in \<open>auto split: option.splits\<close>)
  qed
qed

lemma winv_trigger_leases:
  assumes srv: "server_ok api" and os: "choices_ok os" and w: "winv api w"
  shows "winv api (triggerLeaseUpdates os api nt w)"
proof -
  let ?kls = "range_map (sub 0 os) (ca_leases (w_cache w))"
  obtain w1 best where scan: "trigger_scan api nt ?kls (w, None) = (w1, best)" by fastforce
  have ok: "gomap_ok (ca_leases (w_cache w))" using winvD(1) [OF w] by (simp add: cache_ok_def)
  have "\<forall>(k, l) \<in> set ?kls. k = key_of l \<and> gget (ca_leases (w_cache w)) k \<noteq> None"
    using os ok winvD(4) [OF w] gomap_in_set_iff [OF ok] by (auto simp: keyed_def)
  from trigger_scan_inv [OF srv w this _ scan] have b: "winv api w1"
      "case best of None \<Rightarrow> True | Some (k, x) \<Rightarrow> k = key_of x \<and> cur api w1 x" by simp_all
  show ?thesis
  proof (cases best)
    case None
    with scan b show ?thesis by (simp add: triggerLeaseUpdates_def)
  next
    case (Some kx)
    obtain k x where kx: "kx = (k, x)" by (cases kx)
    let ?t = "annotate_lease (api_stamp api (time_now (sub 1 os))) x"
    have t: "same_owner x ?t" by (simp add: same_owner_def annotate_lease_def refers_to_def [abs_def] job_of_def network_only_def)
    have k: "k = key_of ?t" "cur api w1 ?t" using b(2) Some kx cur_same [OF _ t] key_of_same [OF t] by auto
    obtain r s where r: "api_update_lease api ?t (w_server w1) = (r, s)" by fastforce
    from winv_update_put [OF srv k(2) r k(1)] scan Some kx r show ?thesis by (auto simp: triggerLeaseUpdates_def Let_def split: sum.splits)
  qed
qed

lemma winv_settle:
  "server_ok api \<Longrightarrow> choices_ok os \<Longrightarrow> winv api w \<Longrightarrow> settle os api nt w = Some w' \<Longrightarrow> winv api w'"
  unfolding settle_def triggerPoolUpdates_def
  by (erule winv_metrics [rotated], rule winv_trigger_leases, assumption, simp, rule winv_trigger_pools, assumption)

section \<open>The steps of the handler\<close>

lemma winv_pool_states:
  assumes "choices_ok os" "winv api w" "reconcilePoolStates os (w_cache w) = Some (ps, ca)"
  shows "winv api (w\<lparr>w_cache := ca\<rparr>) \<and> ca_leases ca = ca_leases (w_cache w) \<and> (\<forall>p \<in> set ps. p_Kind p = ''Pool'')"
proof -
  have a: "ca_leases ca = ca_leases (w_cache w)" "ca_networks ca = ca_networks (w_cache w)"
      "\<And>k. rel_option (accounted (w_cache w)) (gget (ca_pools (w_cache w)) k) (gget (ca_pools ca) k)"
      "set ps = {p. \<exists>k. gget (ca_pools ca) k = Some p}"
    using reconcilePoolStates_accounted [OF assms(1) winvD(1) [OF assms(2)] assms(3)] by simp_all
  have kind: "p_Kind p = ''Pool''" if "gget (ca_pools ca) k = Some p" for k p
    using a(3) [of k] that winvD(3) [OF assms(2)]
    by (cases "gget (ca_pools (w_cache w)) k") (auto simp: accounted_def pool_kinds_ok_def)
  have "gomap_ok (ca_pools ca)"
    using reconcilePoolStates_accounted [OF assms(1) winvD(1) [OF assms(2)] assms(3)] by (simp add: cache_ok_def)
  with kind a assms(2) show ?thesis
    by (auto intro!: winv_cong [OF assms(2)] simp: pool_kinds_ok_def)
qed

lemma winv_fail_step:
  assumes srv: "server_ok api" and os: "choices_ok os" and x: "cur api w x"
    and y: "lease_id y = lease_id x" "job_of y = job_of x" "\<And>name. \<not> refers_to y name"
    and r: "fail_step os api (key_of x) w y = Some (r, w')"
  shows "winv api w'"
proof -
  have key: "key_of y = key_of x" using y(1) by (simp add: key_of_def)
  obtain u s where u: "api_update_lease api y (w_server w) = (u, s)" by fastforce
  have "case u of Inl e \<Rightarrow> cur api (set_server s w) y | Inr a \<Rightarrow> cur api (set_server s w) a \<and> same_owner y a"
    by (rule cur_update [OF srv _ _ _ _ u])
      (use x y in \<open>auto simp: cur_def inside_def backed_def covers_def stored_lease_def\<close>)
  then consider (fail) e where "u = Inl e" "cur api (set_server s w) y"
    | (ok) a where "u = Inr a" "cur api (set_server s w) a" "same_owner y a" by (cases u) auto
  then show ?thesis
  proof cases
    case fail
    with r u key winv_put_cur [OF srv fail(2)] show ?thesis by (simp add: fail_step_def)
  next
    case ok
    let ?l = "restore_status y a"
    let ?w = "emit [transition_event PHASE_FAILED ?l] (set_server s w)"
    have same: "same_owner a ?l" by (rule same_owner_frame) (simp_all add: restore_status_def)
    then have l: "cur api ?w ?l" "key_of ?l = key_of x"
      using cur_same [OF ok(2)] key_of_same [OF same] key_of_same [OF ok(3)] key by simp_all
    obtain v s2 where v: "api_status_lease api ?l (w_server ?w) = (v, s2)" by fastforce
    from winv_status_put [OF srv l(1) v l(2) [symmetric]] r u ok(1) v winv_settle [OF srv os] show ?thesis
      by (cases v) (auto simp: fail_step_def Let_def split: Option.bind_splits)
  qed
qed

lemma winv_delay_step:
  assumes srv: "server_ok api" and os: "choices_ok os" and x: "cur api w x"
    and r: "delay_step os api (key_of x) w x = Some (r, w')"
  shows "winv api w'"
proof -
  let ?w = "emit [MInc ''lease_delays_total'' [(''namespace'', l_Namespace x), (''networkType'', ls_NetworkType (l_Spec x))]] w"
  let ?l = "set_conds (sub 0 os) delayed_conditions x"
  have same: "same_owner x ?l" by (rule same_owner_frame) simp_all
  have l: "cur api ?w ?l" "key_of ?l = key_of x" using cur_same [OF x same] key_of_same [OF same] by simp_all
  obtain v s where v: "api_status_lease api ?l (w_server ?w) = (v, s)" by fastforce
  note st = winv_status_put [OF srv l(1) v l(2) [symmetric]]
  show ?thesis
  proof (cases v)
    case (Inl e)
    with r v st show ?thesis by (auto simp: delay_step_def Let_def)
  next
    case (Inr b)
    with st have "winv api (triggerLeaseUpdates (sub 1 os) api (ls_NetworkType (l_Spec b)) (put_lease (key_of x) b (set_server s ?w)))"
      using winv_trigger_leases [OF srv] os by simp
    with r v Inr winv_metrics show ?thesis
      by (auto simp: delay_step_def Let_def simp del: One_nat_def split: Option.bind_splits)
  qed
qed

lemma winv_no_pool_step:
  assumes srv: "server_ok api" and x: "cur api w x" and r: "no_pool_step os api (key_of x) w x err = Some (r, w')"
  shows "winv api w'"
proof -
  let ?l = "cond_Set (sub 0 os) (FalseConditionWithReason LeaseConditionTypeFulfilled ReasonLeaseNoPool ConditionSeverityWarning err) x"
  have same: "same_owner x ?l" by (rule same_owner_frame) simp_all
  have l: "cur api w ?l" "key_of ?l = key_of x" using cur_same [OF x same] key_of_same [OF same] by simp_all
  obtain v s where v: "api_status_lease api ?l (w_server w) = (v, s)" by fastforce
  from winv_status_put [OF srv l(1) v l(2) [symmetric]] r v winv_metrics show ?thesis
    by (auto simp: no_pool_step_def Let_def simp del: One_nat_def split: Option.bind_splits sum.splits)
qed

lemma winv_missing_step:
  assumes srv: "server_ok api" and x: "cur api w x" and r: "missing_step os api (key_of x) w x = Some (r, w')"
  shows "winv api w'"
proof -
  obtain u s where u: "api_update_lease api x (w_server w) = (u, s)" by fastforce
  from winv_update_put [OF srv x u refl] r u winv_metrics show ?thesis
    by (auto simp: missing_step_def split: Option.bind_splits sum.splits)
qed

lemma release_refs_owner:
  "l_Namespace (release_refs l) = l_Namespace l" "l_Name (release_refs l) = l_Name l" "job_of (release_refs l) = job_of l"
  "\<not> refers_to (release_refs l) name"
  by (auto simp: release_refs_def set_owner_refs_def job_of_def network_only_def refers_to_def)

lemma winv_release_step:
  assumes srv: "server_ok api" and x: "cur api w x"
    and r: "release_step os api (key_of x) w x n reason = Some (r, w')"
  shows "winv api w'"
proof -
  let ?y = "release_refs x"
  have key: "key_of x = key_of ?y" by (simp only: key_of_def release_refs_owner)
  obtain u s where u: "api_update_lease api ?y (w_server w) = (u, s)" by fastforce
  have "case u of Inl e \<Rightarrow> cur api (set_server s w) ?y | Inr a \<Rightarrow> cur api (set_server s w) a \<and> same_owner ?y a"
    by (rule cur_update [OF srv _ _ _ _ u])
      (use x in \<open>auto simp: cur_def inside_def backed_def covers_def stored_lease_def release_refs_owner\<close>)
  then consider (fail) e where "u = Inl e" "cur api (set_server s w) ?y"
    | (ok) a where "u = Inr a" "cur api (set_server s w) a" "same_owner ?y a" by (cases u) auto
  then show ?thesis
  proof cases
    case fail
    from winv_put_cur [OF srv fail(2) key] r u fail(1) show ?thesis by (auto simp: release_step_def Let_def)
  next
    case ok
    let ?l = "cond_Set (sub 0 os) (released_condition n reason) (clear_assignment a)"
    have same: "same_owner a ?l" by (rule same_owner_frame) simp_all
    then have l: "cur api (set_server s w) ?l" "key_of x = key_of ?l"
      using cur_same [OF ok(2)] key_of_same [OF same] key_of_same [OF ok(3)] key by simp_all
    obtain v s2 where v: "api_status_lease api ?l (w_server (set_server s w)) = (v, s2)" by fastforce
    from winv_status_put [OF srv l(1) v l(2)] r u ok(1) v winv_metrics show ?thesis
      by (cases v) (auto simp: release_step_def Let_def simp del: One_nat_def split: Option.bind_splits)
  qed
qed

lemma winv_stored_step:
  assumes "server_ok api" "choices_ok os" "cur api w x" "stored_step os api req (key_of x) w x pool = Some (r, w')"
  shows "winv api w'"
proof -
  have w: "winv api (put_lease (key_of x) x w)" by (rule winv_put_cur [OF assms(1,3) refl])
  have "winv api w''" if "settle os api nt (emit ms (put_lease (key_of x) x w)) = Some w''" for nt ms w''
    by (rule winv_settle [OF assms(1,2) _ that]) (use w in simp)
  with w assms(4) winv_metrics show ?thesis
    by (auto simp: stored_step_def Let_def split: Option.bind_splits if_splits)
qed

lemma winv_persist_step:
  assumes srv: "server_ok api" and os: "choices_ok os" and x: "cur api w x"
    and r: "persist_step os api req (key_of x) w x pool = Some (r, w')"
  shows "winv api w'"
proof -
  obtain u s where u: "api_update_lease api x (w_server w) = (u, s)" by fastforce
  show ?thesis
  proof (cases u)
    case (Inl e)
    with winv_update_put [OF srv x u refl] r u show ?thesis by (auto simp: persist_step_def)
  next
    case (Inr a)
    with cur_update_cur [OF srv x u] have a: "cur api (set_server s w) a" "same_owner x a" by simp_all
    let ?l = "restore_status x a"
    have same: "same_owner a ?l" by (rule same_owner_frame) (simp_all add: restore_status_def)
    then have l: "cur api (set_server s w) ?l" "key_of x = key_of ?l"
      using cur_same [OF a(1)] key_of_same [OF same] key_of_same [OF a(2)] by simp_all
    obtain v s2 where v: "api_status_lease api ?l (w_server (set_server s w)) = (v, s2)" by fastforce
    show ?thesis
    proof (cases v)
      case (Inl e)
      with winv_status_put [OF srv l(1) v l(2)] r u Inr v show ?thesis by (auto simp: persist_step_def Let_def)
    next
      case b: (Inr b)
      with cur_status [OF srv l(1) v] l(2) have "cur api (set_server s2 (set_server s w)) b" "key_of x = key_of b" by simp_all
      with winv_stored_step [OF srv os] r u Inr v b show ?thesis by (auto simp: persist_step_def Let_def)
    qed
  qed
qed

text \<open>Networks are granted.\<close>

lemma granted_covers: "granted Q l l' \<Longrightarrow> covers l' l \<and> l_Namespace l' = l_Namespace l \<and> l_Name l' = l_Name l"
  unfolding granted_def covers_def by (auto simp: refers_to_def job_of_def network_only_def)

lemma cur_granted:
  assumes srv: "server_ok api" and x: "cur api w x" and g: "granted (grantable (w_cache w) (key_of x) x) x y"
  shows "cur api (put_lease (key_of x) y w) y \<and> key_of y = key_of x"
proof -
  from x have *: "winv api w" "CHR ''/'' \<notin> set (l_Namespace x)" "inside (w_cache w) x" "backed api (w_server w) x"
    by (simp_all add: cur_def)
  have y: "covers y x" "l_Namespace y = l_Namespace x" "l_Name y = l_Name x" using granted_covers [OF g] by simp_all
  then have key: "key_of y = key_of x" by (simp add: key_of_def)
  have ex: "networks_exclusive (with_lease (w_cache w) (key_of y) y)"
    unfolding key by (rule exclusive_granted [OF exclusive_inside [OF winvD(5) [OF *(1)] *(3)] g])
  have b: "backed api (w_server w) y"
    using *(4) covers_trans [OF y(1)] unfolding backed_def stored_lease_def y by blast
  have "winv api (put_lease (key_of y) y w)" by (rule winv_put [OF srv *(1) _ ex b]) (use *(2) y in simp)
  with key *(2) b y show ?thesis by (simp add: cur_def inside_def)
qed

lemma cur_network_step:
  assumes srv: "server_ok api" and os: "choices_ok os" and x: "cur api w x"
    and r: "network_step os api allow (key_of x) w x pools = Some y"
  shows "cur api (put_lease (key_of x) y w) y \<and> key_of y = key_of x"
proof -
  from r obtain pool rest where pools: "pools = pool # rest" by (cases pools) (simp_all add: network_step_def)
  let ?x = "publish_first_pool pool x" and ?w = "put_lease (key_of x) (publish_first_pool pool x) w"
  have same: "same_owner x ?x" by (rule same_owner_frame) simp_all
  have key: "key_of ?x = key_of x" by (rule key_of_same [OF same])
  have cx: "cur api w ?x" by (rule cur_same [OF x same])
  then have w: "winv api ?w" using cur_put [OF srv cx] key by simp
  from network_step_assigns [OF r [unfolded pools]] obtain cpg vl vl' where
    a: "assign_networks (sub 2 os) (w_cache ?w) (key_of x) allow cpg 0 (pool # rest) (?x, vl) = Some (y, vl')" by blast
  have g: "granted (grantable (w_cache ?w) (key_of x) ?x) ?x y"
    by (rule assign_networks_granted [OF _ winvD(1) [OF w] winvD(2) [OF w] a]) (use os in simp)
  have "grantable (w_cache ?w) (key_of x) ?x = grantable (w_cache w) (key_of x) ?x"
    unfolding grantable_def [abs_def] by (simp cong: conj_cong)
  with g have "granted (grantable (w_cache w) (key_of ?x) ?x) ?x y" by (simp add: key)
  from cur_granted [OF srv cx this] show ?thesis by (simp add: key)
qed

lemma status_step_same:
  assumes "status_step os ca l pools req = Some l'"
  shows "same_owner l l'"
proof -
  from status_step_split [OF assms] obtain i n c os' where "l' = conclude os' (set_pool_info i n l) pools req c" by blast
  then show ?thesis by (intro same_owner_frame) (simp_all add: conclude_frame)
qed

lemma winv_assign_step:
  assumes srv: "server_ok api" and os: "choices_ok os" and x: "cur api w x"
    and r: "assign_step os api allow req (key_of x) w x pools = Some (r, w')"
  shows "winv api w'"
proof -
  have net: "cur api (put_lease (key_of x) y w) y \<and> key_of y = key_of x"
    if "network_step (sub 0 os) api allow (key_of x) w x pools = Some y" for y
    using cur_network_step [OF srv _ x that] os by simp
  from r show ?thesis
  proof (cases rule: assign_step_cases)
    case (missing y name)
    with winv_missing_step [OF srv, of "put_lease (key_of x) y w" y] net show ?thesis by simp
  next
    case (stored y l)
    let ?w = "emit [transition_event (l_Phase l) l] (put_lease (key_of x) y w)"
    have same: "same_owner y l" by (rule status_step_same [OF stored(3)])
    have "cur api ?w l" "key_of l = key_of x"
      using cur_same [OF conjunct1 [OF net [OF stored(1)]] same] key_of_same [OF same] net [OF stored(1)] by simp_all
    with winv_persist_step [OF srv _ _, of "sub 3 os" ?w l req "hd pools" r w'] stored(4) os show ?thesis by simp
  qed
qed

text \<open>Pools are assigned: the networks and the job of the lease stay.\<close>

primrec outcome_lease :: "pool_outcome \<Rightarrow> Lease" where
  "outcome_lease (Assigned l ps) = l"
| "outcome_lease (Released l n reason) = l"
| "outcome_lease (NoPoolLeft l err) = l"

lemma same_owner_pool_ref:
  "p_Kind p = ''Pool'' \<Longrightarrow> same_owner l (set_owner_refs (l_OwnerReferences l @ [pool_owner_ref p]) l)"
  by (auto simp: same_owner_def set_owner_refs_def refers_to_def [abs_def] pool_owner_ref_def job_of_def network_only_def)

lemma assign_pools_same_owner:
  assumes "choices_ok os" "\<forall>p \<in> set ups. p_Kind p = ''Pool''"
  shows "same_owner lease (outcome_lease (assign_pools os lease ups req assigned))"
  using assms
proof (induction os lease ups req assigned rule: assign_pools.induct)
  case (1 os lease ups req assigned)
  show ?case
  proof (cases "int (length assigned) < req")
    case False
    then show ?thesis by (simp add: assign_pools.simps [of os])
  next
    case True
    let ?av = "available_pools ups assigned" and ?d = "GetDiversityExcludedVCenters lease assigned"
    let ?ex = "excluded_vcenters (sub 0 os) lease ?av assigned req (?d \<noteq> None)"
    show ?thesis
    proof (cases "pick_pool (sub 1 os) lease ?av ?ex (nil_map ?d)")
      case (Inl err)
      with True show ?thesis by (simp add: assign_pools.simps [of os] stuck_def Let_def)
    next
      case (Inr r)
      obtain pool lease' where r: "r = (pool, lease')" by (cases r)
      have ok: "choices_ok (sub 1 os)" using 1(2) by simp
      have "pool \<in> set ups" using up.pick_sound [OF ok Inr [unfolded r]] by (simp add: available_pools_def)
      then have "same_owner lease lease'"
        using up.pick_refs [OF ok Inr [unfolded r]] same_owner_pool_ref 1(3) by simp
      moreover have "same_owner lease' (outcome_lease (assign_pools (sub 2 os) lease' ups req (assigned @ [pool])))"
        using 1(1) [OF True refl refl refl refl Inr r [symmetric]] 1(2,3) by simp
      ultimately show ?thesis
        using True Inr r same_owner_trans by (simp add: assign_pools.simps [of os] Let_def)
    qed
  qed
qed

lemma winv_pools_step:
  assumes srv: "server_ok api" and os: "choices_ok os" and x: "cur api w x" and ups: "\<forall>p \<in> set ups. p_Kind p = ''Pool''"
    and r: "pools_step os api allow req (key_of x) w x ups = Some (r, w')"
  shows "winv api w'"
proof (cases "fetch_pools api (rq_Namespace req) (w_server w) (GetLeasePoolRefs x)")
  case (Inl e)
  with r winv_put_cur [OF srv x refl] show ?thesis by (simp add: pools_step_def)
next
  case (Inr assigned)
  let ?out = "assign_pools (sub 0 os) x ups (required_pools x) assigned"
  have same: "same_owner x (outcome_lease ?out)" by (rule assign_pools_same_owner [OF _ ups]) (use os in simp)
  have l: "cur api w (outcome_lease ?out)" "key_of x = key_of (outcome_lease ?out)"
    using cur_same [OF x same] key_of_same [OF same] by simp_all
  have os1: "choices_ok (sub 1 os)" using os by simp
  show ?thesis
  proof (cases ?out)
    case (Assigned y ps)
    with r Inr l winv_assign_step [OF srv os1, of w y] show ?thesis by (simp add: pools_step_def)
  next
    case (Released y n reason)
    with r Inr l winv_release_step [OF srv, of w y] show ?thesis by (simp add: pools_step_def)
  next
    case (NoPoolLeft y err)
    with r Inr l winv_no_pool_step [OF srv, of w y] show ?thesis by (simp add: pools_step_def)
  qed
qed

lemma winv_live_step:
  assumes srv: "server_ok api" and os: "choices_ok os" and x: "cur api w x"
    and r: "live_step os api allow req (key_of x) w x = Some (r, w')"
  shows "winv api w'"
proof (cases "l_Phase x = PHASE_FULFILLED \<or> l_Phase x = PHASE_FAILED")
  case True
  with r winv_put_cur [OF srv x refl] show ?thesis by (auto simp: live_step_def)
next
  case False
  let ?w = "put_lease (key_of x) x w"
  from r False obtain ups ca where ps: "reconcilePoolStates (sub 0 os) (w_cache ?w) = Some (ups, ca)"
    by (auto simp: live_step_def Let_def simp del: One_nat_def split: Option.bind_splits)
  let ?w1 = "?w\<lparr>w_cache := ca\<rparr>"
  have w1: "winv api ?w1" "ca_leases ca = ca_leases (w_cache ?w)" and ups: "\<forall>p \<in> set ups. p_Kind p = ''Pool''"
    using winv_pool_states [OF _ winv_put_cur [OF srv x refl] ps] os by simp_all
  have c1: "cur api ?w1 x"
    by (rule cur_cong [OF conjunct2 [OF cur_put [OF srv x]] w1(1)]) (use w1(2) in simp_all)
  obtain failed y where y: "failLeaseIfUnsatisfiable (sub 1 os) x ups = (failed, y)" by fastforce
  show ?thesis
  proof (cases failed)
    case True
    then have "lease_id y = lease_id x" "job_of y = job_of x" "\<And>name. \<not> refers_to y name"
      using y release_refs_owner [of x]
      by (auto simp: failLeaseIfUnsatisfiable_def job_of_def network_only_def refers_to_def split: prod.splits if_splits)
    with winv_fail_step [OF srv _ c1, of "sub 2 os" y r w'] r False ps y True os show ?thesis
      by (simp add: live_step_def Let_def del: One_nat_def)
  next
    case sat: False
    then have yx: "y = x" using y by (auto simp: failLeaseIfUnsatisfiable_def split: prod.splits if_splits)
    obtain w2 l2 where p: "pending_again (sub 3 os) ?w1 x = (w2, l2)" by fastforce
    let ?l3 = "default_network_type l2" and ?w3 = "put_lease (key_of x) (default_network_type l2) w2"
    let ?l4 = "cond_Set (sub 7 os) (FalseCondition LeaseConditionTypeDelayed) ?l3"
    have m: "l_Meta l2 = l_Meta x" "l_Spec l2 = l_Spec x"
      using p by (auto simp: pending_again_def set_phase_def split: if_splits)
    have same: "same_owner x ?l3"
      using m by (simp add: same_owner_def default_network_type_def refers_to_def [abs_def] job_of_def network_only_def)
    have "cur api w2 x" using p c1 by (auto simp: pending_again_def split: if_splits)
    from cur_put [OF srv cur_same [OF this same]] have c3: "cur api ?w3 ?l3" "key_of ?l3 = key_of x"
      using key_of_same [OF same] by simp_all
    have same4: "same_owner ?l3 ?l4" by (rule same_owner_frame) simp_all
    have c4: "cur api ?w3 ?l4" "key_of ?l4 = key_of x" using cur_same [OF c3(1) same4] key_of_same [OF same4] c3(2) by simp_all
    have "(if shouldLeaseBeDelayed (sub 4 os) (w_cache ?w3) ?l3 then delay_step (sub 5 os) api (key_of x) ?w3 ?l3
        else pools_step (sub 6 os) api allow req (key_of x) ?w3 ?l4 ups) = Some (r, w')"
      using r False ps y sat p yx by (simp add: live_step_def Let_def del: One_nat_def)
    with winv_delay_step [OF srv _ c3(1), of "sub 5 os" r w'] winv_pools_step [OF srv _ c4(1) ups, of "sub 6 os" allow req r w']
      c3(2) c4(2) os show ?thesis by (auto split: if_splits)
  qed
qed

text \<open>Before the check for deletion the lease is the stored one, or one that has just vanished.\<close>

definition chain :: "'s api \<Rightarrow> 's world \<Rightarrow> Lease \<Rightarrow> bool" where
  "chain api w x \<longleftrightarrow> winv api w \<and> CHR ''/'' \<notin> set (l_Namespace x) \<and>
     (stored_lease api x (w_server w) = Inr x \<or> l_DeletionTimestamp x \<noteq> None \<and> (\<forall>l. stored_lease api x (w_server w) \<noteq> Inr l))"

lemma chain_write:
  assumes srv: "server_ok api" and x: "chain api w x" and y: "same_owner x y"
    and r: "api_update_lease api y (w_server w) = (r, s')"
  shows "winv api (set_server s' w) \<and> (\<forall>a. r = Inr a \<longrightarrow> chain api (set_server s' w) a \<and> lease_id a = lease_id x) \<and>
    (\<forall>l. stored_lease api x s' = Inr l \<longrightarrow> l_DeletionTimestamp l = None \<longrightarrow> l_DeletionTimestamp x = None)"
proof -
  have id: "l_Namespace y = l_Namespace x" "l_Name y = l_Name x" using y by (simp_all add: same_owner_def)
  have w: "winv api w" using x by (simp add: chain_def)
  have kept: "kept api {lease_id x} (w_server w) s'"
    using server_okD(2) [OF srv] r unfolding lease_writes_ok_def id [symmetric] by blast
  have own: "same_owner x l \<and> stored_lease api x (w_server w) = Inr x \<and>
      (l_DeletionTimestamp l = None \<longrightarrow> l_DeletionTimestamp x = None)" if "stored_lease api x s' = Inr l" for l
  proof -
    from that have "stored_lease api y s' = Inr l" unfolding stored_lease_def id .
    with server_okD(2) [OF srv] r obtain l0 where l0: "stored_lease api y (w_server w) = Inr l0"
        "l_DeletionTimestamp l = None \<longrightarrow> l_DeletionTimestamp l0 = None" "same_owner y l \<or> same_owner l0 l"
      unfolding lease_writes_ok_def by blast
    have "l0 = x" using x l0(1) unfolding chain_def stored_lease_def id by auto
    with l0 same_owner_trans [OF y] show ?thesis unfolding stored_lease_def id by blast
  qed
  have "synced api (w_cache w) s'"
    unfolding synced_def
  proof (intro allI impI)
    fix ns n l assume get: "api_get_lease api ns n s' = Inr l"
    obtain l0 where l0: "api_get_lease api ns n (w_server w) = Inr l0" "same_owner l0 l"
      "l_DeletionTimestamp l = None \<longrightarrow> l_DeletionTimestamp l0 = None"
    proof (cases "(ns, n) = lease_id x")
      case True
      with own get that [of x] show ?thesis by (auto simp: stored_lease_def)
    next
      case False
      show ?thesis by (rule keptE [OF kept get]) (use False in simp, rule that)
    qed
    show "case gget (ca_leases (w_cache w)) (object_key ns n) of
        Some c \<Rightarrow> covers c l | None \<Rightarrow> l_DeletionTimestamp l = None \<longrightarrow> (\<forall>name. \<not> refers_to l name)"
      by (rule covers_stored [OF winvD(6) [OF w] l0(1) covers_same [OF l0(2)] l0(3)])
  qed
  then have w': "winv api (set_server s' w)" using w by (simp add: winv_def)
  have "chain api (set_server s' w) a \<and> lease_id a = lease_id x" if "r = Inr a" for a
  proof -
    have "same_owner y a" "stored_lease api y s' = Inr a \<or> l_DeletionTimestamp a \<noteq> None \<and> (\<forall>l. stored_lease api y s' \<noteq> Inr l)"
      using server_okD(2) [OF srv] r that unfolding lease_writes_ok_def by blast+
    moreover from this(1) id have "l_Namespace a = l_Namespace y" "l_Name a = l_Name y" by (simp_all add: same_owner_def)
    ultimately show ?thesis using w' x id by (simp add: chain_def stored_lease_def)
  qed
  with w' own show ?thesis by blast
qed

lemma chain_status:
  assumes srv: "server_ok api" and x: "winv api w" "CHR ''/'' \<notin> set (l_Namespace x)"
    and r: "api_status_lease api x (w_server w) = (r, s')"
  shows "winv api (set_server s' w) \<and> (\<forall>a. r = Inr a \<longrightarrow> chain api (set_server s' w) a \<and> lease_id a = lease_id x)"
proof -
  have "kept api {} (w_server w) s'" "\<And>a. r = Inr a \<Longrightarrow> lease_id a = lease_id x \<and> stored_lease api a s' = Inr a"
    using server_okD(3) [OF srv] r unfolding status_writes_ok_def by blast+
  with winv_kept [OF x(1)] x(2) show ?thesis by (simp add: chain_def)
qed

lemma winv_init_step:
  assumes srv: "server_ok api" and x: "chain api w x"
  shows "case init_step os api w x of Inl (r, w') \<Rightarrow> winv api w' | Inr (w', y) \<Rightarrow> chain api w' y \<and> lease_id y = lease_id x"
proof (cases "l_Phase x = []")
  case True
  let ?w = "emit [transition_event PHASE_PENDING x] w" and ?x = "init_status os x"
  obtain r s where r: "api_status_lease api ?x (w_server ?w) = (r, s)" by fastforce
  have "l_Meta ?x = l_Meta x" by (simp add: init_status_def)
  with chain_status [OF srv _ _ r] x have "winv api (set_server s ?w)"
      "\<And>a. r = Inr a \<Longrightarrow> chain api (set_server s ?w) a \<and> lease_id a = lease_id x" by (simp_all add: chain_def)
  with True r show ?thesis by (cases r) (simp_all add: init_step_def Let_def)
qed (use x in \<open>simp add: init_step_def\<close>)

lemma same_owner_finalizers: "same_owner x (set_finalizers fs x)"
  by (simp add: same_owner_def set_finalizers_def refers_to_def [abs_def] job_of_def network_only_def)

lemma winv_finalizer_step:
  assumes srv: "server_ok api" and x: "chain api w x"
  shows "case finalizer_step api w x of Inl (r, w') \<Rightarrow> winv api w' | Inr (w', y) \<Rightarrow> chain api w' y \<and> lease_id y = lease_id x"
proof (cases "om_Finalizers (l_Meta x) = None")
  case True
  obtain r s where r: "api_update_lease api (set_finalizers (Some [LeaseFinalizer]) x) (w_server w) = (r, s)" by fastforce
  from chain_write [OF srv x same_owner_finalizers r] have "winv api (set_server s w)"
      "\<And>a. r = Inr a \<Longrightarrow> chain api (set_server s w) a \<and> lease_id a = lease_id x" by blast+
  with True r show ?thesis by (cases r) (simp_all add: finalizer_step_def)
qed (use x in \<open>auto simp: finalizer_step_def\<close>)

lemma winv_drop_lease:
  assumes srv: "server_ok api" and w: "winv api w" and x: "CHR ''/'' \<notin> set (l_Namespace x)"
    and gone: "\<And>l. stored_lease api x (w_server w) = Inr l \<Longrightarrow> l_DeletionTimestamp l \<noteq> None"
  shows "winv api (drop_lease (key_of x) w)"
proof -
  have "synced api (w_cache (drop_lease (key_of x) w)) (w_server w)"
    unfolding synced_def
  proof (intro allI impI)
    fix ns n l assume get: "api_get_lease api ns n (w_server w) = Inr l"
    show "case gget (ca_leases (w_cache (drop_lease (key_of x) w))) (object_key ns n) of
        Some c \<Rightarrow> covers c l | None \<Rightarrow> l_DeletionTimestamp l = None \<longrightarrow> (\<forall>name. \<not> refers_to l name)"
    proof (cases "object_key ns n = key_of x")
      case True
      then have "ns = l_Namespace x \<and> n = l_Name x"
        using object_key_inj [OF _ x, of ns n "l_Name x"] readD [OF srv get] by (simp add: key_of_def)
      with gone get have "l_DeletionTimestamp l \<noteq> None" by (simp add: stored_lease_def)
      with True show ?thesis by auto
    next
      case False
      with winvD(6) [OF w] get show ?thesis by (simp add: synced_def)
    qed
  qed
  with w show ?thesis
    by (auto simp: winv_def keyed_def networks_exclusive_def kinds_ok_def pool_kinds_ok_def)
qed

lemma winv_delete_step:
  assumes srv: "server_ok api" and os: "choices_ok os" and x: "chain api w x" "l_DeletionTimestamp x \<noteq> None"
    and r: "delete_step os api req (key_of x) w x = Some (r, w')"
  shows "winv api w'"
proof -
  obtain u s where u: "api_update_lease api (drop_finalizer x) (w_server w) = (u, s)" by fastforce
  have same: "same_owner x (drop_finalizer x)"
    by (auto simp: drop_finalizer_def Let_def same_owner_finalizers split: option.split)
  from chain_write [OF srv x(1) same u] have wr: "winv api (set_server s w)"
      "\<forall>l. stored_lease api x s = Inr l \<longrightarrow> l_DeletionTimestamp l \<noteq> None" using x(2) by (blast, metis)
  show ?thesis
  proof (cases u)
    case (Inl e)
    with r u wr(1) show ?thesis by (auto simp: delete_step_def)
  next
    case (Inr a)
    let ?w = "drop_lease (key_of x) (set_server s w)"
    have w: "winv api ?w" by (rule winv_drop_lease [OF srv wr(1)]) (use x wr(2) in \<open>auto simp: chain_def\<close>)
    define w1 where "w1 = (case DoesLeaseHavePool a of None \<Rightarrow> ?w
      | Some ownRef \<Rightarrow> emit [MDec ''leases_in_use'' [(''namespace'', rq_Namespace req), (''pool'', or_Name ownRef)]] ?w)"
    have w1: "winv api w1" using w by (auto simp: w1_def split: option.split)
    from r u Inr obtain ps ca where ps: "reconcilePoolStates (sub 0 os) (w_cache w1) = Some (ps, ca)"
      and st: "settle (sub 1 os) api (ls_NetworkType (l_Spec a)) (w1\<lparr>w_cache := ca\<rparr>) = Some w'"
      by (auto simp: delete_step_def Let_def w1_def [symmetric] simp del: One_nat_def split: Option.bind_splits)
    have "winv api (w1\<lparr>w_cache := ca\<rparr>)" using winv_pool_states [OF _ w1 ps] os by simp
    from winv_settle [OF srv _ this st] os show ?thesis by simp
  qed
qed

text \<open>A whole reconcile of a lease, whatever it does and however it ends.\<close>

lemma winv_LeaseReconcile:
  assumes srv: "server_ok api" and os: "choices_ok os" and w: "winv api w"
    and r: "LeaseReconcile os api allow req w = Some (r, w')"
  shows "winv api w'"
proof (cases "api_get_lease api (rq_Namespace req) (rq_Name req) (w_server w)")
  case (Inl e)
  with r w show ?thesis by (simp add: LeaseReconcile_def Let_def)
next
  case (Inr x)
  have id: "lease_id x = (rq_Namespace req, rq_Name req)" "CHR ''/'' \<notin> set (l_Namespace x)" using readD [OF srv Inr] by simp_all
  then have ch: "chain api w x" using w Inr by (simp add: chain_def stored_lease_def)
  show ?thesis
  proof (cases "init_step (sub 0 os) api w x")
    case (Inl res)
    with r Inr winv_init_step [OF srv ch, of "sub 0 os"] show ?thesis by (auto simp: LeaseReconcile_def Let_def)
  next
    case i: (Inr wx)
    obtain w1 x1 where wx: "wx = (w1, x1)" by (cases wx)
    have ch1: "chain api w1 x1" "lease_id x1 = lease_id x" using winv_init_step [OF srv ch, of "sub 0 os"] i wx by simp_all
    show ?thesis
    proof (cases "finalizer_step api w1 x1")
      case (Inl res)
      with r Inr i wx winv_finalizer_step [OF srv ch1(1)] show ?thesis by (auto simp: LeaseReconcile_def Let_def)
    next
      case f: (Inr wx)
      obtain w2 x2 where wx2: "wx = (w2, x2)" by (cases wx)
      have ch2: "chain api w2 x2" "lease_id x2 = lease_id x"
        using winv_finalizer_step [OF srv ch1(1)] f wx2 ch1(2) by simp_all
      have key: "object_key (rq_Namespace req) (rq_Name req) = key_of x2" using ch2(2) id(1) by (simp add: key_of_def)
      show ?thesis
      proof (cases "l_DeletionTimestamp x2 = None")
        case False
        with r Inr i wx f wx2 key have "delete_step (sub 1 os) api req (key_of x2) w2 x2 = Some (r, w')"
          by (auto simp: LeaseReconcile_def Let_def simp del: One_nat_def)
        from winv_delete_step [OF srv _ ch2(1) False this] os show ?thesis by simp
      next
        case True
        with ch2(1) have st: "api_get_lease api (l_Namespace x2) (l_Name x2) (w_server w2) = Inr x2" "winv api w2"
          by (auto simp: chain_def stored_lease_def)
        have "cur api w2 x2" by (rule cur_read [OF srv st(2,1)]) (use True in simp)
        moreover from r Inr i wx f wx2 key True have "live_step (sub 2 os) api allow req (key_of x2) w2 x2 = Some (r, w')"
          by (simp add: LeaseReconcile_def Let_def del: One_nat_def)
        ultimately show ?thesis using winv_live_step [OF srv, of "sub 2 os" w2 x2] os by simp
      qed
    qed
  qed
qed

end
