(* ===== verification/ControlLoop.thy ===== *)
theory ControlLoop
  imports Exclusivity
begin

text \<open>
  The running manager. \<open>reconcileLock\<close> lets one handler run at a time, so a run is a sequence of whole handlers
  of the four controllers, interleaved with what users and other programs do to the objects on the API
  server. The invariant of theory \<open>Exclusivity\<close> holds in every world such a run can reach.
\<close>

section \<open>The other handlers keep the invariant\<close>

lemma winv_put_network: "winv api w \<Longrightarrow> n_Kind n = ''Network'' \<Longrightarrow> winv api (put_network k n w)"
proof -
  assume w: "winv api w" and n: "n_Kind n = ''Network''"
  have ok: "gomap_ok (ca_networks (w_cache w))" using winvD(1) [OF w] by (simp add: cache_ok_def)
  have "n_Kind m = ''Network''" if "(i, m) \<in> set (gset k n (ca_networks (w_cache w)))" for i m
    using that gomap_in_set_iff [OF gomap_ok_gset [OF ok]] gomap_in_set_iff [OF ok] winvD(2) [OF w] n
    by (force simp: kinds_ok_def split: if_splits)
  then have "kinds_ok (w_cache (put_network k n w))" by (auto simp: kinds_ok_def)
  with w show ?thesis
    by (simp add: winv_def keyed_def networks_exclusive_def synced_def pool_kinds_ok_def)
qed

lemma winv_update_network:
  assumes "server_ok api" "winv api w" "api_update_network api n (w_server w) = (r, s)" "n_Kind n = ''Network''"
  shows "winv api (set_server s w) \<and> (\<forall>a. r = Inr a \<longrightarrow> n_Kind a = ''Network'')"
proof -
  have "kept api {} (w_server w) s" using server_okD(4) [OF assms(1)] assms(3) unfolding other_writes_ok_def by (metis snd_conv)
  moreover have "n_Kind a = ''Network''" if "r = Inr a" for a
    using server_okD(5) [OF assms(1)] assms(3,4) that unfolding kinds_served_def by metis
  ultimately show ?thesis using winv_kept [OF assms(2)] by blast
qed

lemma winv_NetworkReconcile:
  assumes srv: "server_ok api" and w: "winv api w" and r: "NetworkReconcile api req w = (r, w')"
  shows "winv api w'"
proof (cases "api_get_network api (rq_Namespace req) (rq_Name req) (w_server w)")
  case (Inl e)
  with r w show ?thesis by (simp add: NetworkReconcile_def)
next
  case (Inr n)
  have k: "n_Kind (set_network_finalizers fs n) = ''Network''" "n_Kind n = ''Network''" for fs
    using server_okD(5) [OF srv] Inr by (auto simp: kinds_served_def set_network_finalizers_def)
  have up: "winv api (set_server s w)" "\<And>a. u = Inr a \<Longrightarrow> n_Kind a = ''Network''"
    if "api_update_network api (set_network_finalizers fs n) (w_server w) = (u, s)" for fs u s
    using winv_update_network [OF srv w that k(1)] by blast+
  show ?thesis
  proof (cases "om_DeletionTimestamp (n_Meta n) = None")
    case False
    with r Inr have "delete_network_step api (object_key (rq_Namespace req) (rq_Name req)) w n = (r, w')"
      by (simp add: NetworkReconcile_def Let_def split: if_splits)
    then show ?thesis
      using up w by (auto simp: delete_network_step_def winv_drop_pool split: if_splits prod.splits sum.splits)
  next
    case True
    with r Inr show ?thesis
      using up w k(2) by (auto simp: NetworkReconcile_def Let_def winv_put_network split: if_splits prod.splits sum.splits)
  qed
qed

lemma pool_states_winv:
  assumes "choices_ok os" "winv api w" "pool_states os (w_cache w) = Some (out, ca)"
  shows "winv api (w\<lparr>w_cache := ca\<rparr>)"
  using winv_pool_states [OF assms(1,2), of "map snd out" ca] assms(3) by (simp add: reconcilePoolStates_def)

lemma winv_status_pool:
  assumes "server_ok api" "winv api w" "api_status_pool api p (w_server w) = (r, s)" "p_Kind p = ''Pool''"
  shows "winv api (set_server s w) \<and> (\<forall>a. r = Inr a \<longrightarrow> p_Kind a = ''Pool'')"
proof -
  have "kept api {} (w_server w) s" using server_okD(4) [OF assms(1)] assms(3) unfolding other_writes_ok_def by (metis snd_conv)
  moreover have "p_Kind a = ''Pool''" if "r = Inr a" for a
    using server_okD(5) [OF assms(1)] assms(3,4) that unfolding kinds_served_def by metis
  ultimately show ?thesis using winv_kept [OF assms(2)] by blast
qed

lemma winv_store_status:
  assumes srv: "server_ok api"
  shows "winv api w \<Longrightarrow> p_Kind p = ''Pool'' \<Longrightarrow>
    (case store_status_loop api name key kps (w, p) of Inl (r, w') \<Rightarrow> winv api w' | Inr (w', p') \<Rightarrow> winv api w')"
proof (induction kps arbitrary: w p)
  case (Cons kp kps)
  obtain k q where kp: "kp = (k, q)" by (cases kp)
  let ?p = "if k = key then p else p\<lparr>p_Status := p_Status q\<rparr>"
  have kind: "p_Kind ?p = ''Pool''" using Cons.prems(2) by simp
  obtain r s where r: "api_status_pool api ?p (w_server w) = (r, s)" by fastforce
  note st = winv_status_pool [OF srv Cons.prems(1) r kind]
  show ?case
  proof (cases "p_Name (if k = key then p else q) = name")
    case False
    with kp Cons show ?thesis by simp
  next
    case named: True
    show ?thesis
    proof (cases r)
      case (Inl e)
      have "winv api (put_pool key ?p (set_server s w))" by (rule winv_put_pool) (use st kind in simp_all)
      with kp named r Inl show ?thesis by (simp add: Let_def)
    next
      case (Inr a)
      have "winv api (put_pool key a (set_server s w))" "p_Kind a = ''Pool''" using st Inr by (simp_all add: winv_put_pool)
      from Cons.IH [OF this] kp named r Inr show ?thesis by (simp add: Let_def)
    qed
  qed
qed simp

lemma pool_edit_kinds [simp]:
  "p_Kind (set_pool_finalizers fs p) = p_Kind p" "p_Kind (init_pool_status p) = p_Kind p"
  "p_Kind (snd (fix_short_name r p)) = p_Kind p"
  by (simp_all add: set_pool_finalizers_def init_pool_status_def fix_short_name_def set_short_name_def Let_def)

lemma winv_pool_finalizer:
  assumes "server_ok api" "winv api w" "p_Kind p = ''Pool''"
  shows "case pool_finalizer_step api w p of Inl (r, w') \<Rightarrow> winv api w' | Inr (w', q) \<Rightarrow> winv api w' \<and> p_Kind q = ''Pool''"
proof -
  obtain r s where r: "api_update_pool api (set_pool_finalizers (Some [PoolFinalizer]) p) (w_server w) = (r, s)" by fastforce
  from winv_update_pool [OF assms(1,2) r] assms r show ?thesis
    by (cases r) (simp_all add: pool_finalizer_step_def)
qed

lemma winv_short_name:
  assumes "server_ok api" "winv api w" "p_Kind p = ''Pool''"
  shows "case short_name_step api w p of Inl (r, w') \<Rightarrow> winv api w' | Inr (w', q) \<Rightarrow> winv api w' \<and> p_Kind q = ''Pool''"
proof -
  obtain needed q where q: "fix_short_name (api_name api) p = (needed, q)" by fastforce
  have k: "p_Kind q = ''Pool''" using pool_edit_kinds(3) [of "api_name api" p] q assms(3) by simp
  obtain r s where r: "api_update_pool api q (w_server w) = (r, s)" by fastforce
  from winv_update_pool [OF assms(1,2) r k] assms(2) q r k show ?thesis
    by (cases needed; cases r) (simp_all add: short_name_step_def)
qed

lemma winv_live_pool_step:
  assumes srv: "server_ok api" and os: "choices_ok os" and w: "winv api w" and p: "p_Kind p = ''Pool''"
    and r: "live_pool_step os api req key w p = Some (r, w')"
  shows "winv api w'"
proof (cases "pool_finalizer_step api w p")
  case (Inl res)
  with r winv_pool_finalizer [OF srv w p] show ?thesis by (auto simp: live_pool_step_def)
next
  case f: (Inr wp)
  obtain w1 p1 where wp: "wp = (w1, p1)" by (cases wp)
  have 1: "winv api w1" "p_Kind p1 = ''Pool''" using winv_pool_finalizer [OF srv w p] f wp by simp_all
  show ?thesis
  proof (cases "short_name_step api w1 p1")
    case (Inl res)
    with r f wp winv_short_name [OF srv 1] show ?thesis by (auto simp: live_pool_step_def)
  next
    case s: (Inr wp')
    obtain w2 p2 where wp': "wp' = (w2, p2)" by (cases wp')
    have 2: "winv api w2" "p_Kind p2 = ''Pool''" using winv_short_name [OF srv 1] s wp' by simp_all
    let ?w = "put_pool key (init_pool_status p2) w2"
    have w3: "winv api ?w" by (rule winv_put_pool [OF 2(1)]) (simp add: 2(2))
    from r f wp s wp' obtain out ca q where st: "pool_states os (w_cache ?w) = Some (out, ca)" "gget (ca_pools ca) key = Some q"
      and fin: "(r, w') = (case store_status_loop api (rq_Name req) key out (?w\<lparr>w_cache := ca\<rparr>, q) of
        Inl r \<Rightarrow> r | Inr (w, p) \<Rightarrow> (Done, emit (pool_metrics req p) w))"
      by (auto simp: live_pool_step_def Let_def split: Option.bind_splits)
    have w4: "winv api (?w\<lparr>w_cache := ca\<rparr>)" by (rule pool_states_winv [OF os w3 st(1)])
    have "p_Kind q = ''Pool''" using winvD(3) [OF w4] st(2) by (simp add: pool_kinds_ok_def)
    from winv_store_status [OF srv w4 this, of "rq_Name req" key out] fin show ?thesis
      by (auto split: sum.splits prod.splits)
  qed
qed

lemma winv_PoolReconcile:
  assumes srv: "server_ok api" and os: "choices_ok os" and w: "winv api w"
    and r: "PoolReconcile os api req w = Some (r, w')"
  shows "winv api w'"
proof (cases "api_get_pool api (rq_Namespace req) (rq_Name req) (w_server w)")
  case (Inl e)
  with r w show ?thesis by (simp add: PoolReconcile_def Let_def)
next
  case (Inr p)
  let ?key = "object_key (rq_Namespace req) (rq_Name req)"
  have k: "p_Kind p = ''Pool''" using server_okD(5) [OF srv] Inr by (auto simp: kinds_served_def)
  show ?thesis
  proof (cases "om_DeletionTimestamp (p_Meta p) = None")
    case True
    with r Inr winv_live_pool_step [OF srv os w k] show ?thesis by (simp add: PoolReconcile_def Let_def)
  next
    case False
    obtain u s where u: "api_update_pool api (set_pool_finalizers None p) (w_server w) = (u, s)" by fastforce
    have "delete_pool_step api ?key w p = (r, w')"
      using r Inr False by (auto simp: PoolReconcile_def Let_def)
    with winv_update_pool [OF srv w u] k u w show ?thesis
      by (cases u) (auto simp: delete_pool_step_def winv_drop_pool split: if_splits)
  qed
qed

lemma kept_trans:
  assumes "kept api {} s s'" "kept api {} s' s''"
  shows "kept api {} s s''"
  unfolding kept_def
proof (intro allI impI)
  fix ns n l assume get: "api_get_lease api ns n s'' = Inr l"
  obtain l1 where l1: "api_get_lease api ns n s' = Inr l1" "same_owner l1 l"
    "l_DeletionTimestamp l = None \<longrightarrow> l_DeletionTimestamp l1 = None" by (rule keptE [OF assms(2) get]) simp_all
  obtain l0 where l0: "api_get_lease api ns n s = Inr l0" "same_owner l0 l1"
    "l_DeletionTimestamp l1 = None \<longrightarrow> l_DeletionTimestamp l0 = None" by (rule keptE [OF assms(1) l1(1)]) simp_all
  show "\<exists>l0. api_get_lease api ns n s = Inr l0 \<and> same_owner l0 l \<and>
      (l_DeletionTimestamp l = None \<longrightarrow> l_DeletionTimestamp l0 = None)"
    using l0(1,3) l1(3) same_owner_trans [OF l0(2) l1(2)] by simp
qed

lemma kept_delete_leases: "server_ok api \<Longrightarrow> kept api {} s (delete_leases api ls s)"
proof (induction ls arbitrary: s)
  case (Cons l ls)
  have "kept api {} s (snd (api_delete_lease api l s))"
    using server_okD(4) [OF Cons.prems] by (simp add: other_writes_ok_def)
  from kept_trans [OF this Cons.IH [OF Cons.prems]] show ?case by simp
qed simp

lemma winv_Prune: "server_ok api \<Longrightarrow> winv api w \<Longrightarrow> winv api (PruneAbandonedLeases os api w)"
  by (auto simp: PruneAbandonedLeases_def Let_def intro!: winv_kept kept_delete_leases split: sum.split)

section \<open>Runs\<close>

text \<open>
  What others may do to the stored leases: create leases that own no network, delete leases, and change
  whatever is not the owner or the job of a lease.
\<close>

definition outside_ok :: "'s api \<Rightarrow> 's \<Rightarrow> 's \<Rightarrow> bool" where
  "outside_ok api s s' \<longleftrightarrow> (\<forall>ns n l. api_get_lease api ns n s' = Inr l \<longrightarrow>
     (\<forall>name. \<not> refers_to l name) \<or> (\<exists>l0. api_get_lease api ns n s = Inr l0 \<and> same_owner l0 l \<and>
       (l_DeletionTimestamp l = None \<longrightarrow> l_DeletionTimestamp l0 = None)))"

inductive ctrl_step :: "'s api \<Rightarrow> bool \<Rightarrow> 's world \<Rightarrow> 's world \<Rightarrow> bool" for api allow where
  lease: "choices_ok os \<Longrightarrow> LeaseReconcile os api allow req w = Some (r, w') \<Longrightarrow> ctrl_step api allow w w'"
| pool: "choices_ok os \<Longrightarrow> PoolReconcile os api req w = Some (r, w') \<Longrightarrow> ctrl_step api allow w w'"
| network: "NetworkReconcile api req w = (r, w') \<Longrightarrow> ctrl_step api allow w w'"
| prune: "choices_ok os \<Longrightarrow> ctrl_step api allow w (PruneAbandonedLeases os api w)"
| outside: "outside_ok api (w_server w) s \<Longrightarrow> ctrl_step api allow w (set_server s w)"

text \<open>The manager starts with empty maps on a server where no lease owns a network yet.\<close>

definition empty_cache :: cache where
  "empty_cache = \<lparr>ca_pools = [], ca_leases = [], ca_networks = []\<rparr>"

inductive reachable :: "'s api \<Rightarrow> bool \<Rightarrow> 's world \<Rightarrow> bool" for api allow where
  start: "\<forall>ns n l. api_get_lease api ns n s = Inr l \<longrightarrow> (\<forall>name. \<not> refers_to l name) \<Longrightarrow>
    reachable api allow \<lparr>w_cache = empty_cache, w_server = s, w_metrics = ms\<rparr>"
| step: "reachable api allow w \<Longrightarrow> ctrl_step api allow w w' \<Longrightarrow> reachable api allow w'"

lemma winv_outside:
  assumes "winv api w" "outside_ok api (w_server w) s"
  shows "winv api (set_server s w)"
proof -
  have "synced api (w_cache w) s"
    unfolding synced_def
  proof (intro allI impI)
    fix ns n l assume get: "api_get_lease api ns n s = Inr l"
    from assms(2) get consider "\<forall>name. \<not> refers_to l name" | l0 where "api_get_lease api ns n (w_server w) = Inr l0"
      "same_owner l0 l" "l_DeletionTimestamp l = None \<longrightarrow> l_DeletionTimestamp l0 = None" unfolding outside_ok_def by blast
    then show "case gget (ca_leases (w_cache w)) (object_key ns n) of
        Some c \<Rightarrow> covers c l | None \<Rightarrow> l_DeletionTimestamp l = None \<longrightarrow> (\<forall>name. \<not> refers_to l name)"
    proof cases
      case 1
      then show ?thesis by (simp add: covers_def split: option.split)
    next
      case l0: 2
      show ?thesis by (rule covers_stored [OF winvD(6) [OF assms(1)] l0(1) covers_same [OF l0(2)] l0(3)])
    qed
  qed
  with assms(1) show ?thesis by (simp add: winv_def)
qed

lemma ctrl_step_winv:
  assumes "server_ok api" "ctrl_step api allow w w'" "winv api w"
  shows "winv api w'"
  using assms(2,3)
  by cases (auto intro: winv_LeaseReconcile winv_PoolReconcile winv_NetworkReconcile winv_Prune winv_outside assms(1))

lemma reachable_winv:
  assumes "server_ok api" "reachable api allow w"
  shows "winv api w"
  using assms(2)
proof induction
  case (start s ms)
  then show ?case
    by (auto simp: winv_def empty_cache_def cache_ok_def kinds_ok_def pool_kinds_ok_def keyed_def networks_exclusive_def synced_def)
next
  case (step w w')
  then show ?case using ctrl_step_winv [OF assms(1)] by blast
qed

section \<open>Properties\<close>

text \<open>Two leases that are not being deleted own the same network only if they belong to one job.\<close>

definition stored_exclusive :: "'s api \<Rightarrow> 's \<Rightarrow> bool" where
  "stored_exclusive api s \<longleftrightarrow> (\<forall>ns n l ns' n' l' name. api_get_lease api ns n s = Inr l \<longrightarrow> api_get_lease api ns' n' s = Inr l' \<longrightarrow>
     (ns, n) \<noteq> (ns', n') \<longrightarrow> l_DeletionTimestamp l = None \<longrightarrow> l_DeletionTimestamp l' = None \<longrightarrow>
     refers_to l name \<longrightarrow> refers_to l' name \<longrightarrow> same_job l l')"

lemma winv_stored_exclusive:
  assumes srv: "server_ok api" and w: "winv api w"
  shows "stored_exclusive api (w_server w)"
  unfolding stored_exclusive_def
proof (intro allI impI)
  fix ns n l ns' n' l' name
  assume l: "api_get_lease api ns n (w_server w) = Inr l" "l_DeletionTimestamp l = None" "refers_to l name"
    and l': "api_get_lease api ns' n' (w_server w) = Inr l'" "l_DeletionTimestamp l' = None" "refers_to l' name"
    and neq: "(ns, n) \<noteq> (ns', n')"
  have cached: "\<exists>c. gget (ca_leases (w_cache w)) (object_key m y) = Some c \<and> refers_to c name \<and> job_of c = job_of x"
    if "api_get_lease api m y (w_server w) = Inr x" "l_DeletionTimestamp x = None" "refers_to x name" for m y x
    using winvD(6) [OF w] that unfolding synced_def covers_def by (fastforce split: option.splits)
  from cached [OF l] cached [OF l'] obtain c c' where
      c: "gget (ca_leases (w_cache w)) (object_key ns n) = Some c" "refers_to c name" "job_of c = job_of l"
    and c': "gget (ca_leases (w_cache w)) (object_key ns' n') = Some c'" "refers_to c' name" "job_of c' = job_of l'" by blast
  have "object_key ns n \<noteq> object_key ns' n'"
    using object_key_inj readD [OF srv l(1)] readD [OF srv l'(1)] neq by blast
  from exclusiveD [OF winvD(5) [OF w] c(1) c'(1) this c(2) c'(2)] show "same_job l l'"
    using same_job_cong [OF c(3) c'(3)] by simp
qed



section \<open>A server that keeps leases\<close>

text \<open>
  A server that behaves as assumed: it stores leases by namespace and name, an update leaves the status alone and a
  status update everything else. It knows one pool and one network.
\<close>

definition get_stored :: "Lease gomap \<Rightarrow> string \<Rightarrow> string \<Rightarrow> api_error + Lease" where
  "get_stored s ns n =
     (case gget s (object_key ns n) of
        None \<Rightarrow> Inl (NotFound n)
      | Some l \<Rightarrow> if l_Namespace l = ns \<and> l_Name l = n \<and> CHR ''/'' \<notin> set ns then Inr l else Inl (NotFound n))"

definition write_stored :: "(Lease \<Rightarrow> Lease \<Rightarrow> Lease) \<Rightarrow> Lease \<Rightarrow> Lease gomap \<Rightarrow> (string + Lease) \<times> Lease gomap" where
  "write_stored f x s =
     (case get_stored s (l_Namespace x) (l_Name x) of
        Inl e \<Rightarrow> (Inl (err_text e), s)
      | Inr old \<Rightarrow> (Inr (f old x), gset (key_of x) (f old x) s))"

definition update_meta :: "Lease \<Rightarrow> Lease \<Rightarrow> Lease" where
  "update_meta old x = x\<lparr>l_Status := l_Status old, l_Meta := (l_Meta x)\<lparr>om_DeletionTimestamp := l_DeletionTimestamp old\<rparr>\<rparr>"

definition store_api :: "Pool \<Rightarrow> Network \<Rightarrow> Lease gomap api" where
  "store_api pool network =
     \<lparr>api_get_lease = (\<lambda>ns n s. get_stored s ns n), api_get_pool = (\<lambda>_ _ _. Inr pool), api_get_network = (\<lambda>_ _ _. Inr network),
      api_update_lease = write_stored update_meta, api_status_lease = write_stored (\<lambda>old x. old\<lparr>l_Status := l_Status x\<rparr>),
      api_delete_lease = (\<lambda>x s. (Inr (), snd (write_stored (\<lambda>old x. old\<lparr>l_Meta := (l_Meta old)\<lparr>om_DeletionTimestamp := Some 1\<rparr>\<rparr>) x s))),
      api_update_pool = (\<lambda>p s. (Inr p, s)), api_status_pool = (\<lambda>p s. (Inr p, s)), api_update_network = (\<lambda>n s. (Inr n, s)),
      api_list_leases = (\<lambda>_ s. Inr (map snd s)), api_list_namespaces = (\<lambda>_. Inr []),
      api_stamp = (\<lambda>_. ''2024-01-01T00:00:00Z''), api_name = ''happy_einstein''\<rparr>"

lemma get_stored_Inr: "get_stored s ns n = Inr l \<Longrightarrow> l_Namespace l = ns \<and> l_Name l = n \<and> CHR ''/'' \<notin> set ns"
  by (auto simp: get_stored_def split: option.splits if_splits)

lemma get_stored_gset:
  assumes "lease_id y = lease_id x"
  shows "get_stored (gset (key_of x) y s) ns n = (if (ns, n) = lease_id x \<and> CHR ''/'' \<notin> set ns then Inr y
    else if object_key ns n = key_of x then Inl (NotFound n) else get_stored s ns n)"
  using assms by (auto simp: get_stored_def key_of_def)

lemma write_stored_cases:
  assumes f: "\<And>old. lease_id old = lease_id x \<Longrightarrow> lease_id (f old x) = lease_id x" and r: "write_stored f x s = (r, s')"
  obtains (absent) e where "r = Inl e" "s' = s" "\<And>l. get_stored s (l_Namespace x) (l_Name x) \<noteq> Inr l"
    | (written) old where "get_stored s (l_Namespace x) (l_Name x) = Inr old" "r = Inr (f old x)"
      "get_stored s' (l_Namespace x) (l_Name x) = Inr (f old x)" "lease_id (f old x) = lease_id x"
      "\<And>ns n l. (ns, n) \<noteq> lease_id x \<Longrightarrow> get_stored s' ns n = Inr l \<Longrightarrow> get_stored s ns n = Inr l"
proof (cases "get_stored s (l_Namespace x) (l_Name x)")
  case (Inl e)
  show thesis by (rule absent [of "err_text e"]) (use r Inl in \<open>simp_all add: write_stored_def\<close>)
next
  case (Inr old)
  have id: "lease_id (f old x) = lease_id x" "CHR ''/'' \<notin> set (l_Namespace x)"
    using f get_stored_Inr [OF Inr] by simp_all
  have s': "r = Inr (f old x)" "s' = gset (key_of x) (f old x) s" using r Inr by (simp_all add: write_stored_def)
  show thesis
    by (rule written [OF Inr s'(1)]) (use id get_stored_gset [OF id(1), of s] in \<open>auto simp: s'(2) split: if_splits\<close>)
qed

lemma store_api_simps [simp]:
  "api_get_lease (store_api p n) ns nm s = get_stored s ns nm" "api_update_lease (store_api p n) x s = write_stored update_meta x s"
  "api_status_lease (store_api p n) x s = write_stored (\<lambda>old x. old\<lparr>l_Status := l_Status x\<rparr>) x s"
  "api_get_pool (store_api p n) ns nm s = Inr p" "api_get_network (store_api p n) ns nm s = Inr n"
  "api_update_pool (store_api p n) y s = (Inr y, s)" "api_status_pool (store_api p n) y s = (Inr y, s)"
  "api_update_network (store_api p n) z s = (Inr z, s)" "api_list_namespaces (store_api p n) s = Inr []"
  by (simp_all add: store_api_def)

lemma write_stored_kept:
  assumes r: "write_stored f x s = (r, s')" and f: "\<And>old. lease_id old = lease_id x \<Longrightarrow> lease_id (f old x) = lease_id x"
  shows "kept (store_api p n) {lease_id x} s s'"
proof (rule write_stored_cases [OF f r])
  show "kept (store_api p n) {lease_id x} s s'" if "s' = s" using that by simp
next
  fix old
  assume *: "\<And>ns n l. (ns, n) \<noteq> lease_id x \<Longrightarrow> get_stored s' ns n = Inr l \<Longrightarrow> get_stored s ns n = Inr l"
  show "kept (store_api p n) {lease_id x} s s'" unfolding kept_def store_api_simps using * same_owner_refl by blast
qed

lemma write_stored_kept_all:
  assumes r: "write_stored f x s = (r, s')" and f: "\<And>old. lease_id old = lease_id x \<Longrightarrow> same_owner old (f old x) \<and>
      (l_DeletionTimestamp (f old x) = None \<longrightarrow> l_DeletionTimestamp old = None)"
  shows "kept (store_api p n) {} s s'"
proof -
  have id: "lease_id old = lease_id x \<Longrightarrow> lease_id (f old x) = lease_id x" for old
    using f [of old] by (simp add: same_owner_def)
  show ?thesis
  proof (rule write_stored_cases [OF id r])
    show "kept (store_api p n) {} s s'" if "s' = s" using that by simp
  next
    fix old
    assume w: "get_stored s (l_Namespace x) (l_Name x) = Inr old" "get_stored s' (l_Namespace x) (l_Name x) = Inr (f old x)"
      and *: "\<And>ns n l. (ns, n) \<noteq> lease_id x \<Longrightarrow> get_stored s' ns n = Inr l \<Longrightarrow> get_stored s ns n = Inr l"
    have own: "same_owner old (f old x) \<and> (l_DeletionTimestamp (f old x) = None \<longrightarrow> l_DeletionTimestamp old = None)"
      using f get_stored_Inr [OF w(1)] by simp
    show "kept (store_api p n) {} s s'"
      unfolding kept_def store_api_simps
    proof (intro allI impI)
      fix ns n l assume get: "get_stored s' ns n = Inr l"
      show "\<exists>l0. get_stored s ns n = Inr l0 \<and> same_owner l0 l \<and> (l_DeletionTimestamp l = None \<longrightarrow> l_DeletionTimestamp l0 = None)"
      proof (cases "(ns, n) = lease_id x")
        case True
        with get w own show ?thesis by simp
      next
        case False
        from * [OF False get] show ?thesis by simp
      qed
    qed
  qed
qed

lemma update_meta_owner: "same_owner x (update_meta old x)" "l_DeletionTimestamp (update_meta old x) = l_DeletionTimestamp old"
  by (simp_all add: update_meta_def same_owner_def refers_to_def [abs_def] job_of_def network_only_def)

lemma store_lease_writes: "lease_writes_ok (store_api p n)"
  unfolding lease_writes_ok_def stored_lease_def store_api_simps
proof (intro allI impI)
  fix x s r s' assume r: "write_stored update_meta x s = (r, s')"
  have id: "lease_id (update_meta old x) = lease_id x" for old using update_meta_owner(1) [of x old] by (simp add: same_owner_def)
  show "kept (store_api p n) {lease_id x} s s' \<and>
    (\<forall>l. get_stored s' (l_Namespace x) (l_Name x) = Inr l \<longrightarrow> (\<exists>l0. get_stored s (l_Namespace x) (l_Name x) = Inr l0 \<and>
      (l_DeletionTimestamp l = None \<longrightarrow> l_DeletionTimestamp l0 = None) \<and> (same_owner x l \<or> same_owner l0 l))) \<and>
    (\<forall>a. r = Inr a \<longrightarrow> same_owner x a \<and> (get_stored s' (l_Namespace x) (l_Name x) = Inr a \<or>
      l_DeletionTimestamp a \<noteq> None \<and> (\<forall>l. get_stored s' (l_Namespace x) (l_Name x) \<noteq> Inr l)))"
  proof (intro conjI)
    show "kept (store_api p n) {lease_id x} s s'" by (rule write_stored_kept [OF r id])
  qed (rule write_stored_cases [OF id r]; use update_meta_owner in auto)+
qed

lemma store_status_writes: "status_writes_ok (store_api p n)"
  unfolding status_writes_ok_def stored_lease_def store_api_simps
proof (intro allI impI)
  fix x s r s' assume r: "write_stored (\<lambda>old x. old\<lparr>l_Status := l_Status x\<rparr>) x s = (r, s')"
  have k: "kept (store_api p n) {} s s'"
    by (rule write_stored_kept_all [OF r]) (auto intro: same_owner_frame)
  have "lease_id a = lease_id x \<and> get_stored s' (l_Namespace a) (l_Name a) = Inr a" if "r = Inr a" for a
    by (rule write_stored_cases [OF _ r]) (use that in auto)
  with k show "kept (store_api p n) {} s s' \<and>
    (\<forall>a. r = Inr a \<longrightarrow> lease_id a = lease_id x \<and> get_stored s' (l_Namespace a) (l_Name a) = Inr a)" by blast
qed

lemma store_api_ok:
  assumes "p_Kind p = ''Pool''" "n_Kind n = ''Network''"
  shows "server_ok (store_api p n)"
  unfolding server_ok_def
proof (intro conjI)
  show "reads_ok (store_api p n)" using get_stored_Inr by (auto simp: reads_ok_def)
  show "lease_writes_ok (store_api p n)" by (rule store_lease_writes)
  show "status_writes_ok (store_api p n)" by (rule store_status_writes)
  show "kinds_served (store_api p n)" using assms by (simp add: kinds_served_def)
  have "kept (store_api p n) {} s (snd (api_delete_lease (store_api p n) l s))" for l s
    by (simp add: store_api_def [of p n], fold store_api_def, rule write_stored_kept_all [OF prod.collapse [symmetric]])
      (simp add: same_owner_def refers_to_def [abs_def] job_of_def network_only_def)
  then show "other_writes_ok (store_api p n)" by (simp add: other_writes_ok_def)
  show "releases_succeed (store_api p n)"
    unfolding releases_succeed_def stored_lease_def store_api_simps by (auto simp: write_stored_def split: sum.splits)
qed


section \<open>Witnesses\<close>

text \<open>A user creates a lease that has failed before; it is reconciled, a network appears, and the leases are pruned.\<close>

definition demo_api :: "Lease gomap api" where
  "demo_api = store_api (mk_net_pool ''p1'' []) (set_network_finalizers (Some []) (mk_network ''n1'' ''vlan-1'' ''1''))"

definition demo_lease :: Lease where
  "demo_lease = set_phase PHASE_FAILED (set_finalizers (Some [LeaseFinalizer]) (mk_lease ''l1'' ''job'' []))"

definition demo_world :: "Lease gomap world" where
  "demo_world = \<lparr>w_cache = \<lparr>ca_pools = [], ca_leases = [(''/l1'', demo_lease)],
      ca_networks = [(''/n1'', set_network_finalizers (Some []) (mk_network ''n1'' ''vlan-1'' ''1''))]\<rparr>,
     w_server = [(''/l1'', demo_lease)], w_metrics = []\<rparr>"

lemma demo_api_ok: "server_ok demo_api"
  unfolding demo_api_def by (rule store_api_ok) (simp_all add: set_network_finalizers_def)

lemma demo_lease_simps [simp]:
  "l_Phase demo_lease = PHASE_FAILED" "om_Finalizers (l_Meta demo_lease) = Some [LeaseFinalizer]" "l_DeletionTimestamp demo_lease = None"
  "l_Name demo_lease = ''l1''" "l_Namespace demo_lease = []" "l_OwnerReferences demo_lease = []"
  by (simp_all add: demo_lease_def set_phase_def set_finalizers_def mk_lease_def zero_defs)

lemma demo_reachable: "reachable demo_api True demo_world"
proof -
  let ?w0 = "\<lparr>w_cache = empty_cache, w_server = [], w_metrics = []\<rparr> :: Lease gomap world"
  let ?w1 = "set_server [(''/l1'', demo_lease)] ?w0"
  let ?w2 = "put_lease ''/l1'' demo_lease ?w1"
  have get: "api_get_lease demo_api [] ''l1'' [(''/l1'', demo_lease)] = Inr demo_lease"
    by (simp add: demo_api_def get_stored_def object_key_def)
  have r0: "reachable demo_api True ?w0"
    by (rule reachable.start) (simp add: demo_api_def get_stored_def)
  have "outside_ok demo_api (w_server ?w0) [(''/l1'', demo_lease)]"
    by (auto simp: outside_ok_def demo_api_def get_stored_def refers_to_def split: if_splits)
  from reachable.step [OF r0 ctrl_step.outside [OF this]] have r1: "reachable demo_api True ?w1" .
  have "LeaseReconcile std_choices demo_api True \<lparr>rq_Namespace = [], rq_Name = ''l1''\<rparr> ?w1 = Some (Done, ?w2)"
    using get by (simp add: LeaseReconcile_def init_step_def finalizer_step_def live_step_def object_key_def Let_def)
  from reachable.step [OF r1 ctrl_step.lease [OF std_choices_ok this]] have r2: "reachable demo_api True ?w2" .
  have "NetworkReconcile demo_api \<lparr>rq_Namespace = [], rq_Name = ''n1''\<rparr> ?w2 = (Done, demo_world)"
    by (simp add: NetworkReconcile_def demo_api_def demo_world_def set_network_finalizers_def mk_network_def zero_defs
        object_key_def put_network_def put_lease_def set_server_def empty_cache_def)
  from reachable.step [OF r2 ctrl_step.network [OF this]] show ?thesis .
qed


end
