(* ===== verification/MetricCalls.thy ===== *)
theory MetricCalls
  imports MetricsRegistry ControlLoop
begin

text \<open>
  The metric calls of the controllers against the collectors of \<^verbatim>\<open>pkg/controller/metrics.go\<close>: each call is made on a
  registered collector, with the labels it was declared with, so none of them panics.
\<close>

section \<open>Valid calls\<close>

definition logged :: "registry \<Rightarrow> 's world \<Rightarrow> 's world \<Rightarrow> bool" where
  "logged reg w w' \<longleftrightarrow> (\<exists>calls. w_metrics w' = w_metrics w @ calls \<and> list_all (call_ok reg) calls)"

lemma logged_refl [simp]: "logged reg w w"
  by (simp add: logged_def)

lemma logged_trans: "logged reg w w' \<Longrightarrow> logged reg w' w'' \<Longrightarrow> logged reg w w''"
  by (auto simp: logged_def)

lemma logged_frame: "w_metrics w'' = w_metrics w' \<Longrightarrow> logged reg w w'' \<longleftrightarrow> logged reg w w'"
  by (simp add: logged_def)

lemma logged_world [simp]:
  "logged reg w (set_server s w') \<longleftrightarrow> logged reg w w'"
  "logged reg w (put_lease k l w') \<longleftrightarrow> logged reg w w'"
  "logged reg w (drop_lease k w') \<longleftrightarrow> logged reg w w'"
  "logged reg w (put_pool k p w') \<longleftrightarrow> logged reg w w'"
  "logged reg w (drop_pool k w') \<longleftrightarrow> logged reg w w'"
  "logged reg w (put_network k n w') \<longleftrightarrow> logged reg w w'"
  "logged reg w (w'\<lparr>w_cache := ca\<rparr>) \<longleftrightarrow> logged reg w w'"
  by (simp_all add: logged_def put_pool_def drop_pool_def put_network_def)

lemma logged_emit: "logged reg w w' \<Longrightarrow> list_all (call_ok reg) calls \<Longrightarrow> logged reg w (emit calls w')"
  by (auto simp: logged_def)

lemmas call_simps = labels_ok_def with_ok_def is_gauge_def ready_find collector_defs transition_event_def int_metric_def

section \<open>The metrics of leases and networks\<close>

lemma lease_events_ok: "ready reg \<Longrightarrow> list_all (call_ok reg) (lease_events os ls)"
  by (induction ls arbitrary: os) (simp_all add: call_simps)

lemma network_type_loop_ok:
  assumes "ready reg" "network_type_loop pool counts ns (t, a, ev) = (t', a', ev')" "list_all (call_ok reg) ev"
  shows "list_all (call_ok reg) ev'"
  using assms(2,3)
proof (induction ns arbitrary: t a ev)
  case (Cons n ns)
  from Cons.prems(1) show ?case
    unfolding network_type_loop.simps Let_def
    by (rule Cons.IH) (use Cons.prems(2) assms(1) in \<open>simp add: call_simps\<close>)
qed simp

lemma type_events_ok: "ready reg \<Longrightarrow> list_all (call_ok reg) (type_events pool avail totals)"
  by (induction totals) (auto simp: type_events_def Let_def call_simps)

lemma pool_type_events_ok:
  "ready reg \<Longrightarrow> pool_type_events os ca counts ps = Some ev \<Longrightarrow> list_all (call_ok reg) ev"
proof (induction ps arbitrary: os ev)
  case (Cons p ps)
  from Cons.prems(2) obtain m t a e later where
    loop: "network_type_loop p counts (range_vals (sub 1 os) m) ([], [], []) = (t, a, e)" and
    later: "pool_type_events (sub 3 os) ca counts ps = Some later" and
    ev: "ev = e @ type_events p a (range_map (sub 2 os) t) @ later"
    by (auto simp: Let_def split: Option.bind_splits prod.splits)
  show ?case
    using network_type_loop_ok [OF Cons.prems(1) loop] Cons.IH [OF Cons.prems(1) later] type_events_ok [OF Cons.prems(1)]
    by (simp add: ev)
qed simp

lemma logged_metrics:
  assumes "ready reg" "updateLeaseMetrics os w = Some w'" "logged reg w0 w"
  shows "logged reg w0 w'"
proof -
  let ?w = "emit ([MReset ''leases_counts'', MReset ''lease_age_seconds''] @
     lease_events (sub 1 os) (range_vals (sub 0 os) (ca_leases (w_cache w)))) w"
  have "logged reg w0 ?w"
    using lease_events_ok [OF assms(1)] assms(1) by (intro logged_emit [OF assms(3)]) (simp add: call_simps)
  with assms(2) pool_type_events_ok [OF assms(1)] assms(1) show ?thesis
    by (auto simp: updateLeaseMetrics_def updateNetworkTypeMetrics_def call_simps split: Option.bind_splits intro!: logged_emit)
qed

section \<open>The lease controller\<close>

lemma trigger_scan_silent: "trigger_scan api nt kls (w, best) = (w', best') \<Longrightarrow> w_metrics w' = w_metrics w"
proof (induction kls arbitrary: w best)
  case (Cons kl kls)
  obtain k l where kl: "kl = (k, l)" by (cases kl)
  from Cons.prems obtain w1 b1 where "trigger_scan api nt kls (w1, b1) = (w', best')" "w_metrics w1 = w_metrics w"
    unfolding kl by (simp split: if_splits sum.splits)
  with Cons.IH show ?case by simp
qed simp

lemma triggers_silent:
  "w_metrics (triggerPoolUpdates os api w) = w_metrics w"
  "w_metrics (triggerLeaseUpdates os api nt w) = w_metrics w"
  by (simp add: triggerPoolUpdates_def trigger_pools_loop_frame)
    (auto simp: triggerLeaseUpdates_def Let_def split: option.split prod.split sum.split dest: trigger_scan_silent)

lemma logged_triggers [simp]:
  "logged reg w (triggerPoolUpdates os api w') \<longleftrightarrow> logged reg w w'"
  "logged reg w (triggerLeaseUpdates os api nt w') \<longleftrightarrow> logged reg w w'"
  by (rule logged_frame, simp add: triggers_silent)+

lemma logged_settle: "ready reg \<Longrightarrow> settle os api nt w = Some w' \<Longrightarrow> logged reg w0 w \<Longrightarrow> logged reg w0 w'"
  unfolding settle_def by (erule logged_metrics, assumption) simp

lemma logged_transition: "ready reg \<Longrightarrow> logged reg w w' \<Longrightarrow> logged reg w (emit [transition_event ph lease] w')"
  by (rule logged_emit) (simp_all add: call_simps)

lemma logged_init_step:
  "ready reg \<Longrightarrow> logged reg w (case init_step os api w lease of Inl (_, w') \<Rightarrow> w' | Inr (w', _) \<Rightarrow> w')"
  by (simp add: init_step_def Let_def logged_transition split: sum.split prod.split)

lemma logged_finalizer_step:
  "logged reg w0 (case finalizer_step api w lease of Inl (_, w') \<Rightarrow> w' | Inr (w', _) \<Rightarrow> w') \<longleftrightarrow> logged reg w0 w"
  by (simp add: finalizer_step_def split: sum.split prod.split)

lemma logged_delete_step:
  assumes "ready reg" "logged reg w0 w" "delete_step os api req k w lease = Some (r, w')"
  shows "logged reg w0 w'"
proof (cases "api_update_lease api (drop_finalizer lease) (w_server w)")
  case (Pair u s)
  show ?thesis
  proof (cases u)
    case (Inl err)
    with assms(3) Pair have "set_server s w = w'" by (simp add: delete_step_def)
    with assms(2) show ?thesis by auto
  next
    case (Inr a)
    define w1 where "w1 = (case DoesLeaseHavePool a of None \<Rightarrow> drop_lease k (set_server s w)
      | Some ownRef \<Rightarrow> emit [MDec ''leases_in_use'' [(''namespace'', rq_Namespace req), (''pool'', or_Name ownRef)]]
          (drop_lease k (set_server s w)))"
    have w1: "logged reg w0 w1"
      using assms(1,2) by (auto simp: w1_def call_simps intro: logged_emit split: option.split)
    obtain ps ca where "settle (sub 1 os) api (ls_NetworkType (l_Spec a)) (w1\<lparr>w_cache := ca\<rparr>) = Some w'"
      using assms(3) Pair Inr
      by (auto simp: delete_step_def Let_def w1_def [symmetric] simp del: One_nat_def split: Option.bind_splits)
    from logged_settle [OF assms(1) this] w1 show ?thesis by simp
  qed
qed

lemma logged_fail_step:
  assumes "ready reg" "logged reg w0 w" "fail_step os api k w lease = Some (r, w')"
  shows "logged reg w0 w'"
  using assms(2,3)
  by (auto simp: fail_step_def Let_def logged_transition [OF assms(1)] split: prod.splits sum.splits Option.bind_splits
      elim!: logged_settle [OF assms(1)])

lemma logged_delay_step:
  assumes "ready reg" "logged reg w0 w" "delay_step os api k w lease = Some (r, w')"
  shows "logged reg w0 w'"
proof -
  let ?w = "emit [MInc ''lease_delays_total'' [(''namespace'', l_Namespace lease),
      (''networkType'', ls_NetworkType (l_Spec lease))]] w"
  have "logged reg w0 ?w" using assms(1,2) by (intro logged_emit) (simp_all add: call_simps)
  with assms(3) show ?thesis
    by (auto simp: delay_step_def Let_def simp del: One_nat_def split: prod.splits sum.splits Option.bind_splits
        elim!: logged_metrics [OF assms(1)])
qed

lemma logged_release_step:
  assumes "ready reg" "logged reg w0 w" "release_step os api k w lease n reason = Some (r, w')"
  shows "logged reg w0 w'"
  using assms(2,3)
  by (auto simp: release_step_def Let_def simp del: One_nat_def split: prod.splits sum.splits Option.bind_splits
      elim!: logged_metrics [OF assms(1)])

lemma logged_no_pool_step:
  assumes "ready reg" "logged reg w0 w" "no_pool_step os api k w lease err = Some (r, w')"
  shows "logged reg w0 w'"
  using assms(2,3)
  by (auto simp: no_pool_step_def Let_def simp del: One_nat_def split: prod.splits sum.splits Option.bind_splits
      elim!: logged_metrics [OF assms(1)])

lemma logged_missing_step:
  assumes "ready reg" "logged reg w0 w" "missing_step os api k w lease = Some (r, w')"
  shows "logged reg w0 w'"
  using assms(2,3)
  by (auto simp: missing_step_def split: prod.splits sum.splits Option.bind_splits elim!: logged_metrics [OF assms(1)])

lemma logged_stored_step:
  assumes "ready reg" "logged reg w0 w" "stored_step os api req k w lease pool = Some (r, w')"
  shows "logged reg w0 w'"
proof -
  have "logged reg w0 (emit [MAdd ''leases_in_use'' [(''namespace'', rq_Namespace req), (''pool'', p_Name pool)] (Fin 1)]
      (put_lease k lease w))"
    using assms(1,2) by (intro logged_emit) (simp_all add: call_simps)
  with assms(2,3) show ?thesis
    by (auto simp: stored_step_def Let_def split: if_splits Option.bind_splits
        elim!: logged_metrics [OF assms(1)] logged_settle [OF assms(1)])
qed

lemma logged_persist_step:
  assumes "ready reg" "logged reg w0 w" "persist_step os api req k w lease pool = Some (r, w')"
  shows "logged reg w0 w'"
  using assms(2,3)
  by (auto simp: persist_step_def Let_def split: prod.splits sum.splits elim!: logged_stored_step [OF assms(1), rotated])

lemma logged_assign_step:
  assumes "ready reg" "logged reg w0 w" "assign_step os api allow req k w lease pools = Some (r, w')"
  shows "logged reg w0 w'"
  using assms(2,3)
  by (auto simp: assign_step_def Let_def logged_transition [OF assms(1)] simp del: One_nat_def
      split: Option.bind_splits option.splits
      elim!: logged_missing_step [OF assms(1), rotated] logged_persist_step [OF assms(1), rotated])

lemma logged_pools_step:
  assumes "ready reg" "logged reg w0 w" "pools_step os api allow req k w lease ps = Some (r, w')"
  shows "logged reg w0 w'"
  using assms(2,3)
  by (auto simp: pools_step_def simp del: One_nat_def split: sum.splits pool_outcome.splits
      elim!: logged_release_step [OF assms(1), rotated] logged_no_pool_step [OF assms(1), rotated]
        logged_assign_step [OF assms(1), rotated])

lemma logged_live_step:
  assumes "ready reg" "logged reg w0 w" "live_step os api allow req k w lease = Some (r, w')"
  shows "logged reg w0 w'"
proof -
  have pending: "logged reg w0 (fst (pending_again os' w1 l))" if "logged reg w0 w1" for os' l and w1 :: "'a world"
    using that by (simp add: pending_again_def logged_transition [OF assms(1)])
  show ?thesis
    using assms(2,3) pending
    by (auto simp: live_step_def Let_def split_beta simp del: One_nat_def
        split: if_splits bool.splits prod.splits Option.bind_splits
        elim!: logged_fail_step [OF assms(1), rotated] logged_delay_step [OF assms(1), rotated]
          logged_pools_step [OF assms(1), rotated])
qed

lemma logged_LeaseReconcile:
  assumes "ready reg" "LeaseReconcile os api allow req w = Some (r, w')"
  shows "logged reg w w'"
proof (cases "api_get_lease api (rq_Namespace req) (rq_Name req) (w_server w)")
  case (Inl e)
  with assms(2) show ?thesis by (simp add: LeaseReconcile_def Let_def)
next
  case (Inr lease)
  let ?key = "object_key (rq_Namespace req) (rq_Name req)"
  note init = logged_init_step [OF assms(1), of w "sub 0 os" api lease]
  show ?thesis
  proof (cases "init_step (sub 0 os) api w lease")
    case (Inl res)
    with init assms(2) Inr show ?thesis by (auto simp: LeaseReconcile_def Let_def)
  next
    case (Inr st)
    obtain w1 l1 where st: "st = (w1, l1)" by fastforce
    have w1: "logged reg w w1" using init Inr st by simp
    note fin = logged_finalizer_step [of reg w api w1 l1]
    show ?thesis
    proof (cases "finalizer_step api w1 l1")
      case (Inl res)
      with fin w1 st Inr \<open>api_get_lease _ _ _ _ = _\<close> assms(2) show ?thesis by (auto simp: LeaseReconcile_def Let_def)
    next
      case f: (Inr st2)
      obtain w2 l2 where st2: "st2 = (w2, l2)" by fastforce
      have w2: "logged reg w w2" using fin w1 f st2 by simp
      have "(if l_DeletionTimestamp l2 \<noteq> None then delete_step (sub 1 os) api req ?key w2 l2
         else live_step (sub 2 os) api allow req ?key w2 l2) = Some (r, w')"
        using assms(2) \<open>api_get_lease _ _ _ _ = _\<close> Inr st f st2 by (simp add: LeaseReconcile_def Let_def)
      then show ?thesis
        using logged_delete_step [OF assms(1) w2] logged_live_step [OF assms(1) w2] by (simp split: if_splits)
    qed
  qed
qed

section \<open>The other controllers\<close>

lemma store_status_loop_silent:
  "logged reg w0 (case store_status_loop api name k ps (w, p) of Inl (_, w') \<Rightarrow> w' | Inr (w', _) \<Rightarrow> w') \<longleftrightarrow> logged reg w0 w"
proof (induction ps arbitrary: w p)
  case (Cons kp ps)
  obtain key q where kp: "kp = (key, q)" by (cases kp)
  let ?p = "if key = k then p else p\<lparr>p_Status := p_Status q\<rparr>"
  obtain u s where u: "api_status_pool api ?p (w_server w) = (u, s)" by fastforce
  show ?case
  proof (cases "p_Name (if key = k then p else q) = name")
    case True
    with u show ?thesis by (cases u) (simp_all add: kp Let_def Cons.IH del: if_split)
  next
    case False
    then show ?thesis by (simp add: kp Cons.IH)
  qed
qed simp

lemma pool_metrics_ok: "ready reg \<Longrightarrow> list_all (call_ok reg) (pool_metrics req pool)"
  by (simp add: pool_metrics_def pool_gauges_def pool_ratios_def pool_flags_def Let_def call_simps)

lemma logged_live_pool_step:
  assumes "ready reg" "logged reg w0 w" "live_pool_step os api req k w pool = Some (r, w')"
  shows "logged reg w0 w'"
proof -
  have fin: "logged reg w0 (case pool_finalizer_step api w1 p of Inl (_, w') \<Rightarrow> w' | Inr (w', _) \<Rightarrow> w') \<longleftrightarrow> logged reg w0 w1"
    for w1 :: "'a world" and p by (simp add: pool_finalizer_step_def split: sum.split prod.split)
  have short: "logged reg w0 (case short_name_step api w1 p of Inl (_, w') \<Rightarrow> w' | Inr (w', _) \<Rightarrow> w') \<longleftrightarrow> logged reg w0 w1"
    for w1 :: "'a world" and p by (simp add: short_name_step_def split: sum.split prod.split bool.split)
  show ?thesis
  proof (cases "pool_finalizer_step api w pool")
    case (Inl res)
    with fin [of w pool] assms(2,3) show ?thesis by (auto simp: live_pool_step_def)
  next
    case (Inr st)
    obtain w1 p1 where st: "st = (w1, p1)" by fastforce
    have w1: "logged reg w0 w1" using fin [of w pool] assms(2) Inr st by simp
    show ?thesis
    proof (cases "short_name_step api w1 p1")
      case (Inl res)
      with short [of w1 p1] w1 st Inr assms(3) show ?thesis by (auto simp: live_pool_step_def)
    next
      case s: (Inr st2)
      obtain w2 p2 where st2: "st2 = (w2, p2)" by fastforce
      have w2: "logged reg w0 w2" using short [of w1 p1] w1 s st2 by simp
      from assms(3) Inr st s st2 obtain ps ca p3 where
        res: "(case store_status_loop api (rq_Name req) k ps ((put_pool k (init_pool_status p2) w2)\<lparr>w_cache := ca\<rparr>, p3) of
            Inl r \<Rightarrow> r | Inr (w, pool) \<Rightarrow> (Done, emit (pool_metrics req pool) w)) = (r, w')"
        by (auto simp: live_pool_step_def Let_def split: Option.bind_splits)
      with store_status_loop_silent [of reg w0 api "rq_Name req" k ps "(put_pool k (init_pool_status p2) w2)\<lparr>w_cache := ca\<rparr>" p3]
        w2 pool_metrics_ok [OF assms(1)] show ?thesis
        by (auto intro: logged_emit split: sum.splits prod.splits)
    qed
  qed
qed

lemma logged_PoolReconcile:
  assumes "ready reg" "PoolReconcile os api req w = Some (r, w')"
  shows "logged reg w w'"
  using assms(2) logged_live_pool_step [OF assms(1) logged_refl]
  by (auto simp: PoolReconcile_def delete_pool_step_def Let_def split: sum.splits if_splits prod.splits)

lemma logged_NetworkReconcile: "NetworkReconcile api req w = (r, w') \<Longrightarrow> logged reg w w'"
  by (auto simp: NetworkReconcile_def delete_network_step_def Let_def split: sum.splits if_splits prod.splits)

lemma logged_Prune: "logged reg w (PruneAbandonedLeases os api w)"
  by (simp add: PruneAbandonedLeases_def Let_def split: sum.split)

lemma ctrl_step_logged: "ready reg \<Longrightarrow> ctrl_step api allow w w' \<Longrightarrow> logged reg w w'"
  by (erule ctrl_step.cases)
    (simp_all add: logged_LeaseReconcile logged_PoolReconcile logged_NetworkReconcile logged_Prune)

text \<open>A pool that is being deleted leaves its series behind: the step that drops it calls no collector.\<close>

lemma deleted_pool_keeps_series:
  assumes "api_get_pool api (rq_Namespace req) (rq_Name req) (w_server w) = Inr pool"
    and "om_DeletionTimestamp (p_Meta pool) \<noteq> None" "PoolReconcile os api req w = Some (r, w')"
  shows "exposed reg (w_metrics w') = exposed reg (w_metrics w)"
proof -
  have "delete_pool_step api (object_key (rq_Namespace req) (rq_Name req)) w pool = (r, w')"
    using assms by (simp add: PoolReconcile_def Let_def del: not_None_eq)
  then have "w_metrics w' = w_metrics w" by (auto simp: delete_pool_step_def drop_pool_def split: if_splits prod.splits sum.splits)
  then show ?thesis by simp
qed

text \<open>
  C28: Metric calls are valid: once the collectors are registered, every call that a controller step makes names a
  registered collector, with exactly the labels it was declared with, and only gauges are decreased or set. So no
  call panics, and none is made on a collector that is not exposed.
\<close>

theorem metric_calls_valid:
  assumes "InitMetrics reg0 = Some reg" "ctrl_step api allow w w'"
  shows "\<exists>calls. w_metrics w' = w_metrics w @ calls \<and> list_all (call_ok reg) calls"
  using ctrl_step_logged [OF InitMetrics_ready [OF assms(1)] assms(2)] by (simp add: logged_def)

end
