(* ===== verification/Startup.thy ===== *)
theory Startup
  imports MetricCalls
begin

text \<open>
  \<^verbatim>\<open>cmd/main.go\<close>, \<^verbatim>\<open>register.go\<close> and the \<open>SetupWithManager\<close> functions: how the process gets from nothing to running
  controllers. The manager of controller-runtime is a parameter; of its builder the model has that \<open>For\<close>
  needs the type to have one kind in the scheme. Registering a kind follows the vendored \<^verbatim>\<open>scheme.go\<close>.
\<close>

section \<open>The scheme\<close>

type_synonym gvk = "string \<times> string \<times> string"  \<comment> \<open>group, version, kind\<close>

text \<open>A scheme maps kinds to Go types.\<close>

type_synonym scheme = "(gvk \<times> string) list"

definition AddKnownTypeWithName :: "gvk \<Rightarrow> string \<Rightarrow> scheme \<Rightarrow> scheme option" where
  "AddKnownTypeWithName gvk goType scheme =
     (case gvk of (grp, version, kind) \<Rightarrow>
        if version = [] then None
        else case map_of scheme gvk of
          Some old \<Rightarrow> if old = goType then Some scheme else None
        | None \<Rightarrow> Some (scheme @ [(gvk, goType)]))"

fun AddTypes :: "(gvk \<times> string) list \<Rightarrow> scheme \<Rightarrow> scheme option" where
  "AddTypes [] scheme = Some scheme"
| "AddTypes ((gvk, goType) # rest) scheme =
     (case AddKnownTypeWithName gvk goType scheme of None \<Rightarrow> None | Some scheme \<Rightarrow> AddTypes rest scheme)"

definition GroupName :: string where "GroupName = ''vspherecapacitymanager.splat.io''"

definition GroupVersion :: "string \<times> string" where "GroupVersion = (GroupName, ''v1'')"

text \<open>What \<open>metav1.AddToGroupVersion\<close> registers, its conversions and defaults left out.\<close>

definition meta_types :: "string \<times> string \<Rightarrow> (gvk \<times> string) list" where
  "meta_types gv =
     (case gv of (grp, version) \<Rightarrow>
        [((grp, version, ''WatchEvent''), ''metav1.WatchEvent''), ((grp, ''__internal'', ''WatchEvent''), ''metav1.InternalEvent'')] @
        map (\<lambda>kind. ((grp, version, kind), ''metav1.'' @ kind))
          [''ListOptions'', ''GetOptions'', ''DeleteOptions'', ''CreateOptions'', ''UpdateOptions'', ''PatchOptions''] @
        map (\<lambda>kind. (([], ''v1'', kind), ''metav1.'' @ kind))
          [''Status'', ''APIVersions'', ''APIGroupList'', ''APIGroup'', ''APIResourceList''])"

definition known_types :: "(gvk \<times> string) list" where
  "known_types = map (\<lambda>kind. ((fst GroupVersion, snd GroupVersion, kind), ''v1.'' @ kind))
     [''Lease'', ''LeaseList'', ''Pool'', ''PoolList'', ''Network'', ''NetworkList'']"

definition addKnownTypes :: "scheme \<Rightarrow> scheme option" where
  "addKnownTypes scheme =
     (case AddTypes known_types scheme of None \<Rightarrow> None | Some scheme \<Rightarrow> AddTypes (meta_types GroupVersion) scheme)"

definition Resource :: "string \<Rightarrow> string \<times> string" where "Resource resource = (GroupName, resource)"

definition Kind :: "string \<Rightarrow> string \<times> string" where "Kind kind = (GroupName, kind)"

section \<open>The manager\<close>

text \<open>
  What the environment answers: the error of \<open>manager.New\<close>, the scheme the manager has at first, the error text for a
  type without a unique kind, the error of creating the controller of a kind with its watch, the error of \<open>Start\<close>.
\<close>

record manager_env =
  env_new :: "string option"
  env_scheme :: scheme
  env_gvk_error :: "string \<Rightarrow> string"
  env_controller :: "gvk \<Rightarrow> string option"
  env_start :: "string option"

text \<open>
  The process while it starts: the scheme, the metrics registry, the cached maps, the kinds with a
  controller, the reconcilers that have got their client with the name of their event recorder, whether the pruning
  runs, and the option of the lease controller.
\<close>

record startup =
  su_scheme :: scheme
  su_registry :: registry
  su_cache :: cache
  su_controllers :: "gvk list"
  su_clients :: "(string \<times> string) list"
  su_pruning :: bool
  su_allow :: bool

definition complete_controller :: "manager_env \<Rightarrow> string \<Rightarrow> startup \<Rightarrow> string + startup" where
  "complete_controller env goType st =
     (case filter (\<lambda>(gvk, ty). ty = goType) (su_scheme st) of
        [(gvk, ty)] \<Rightarrow>
          (case env_controller env gvk of
             Some err \<Rightarrow> Inl err
           | None \<Rightarrow> Inr (st\<lparr>su_controllers := su_controllers st @ [gvk]\<rparr>))
      | _ \<Rightarrow> Inl (env_gvk_error env goType))"

definition set_api_helpers :: "string \<Rightarrow> string \<Rightarrow> startup \<Rightarrow> startup" where
  "set_api_helpers reconciler recorder st = st\<lparr>su_clients := su_clients st @ [(reconciler, recorder)]\<rparr>"

definition PoolReconciler_SetupWithManager :: "manager_env \<Rightarrow> startup \<Rightarrow> string + startup" where
  "PoolReconciler_SetupWithManager env st =
     (case complete_controller env ''v1.Pool'' st of
        Inl err \<Rightarrow> Inl (''error setting up controller: '' @ err)
      | Inr st \<Rightarrow> Inr (set_api_helpers ''PoolReconciler'' ''pools-controller'' st))"

definition LeaseReconciler_SetupWithManager :: "manager_env \<Rightarrow> startup \<Rightarrow> string + startup" where
  "LeaseReconciler_SetupWithManager env st =
     (case complete_controller env ''v1.Lease'' st of
        Inl err \<Rightarrow> Inl (''error setting up controller: '' @ err)
      | Inr st \<Rightarrow> Inr ((set_api_helpers ''LeaseReconciler'' ''leases-controller'' st)\<lparr>su_cache := empty_cache\<rparr>))"

definition NetworkReconciler_SetupWithManager :: "manager_env \<Rightarrow> startup \<Rightarrow> string + startup" where
  "NetworkReconciler_SetupWithManager env st =
     (case complete_controller env ''v1.Network'' st of
        Inl err \<Rightarrow> Inl (''error setting up controller: '' @ err)
      | Inr st \<Rightarrow> Inr (set_api_helpers ''NetworkReconciler'' ''pools-controller'' st))"

text \<open>It starts the loop that prunes every five minutes; a round of it is a step \<open>prune\<close> of \<open>ctrl_step\<close>.\<close>

definition NamespaceReconciler_SetupWithManager :: "manager_env \<Rightarrow> startup \<Rightarrow> string + startup" where
  "NamespaceReconciler_SetupWithManager env st =
     Inr ((set_api_helpers ''NamespaceReconciler'' ''namespaces-controller'' st)\<lparr>su_pruning := True\<rparr>)"

section \<open>main\<close>

definition ALLOW_MULTI_TO_USE_SINGLE :: bool where "ALLOW_MULTI_TO_USE_SINGLE = False"

text \<open>How the process ends, with the last log line.\<close>

datatype exit = Exited nat string | Panicked

text \<open>\<open>main\<close> up to the start of the manager.\<close>

definition boot :: "manager_env \<Rightarrow> registry \<Rightarrow> cache \<Rightarrow> exit + startup" where
  "boot env reg ca =
     (case env_new env of
        Some err \<Rightarrow> Inl (Exited 1 (''could not create manager: '' @ err))
      | None \<Rightarrow>
     (case addKnownTypes (env_scheme env) of
        None \<Rightarrow> Inl Panicked
      | Some scheme \<Rightarrow>
     (case InitMetrics reg of
        None \<Rightarrow> Inl Panicked
      | Some reg \<Rightarrow>
     (case PoolReconciler_SetupWithManager env \<lparr>su_scheme = scheme, su_registry = reg, su_cache = ca, su_controllers = [],
          su_clients = [], su_pruning = False, su_allow = ALLOW_MULTI_TO_USE_SINGLE\<rparr> of
        Inl err \<Rightarrow> Inl (Exited 1 (''unable to create controller: '' @ err))
      | Inr st \<Rightarrow>
     (case LeaseReconciler_SetupWithManager env st of
        Inl err \<Rightarrow> Inl (Exited 1 (''unable to create controller: '' @ err))
      | Inr st \<Rightarrow>
     (case NetworkReconciler_SetupWithManager env st of
        Inl err \<Rightarrow> Inl (Exited 1 (''unable to create controller: '' @ err))
      | Inr st \<Rightarrow>
     (case NamespaceReconciler_SetupWithManager env st of
        Inl err \<Rightarrow> Inl (Exited 1 (''unable to create controller: '' @ err))
      | Inr st \<Rightarrow> Inr st)))))))"

text \<open>The state in which the manager runs, when it gets that far, and how the process ends.\<close>

definition main :: "manager_env \<Rightarrow> registry \<Rightarrow> cache \<Rightarrow> startup option \<times> exit" where
  "main env reg ca =
     (case boot env reg ca of
        Inl e \<Rightarrow> (None, e)
      | Inr st \<Rightarrow>
          (case env_start env of
             Some err \<Rightarrow> (Some st, Exited 1 (''could not start manager: '' @ err))
           | None \<Rightarrow> (Some st, Exited 0 [])))"

section \<open>What holds when the manager runs\<close>

lemma complete_controller_frame:
  "complete_controller env ty st = Inr st' \<Longrightarrow> su_registry st' = su_registry st \<and> su_scheme st' = su_scheme st \<and>
     su_cache st' = su_cache st \<and> su_allow st' = su_allow st \<and> su_clients st' = su_clients st \<and> su_pruning st' = su_pruning st \<and>
     (\<exists>gvk. (gvk, ty) \<in> set (su_scheme st) \<and> su_controllers st' = su_controllers st @ [gvk])"
  by (auto simp: complete_controller_def split: list.splits prod.splits option.splits dest!: filter_eq_ConsD)

lemma SetupWithManager_Inr:
  "PoolReconciler_SetupWithManager env st = Inr st' \<Longrightarrow>
     \<exists>st1. complete_controller env ''v1.Pool'' st = Inr st1 \<and> st' = set_api_helpers ''PoolReconciler'' ''pools-controller'' st1"
  "LeaseReconciler_SetupWithManager env st = Inr st' \<Longrightarrow>
     \<exists>st1. complete_controller env ''v1.Lease'' st = Inr st1 \<and>
       st' = (set_api_helpers ''LeaseReconciler'' ''leases-controller'' st1)\<lparr>su_cache := empty_cache\<rparr>"
  "NetworkReconciler_SetupWithManager env st = Inr st' \<Longrightarrow>
     \<exists>st1. complete_controller env ''v1.Network'' st = Inr st1 \<and> st' = set_api_helpers ''NetworkReconciler'' ''pools-controller'' st1"
  by (simp_all add: PoolReconciler_SetupWithManager_def LeaseReconciler_SetupWithManager_def NetworkReconciler_SetupWithManager_def
      split: sum.splits)

lemma continues:
  "(case x of Some err \<Rightarrow> Inl (f err) | None \<Rightarrow> y) = Inr st \<longleftrightarrow> x = None \<and> y = Inr st"
  "(case x of None \<Rightarrow> Inl z | Some a \<Rightarrow> g a) = Inr st \<longleftrightarrow> (\<exists>a. x = Some a \<and> g a = Inr st)"
  "(case r of Inl err \<Rightarrow> Inl (h err) | Inr b \<Rightarrow> k b) = Inr st \<longleftrightarrow> (\<exists>b. r = Inr b \<and> k b = Inr st)"
  by (simp_all split: option.split sum.split)

lemma main_runs:
  assumes "main env reg ca = (Some st, e)"
  obtains scheme reg' st1 st2 st3 where "addKnownTypes (env_scheme env) = Some scheme" "InitMetrics reg = Some reg'"
    "PoolReconciler_SetupWithManager env \<lparr>su_scheme = scheme, su_registry = reg', su_cache = ca, su_controllers = [],
       su_clients = [], su_pruning = False, su_allow = ALLOW_MULTI_TO_USE_SINGLE\<rparr> = Inr st1"
    "LeaseReconciler_SetupWithManager env st1 = Inr st2" "NetworkReconciler_SetupWithManager env st2 = Inr st3"
    "NamespaceReconciler_SetupWithManager env st3 = Inr st"
proof -
  have "boot env reg ca = Inr st" using assms by (simp add: main_def split: sum.splits option.splits)
  then show thesis unfolding boot_def continues by - (elim exE conjE, simp only: sum.inject, rule that)
qed

lemma main_started:
  assumes "main env reg ca = (Some st, e)"
  shows "InitMetrics reg = Some (su_registry st)" "su_cache st = empty_cache" "\<not> su_allow st" "su_pruning st"
    "list_all2 (\<lambda>gvk goType. (gvk, goType) \<in> set (su_scheme st)) (su_controllers st) [''v1.Pool'', ''v1.Lease'', ''v1.Network'']"
    "map fst (su_clients st) = [''PoolReconciler'', ''LeaseReconciler'', ''NetworkReconciler'', ''NamespaceReconciler'']"
proof -
  obtain scheme reg' st1 st2 st3 where m: "InitMetrics reg = Some reg'"
    "PoolReconciler_SetupWithManager env \<lparr>su_scheme = scheme, su_registry = reg', su_cache = ca, su_controllers = [],
       su_clients = [], su_pruning = False, su_allow = ALLOW_MULTI_TO_USE_SINGLE\<rparr> = Inr st1"
    "LeaseReconciler_SetupWithManager env st1 = Inr st2" "NetworkReconciler_SetupWithManager env st2 = Inr st3"
    "NamespaceReconciler_SetupWithManager env st3 = Inr st" by (rule main_runs [OF assms])
  obtain c1 where c1: "complete_controller env ''v1.Pool'' \<lparr>su_scheme = scheme, su_registry = reg', su_cache = ca, su_controllers = [],
       su_clients = [], su_pruning = False, su_allow = ALLOW_MULTI_TO_USE_SINGLE\<rparr> = Inr c1"
    "st1 = set_api_helpers ''PoolReconciler'' ''pools-controller'' c1"
    using SetupWithManager_Inr(1) [OF m(2)] by blast
  obtain c2 where c2: "complete_controller env ''v1.Lease'' st1 = Inr c2"
    "st2 = (set_api_helpers ''LeaseReconciler'' ''leases-controller'' c2)\<lparr>su_cache := empty_cache\<rparr>"
    using SetupWithManager_Inr(2) [OF m(3)] by blast
  obtain c3 where c3: "complete_controller env ''v1.Network'' st2 = Inr c3"
    "st3 = set_api_helpers ''NetworkReconciler'' ''pools-controller'' c3"
    using SetupWithManager_Inr(3) [OF m(4)] by blast
  note frames = complete_controller_frame [OF c1(1)] complete_controller_frame [OF c2(1)] complete_controller_frame [OF c3(1)]
  from frames c1(2) c2(2) obtain g1 g2 g3 where g: "(g1, ''v1.Pool'') \<in> set scheme" "(g2, ''v1.Lease'') \<in> set scheme"
    "(g3, ''v1.Network'') \<in> set scheme" "su_controllers c3 = [g1, g2, g3]"
    by (auto simp: set_api_helpers_def)
  have st: "st = (set_api_helpers ''NamespaceReconciler'' ''namespaces-controller'' st3)\<lparr>su_pruning := True\<rparr>"
    using m(5) by (simp add: NamespaceReconciler_SetupWithManager_def)
  from m(1) frames g
  show "InitMetrics reg = Some (su_registry st)" "su_cache st = empty_cache" "\<not> su_allow st" "su_pruning st"
    "list_all2 (\<lambda>gvk goType. (gvk, goType) \<in> set (su_scheme st)) (su_controllers st) [''v1.Pool'', ''v1.Lease'', ''v1.Network'']"
    "map fst (su_clients st) = [''PoolReconciler'', ''LeaseReconciler'', ''NetworkReconciler'', ''NamespaceReconciler'']"
    unfolding st c3(2) c2(2) c1(2) by (simp_all add: set_api_helpers_def ALLOW_MULTI_TO_USE_SINGLE_def)
qed

text \<open>
  C29: The manager runs only in a complete process: every collector is registered, the caches are empty, multi-tenant
  leases may not use single-tenant networks, a controller watches each of the three kinds, of the group that the scheme
  maps to the type, and all four reconcilers have their client.
\<close>

theorem main_starts_complete:
  assumes "main env reg ca = (Some st, e)"
  shows "InitMetrics reg = Some (su_registry st) \<and> su_cache st = empty_cache \<and> \<not> su_allow st \<and> su_pruning st \<and>
    list_all2 (\<lambda>gvk goType. (gvk, goType) \<in> set (su_scheme st)) (su_controllers st) [''v1.Pool'', ''v1.Lease'', ''v1.Network''] \<and>
    map fst (su_clients st) = [''PoolReconciler'', ''LeaseReconciler'', ''NetworkReconciler'', ''NamespaceReconciler'']"
  using main_started [OF assms] by (intro conjI)


end
