(* ===== verification/MetricValues.thy ===== *)
theory MetricValues
  imports MetricsRegistry LeaseMetrics NetworkAssign
begin

text \<open>
  What \<open>updateLeaseMetrics\<close> exposes: the values of the gauges after its calls, compared with the cache. Counters are
  floats that are counted up by one, exact as long as they stay below two to the power of 53.
\<close>

section \<open>Counting with floats\<close>

definition counted :: "nat \<Rightarrow> gofloat option" where
  "counted n = (if n = 0 then None else Some (Fin (of_nat n)))"

lemma f64_add_one: "Suc n < 2 ^ 53 \<Longrightarrow> f64_add (Fin (of_nat n)) (Fin 1) = Fin (of_nat (Suc n))"
  using round64_exact [of "int (Suc n)" 0] by (simp add: add.commute)

lemma add_counted:
  assumes "Suc n < 2 ^ 53"
  shows "Some (f64_add (case counted n of None \<Rightarrow> Fin 0 | Some old \<Rightarrow> old) (Fin 1)) = counted (Suc n)"
  using f64_add_one [OF assms] f64_add_one [of 0] by (cases "n = 0") (simp_all add: counted_def)

lemma gget_count_up:
  assumes "gget m k = counted n" "Suc n < 2 ^ 53"
  shows "gget (count_up k m) k = counted (Suc n)"
  using add_counted [OF assms(2)] by (simp add: count_up_def gget_default_def assms(1))

lemma gget_count_up_other: "k \<noteq> j \<Longrightarrow> gget (count_up j m) k = gget m k"
  by (simp add: count_up_def)

lemma gomap_ok_count_up [simp]: "gomap_ok m \<Longrightarrow> gomap_ok (count_up k m)"
  by (simp add: count_up_def)

section \<open>Series\<close>

fun metric_name :: "metric \<Rightarrow> string" where
  "metric_name (MInc n ls) = n"
| "metric_name (MDec n ls) = n"
| "metric_name (MAdd n ls v) = n"
| "metric_name (MSet n ls v) = n"
| "metric_name (MReset n) = n"

lemma apply_call_other: "metric_name m \<noteq> n \<Longrightarrow> apply_call reg m st n = st n"
  by (cases m) (auto simp: add_series_def set_series_def Let_def)

lemma fold_calls_other: "\<forall>m \<in> set ms. metric_name m \<noteq> n \<Longrightarrow> fold (apply_call reg) ms st n = st n"
  by (induction ms arbitrary: st) (simp_all add: apply_call_other)

section \<open>The number of leases\<close>

definition counts_as :: "string \<Rightarrow> string \<Rightarrow> string \<Rightarrow> Lease \<Rightarrow> bool" where
  "counts_as ns ty ph l \<longleftrightarrow> l_Namespace l = ns \<and> ls_NetworkType (l_Spec l) = ty \<and> l_Phase l = ph"

lemma lease_events_counts:
  assumes "ready reg"
  shows "st ''leases_counts'' [ns, ty, ph] = counted k \<Longrightarrow> k + length ls < 2 ^ 53 \<Longrightarrow>
    fold (apply_call reg) (lease_events os ls) st ''leases_counts'' [ns, ty, ph] =
    counted (k + length (filter (counts_as ns ty ph) ls))"
proof (induction ls arbitrary: os st k)
  case (Cons l ls)
  let ?labels = "[(''phase'', l_Phase l), (''networkType'', ls_NetworkType (l_Spec l)), (''namespace'', l_Namespace l)]"
  let ?st = "add_series reg ''leases_counts'' ?labels (Fin 1) st"
  have key: "series_key reg ''leases_counts'' ?labels = [l_Namespace l, ls_NetworkType (l_Spec l), l_Phase l]"
    by (simp add: series_key_def ready_find [OF assms] LeaseCounts_def gget_default_def)
  have "?st ''leases_counts'' [ns, ty, ph] = counted (if counts_as ns ty ph l then Suc k else k)"
    using Cons.prems add_counted [of k] unfolding add_series_def key
    by (auto simp: set_series_def counts_as_def Let_def)
  moreover define st1 where "st1 = apply_call reg (MSet ''lease_age_seconds'' [(''namespace'', l_Namespace l), (''lease'', l_Name l),
        (''pool'', first_pool_name (l_OwnerReferences l)), (''networkType'', ls_NetworkType (l_Spec l))]
        (f64_of_int (time_now (sub 0 os) - l_CreationTimestamp l))) ?st"
  ultimately have "st1 ''leases_counts'' [ns, ty, ph] = counted (if counts_as ns ty ph l then Suc k else k)"
    by (simp add: set_series_def)
  from Cons.IH [of st1 "if counts_as ns ty ph l then Suc k else k" "sub 1 os", OF this] Cons.prems(2) show ?case
    by (simp add: st1_def)
qed simp

lemma network_type_loop_names:
  "network_type_loop p counts ns (t, a, e) = (t', a', e') \<Longrightarrow> \<forall>m \<in> set e. metric_name m = ''network_lease_count'' \<Longrightarrow>
   m \<in> set e' \<Longrightarrow> metric_name m = ''network_lease_count''"
proof (induction ns arbitrary: t a e)
  case (Cons n ns)
  from Cons.prems(1) obtain t1 a1 x where "network_type_loop p counts ns (t1, a1, e @ [x]) = (t', a', e')"
      "metric_name x = ''network_lease_count''" by (auto simp: Let_def)
  with Cons.IH [OF this(1)] Cons.prems(2,3) show ?case by auto
qed simp

lemma pool_type_events_names:
  "pool_type_events os ca counts ps = Some ev \<Longrightarrow> m \<in> set ev \<Longrightarrow>
     metric_name m \<in> {''network_lease_count'', ''pool_networks_total_by_type'', ''pool_networks_available_by_type''}"
proof (induction ps arbitrary: os ev)
  case (Cons p ps)
  from Cons.prems(1) obtain nm t a e later where
    loop: "network_type_loop p counts nm ([], [], []) = (t, a, e)" and
    later: "pool_type_events (sub 3 os) ca counts ps = Some later" and
    ev: "ev = e @ type_events p a (range_map (sub 2 os) t) @ later"
    by (auto simp: Let_def split: Option.bind_splits prod.splits)
  have "metric_name m \<in> {''pool_networks_total_by_type'', ''pool_networks_available_by_type''}"
    if "m \<in> set (type_events p a (range_map (sub 2 os) t))"
    using that by (auto simp: type_events_def Let_def)
  with Cons.prems(2) Cons.IH [OF later] network_type_loop_names [OF loop, of m] show ?case by (auto simp: ev)
qed simp

text \<open>
  C27: The lease gauge is exact: after \<open>updateLeaseMetrics\<close> the gauge \<open>leases_counts\<close> of a namespace, network type
  and phase is the number of cached leases with the three, and there is no such series when there is none.
\<close>

theorem lease_gauge_exact:
  assumes "InitMetrics reg0 = Some reg" "choices_ok os" "cache_ok (w_cache w)"
    and "length (ca_leases (w_cache w)) < 2 ^ 53" "updateLeaseMetrics os w = Some w'"
  shows "exposed reg (w_metrics w') ''leases_counts'' [ns, ty, ph] =
    counted (length (filter (counts_as ns ty ph) (map snd (ca_leases (w_cache w)))))"
proof -
  note r = InitMetrics_ready [OF assms(1)]
  define ls where "ls = range_vals (sub 0 os) (ca_leases (w_cache w))"
  have ms: "mset ls = mset (map snd (ca_leases (w_cache w)))"
    using assms(2,3) by (simp add: ls_def mset_range_vals cache_ok_def)
  define w1 where "w1 = emit ([MReset ''leases_counts'', MReset ''lease_age_seconds''] @ lease_events (sub 1 os) ls) w"
  have "updateNetworkTypeMetrics (sub 2 os) w1 = Some w'"
    using assms(5) by (simp add: updateLeaseMetrics_def w1_def ls_def)
  then obtain ev where "w_metrics w' = w_metrics w1 @ ev" "\<forall>m \<in> set ev. metric_name m \<noteq> ''leases_counts''"
    by (fastforce simp: updateNetworkTypeMetrics_def split: Option.bind_splits dest: pool_type_events_names)
  then have "exposed reg (w_metrics w') ''leases_counts'' = exposed reg (w_metrics w1) ''leases_counts''"
    by (simp add: exposed_def fold_calls_other)
  moreover have "exposed reg (w_metrics w1) ''leases_counts'' [ns, ty, ph] =
      counted (0 + length (filter (counts_as ns ty ph) ls))"
    unfolding w1_def exposed_def
    using lease_events_counts [OF r, of _ ns ty ph 0 ls "sub 1 os"] assms(4) mset_eq_length [OF ms]
    by (simp add: counted_def)
  moreover have "length (filter (counts_as ns ty ph) ls) = length (filter (counts_as ns ty ph) (map snd (ca_leases (w_cache w))))"
    using ms by (metis mset_filter size_mset)
  ultimately show ?thesis by simp
qed

section \<open>The free networks of a pool\<close>

lemma network_type_loop_counts:
  assumes "network_type_loop pool counts ns (t, a, ev) = (t', a', ev')"
    and "gget t ty = counted i" "gget a ty = counted j" "i + length ns < 2 ^ 53" "j \<le> i"
  shows "gget t' ty = counted (i + length (filter (\<lambda>n. getNetworkType n = ty) ns)) \<and>
    gget a' ty = counted (j + length (filter (\<lambda>n. getNetworkType n = ty \<and> gget_default (Fin 0) counts (n_Name n) = Fin 0) ns))"
  using assms
proof (induction ns arbitrary: t a ev i j)
  case (Cons n ns)
  let ?ty = "getNetworkType n" and ?free = "gget_default (Fin 0) counts (n_Name n) = Fin 0"
  let ?t = "count_up ?ty t" and ?a = "if ?free then count_up ?ty a else a"
  let ?i = "if ?ty = ty then Suc i else i" and ?j = "if ?ty = ty \<and> ?free then Suc j else j"
  obtain e where e: "network_type_loop pool counts ns (?t, ?a, e) = (t', a', ev')"
    using Cons.prems(1) by (auto simp: Let_def)
  have "gget ?t ty = counted ?i" "gget ?a ty = counted ?j"
    using Cons.prems by (auto simp: gget_count_up gget_count_up_other)
  from Cons.IH [OF e this] Cons.prems(4,5) show ?case by (auto split: if_splits)
qed simp

definition network_refs :: "Lease list \<Rightarrow> string list" where
  "network_refs ls = concat (map (\<lambda>l. map or_Name (filter (\<lambda>ref. or_Kind ref = ''Network'') (l_OwnerReferences l))) ls)"

lemma network_lease_counts_flat: "network_lease_counts ls = foldl (\<lambda>m k. count_up k m) [] (network_refs ls)"
proof -
  have refs: "foldl (\<lambda>m ref. if or_Kind ref = ''Network'' then count_up (or_Name ref) m else m) m0 refs =
      foldl (\<lambda>m k. count_up k m) m0 (map or_Name (filter (\<lambda>ref. or_Kind ref = ''Network'') refs))" for refs m0
    by (induction refs arbitrary: m0) simp_all
  have "foldl (\<lambda>m lease. foldl (\<lambda>m ref. if or_Kind ref = ''Network'' then count_up (or_Name ref) m else m) m
       (l_OwnerReferences lease)) m0 ls = foldl (\<lambda>m k. count_up k m) m0 (network_refs ls)" for m0
    by (induction ls arbitrary: m0) (simp_all add: network_refs_def refs)
  then show ?thesis by (simp add: network_lease_counts_def)
qed

lemma foldl_count_up:
  "gget m k = counted i \<Longrightarrow> i + length ks < 2 ^ 53 \<Longrightarrow> gget (foldl (\<lambda>m k. count_up k m) m ks) k = counted (i + count_list ks k)"
proof (induction ks arbitrary: m i)
  case (Cons x ks)
  have "gget (count_up x m) k = counted (if x = k then Suc i else i)"
    using Cons.prems by (simp add: gget_count_up gget_count_up_other)
  from Cons.IH [OF this] Cons.prems(2) show ?case by (simp split: if_splits)
qed simp

lemma unused_network:
  assumes "length (network_refs ls) < 2 ^ 53"
  shows "gget_default (Fin 0) (network_lease_counts ls) k = Fin 0 \<longleftrightarrow> k \<notin> set (network_refs ls)"
  using foldl_count_up [of "[]" k 0 "network_refs ls"] assms
  by (simp add: network_lease_counts_flat gget_default_def counted_def count_list_0_iff)

lemma unused_free:
  assumes "kinds_ok ca" "n \<in> snd ` set (ca_networks ca)"
    and "mset ls = mset (map snd (ca_leases ca))"
  shows "n_Name n \<notin> set (network_refs ls) \<longleftrightarrow> \<not> has_owner ca n"
  using kinds_okD [OF assms(1,2)] mset_eq_setD [OF assms(3)] by (force simp: network_refs_def has_owner_iff)

text \<open>The calls of one pool, and of all of them.\<close>

lemma type_events_available:
  assumes "ready reg"
  shows "fold (apply_call reg) (type_events pool avail totals) st ''pool_networks_available_by_type'' [ns, name, ty] =
    (if ns = om_Namespace (p_Meta pool) \<and> name = p_Name pool \<and> ty \<in> fst ` set totals
     then Some (gget_default (Fin 0) avail ty) else st ''pool_networks_available_by_type'' [ns, name, ty])"
proof (induction totals arbitrary: st)
  case (Cons kv totals)
  obtain k v where kv: "kv = (k, v)" by (cases kv)
  have "type_events pool avail (kv # totals) =
      [MSet ''pool_networks_total_by_type'' [(''namespace'', om_Namespace (p_Meta pool)), (''pool'', p_Name pool), (''networkType'', k)] v,
       MSet ''pool_networks_available_by_type'' [(''namespace'', om_Namespace (p_Meta pool)), (''pool'', p_Name pool), (''networkType'', k)]
         (gget_default (Fin 0) avail k)] @ type_events pool avail totals"
    by (simp add: type_events_def kv Let_def)
  then show ?case
    by (auto simp: Cons.IH kv set_series_def series_key_def ready_find [OF assms] PoolNetworksAvailableByType_def gget_default_def)
qed (simp add: type_events_def)

lemma network_type_loop_ok_map:
  "network_type_loop pool counts ns (t, a, ev) = (t', a', ev') \<Longrightarrow> gomap_ok t \<Longrightarrow> gomap_ok t'"
proof (induction ns arbitrary: t a ev)
  case (Cons n ns)
  then show ?case by (auto simp: Let_def)
qed simp

lemma counted_default [simp]: "(case counted n of None \<Rightarrow> Fin 0 | Some v \<Rightarrow> v) = Fin (of_nat n)"
  by (simp add: counted_def)

definition same_pool_id :: "Pool \<Rightarrow> Pool \<Rightarrow> bool" where
  "same_pool_id p q \<longleftrightarrow> om_Namespace (p_Meta p) = om_Namespace (p_Meta q) \<and> p_Name p = p_Name q"

lemma pool_calls_available:
  assumes reg: "ready reg" and os: "choices_ok os" and inv: "inventory_ok ca" "kinds_ok ca"
    and ls: "mset ls = mset (map snd (ca_leases ca))" "length (network_refs ls) < 2 ^ 53"
    and m: "getNetworksForPool (sub 0 os) ca q = Some m" "length m < 2 ^ 53"
    and loop: "network_type_loop q (network_lease_counts ls) (range_vals (sub 1 os) m) ([], [], []) = (t, a, e)"
    and n: "net_in_pool ca p n" "getNetworkType n = ty" and uniq: "same_pool_id q p \<Longrightarrow> q = p"
  shows "fold (apply_call reg) (e @ type_events q a (range_map (sub 2 os) t)) st ''pool_networks_available_by_type''
      [om_Namespace (p_Meta p), p_Name p, ty] =
    (if same_pool_id q p then Some (Fin (of_nat (card (free_networks ca p ty))))
     else st ''pool_networks_available_by_type'' [om_Namespace (p_Meta p), p_Name p, ty])"
proof -
  let ?vals = "range_vals (sub 1 os) m" and ?name = "''pool_networks_available_by_type''"
  have ok: "choices_ok (sub 0 os)" "choices_ok (sub 1 os)" "choices_ok (sub 2 os)" using os by simp_all
  have "fold (apply_call reg) e st ?name = st ?name"
    using network_type_loop_names [OF loop] by (intro fold_calls_other) auto
  moreover have "ty \<in> fst ` set (range_map (sub 2 os) t) \<and> gget_default (Fin 0) a ty = Fin (of_nat (card (free_networks ca p ty)))"
    if "q = p"
  proof
    have vals: "set ?vals = {n. net_in_pool ca p n}" "distinct ?vals"
      using pn.vals_exact [OF ok(1,2) inv(1) m(1)] pn.vals_distinct [OF ok(1,2) inventory_cache_ok [OF inv(1)] m(1)] that by simp_all
    have len: "0 + length ?vals < 2 ^ 53"
      using mset_eq_length [OF mset_range_vals [OF ok(2) pn.view_ok [OF m(1)]]] m(2) by simp
    from network_type_loop_counts [OF loop _ _ len, of ty 0]
    have t: "gget t ty = counted (length (filter (\<lambda>n. getNetworkType n = ty) ?vals))" and
      a: "gget a ty = counted (length (filter (\<lambda>n. getNetworkType n = ty \<and> gget_default (Fin 0) (network_lease_counts ls) (n_Name n) = Fin 0) ?vals))"
      by (simp_all add: counted_def)
    have "filter (\<lambda>n. getNetworkType n = ty) ?vals \<noteq> []" using n vals(1) by (auto simp: filter_empty_conv)
    then have "gget t ty \<noteq> None" by (simp add: t counted_def)
    then show "ty \<in> fst ` set (range_map (sub 2 os) t)"
      using gget_in_set ok(3) network_type_loop_ok_map [OF loop] by force
    have "filter (\<lambda>n. getNetworkType n = ty \<and> gget_default (Fin 0) (network_lease_counts ls) (n_Name n) = Fin 0) ?vals =
        filter (\<lambda>n. getNetworkType n = ty \<and> \<not> has_owner ca n) ?vals"
      using vals(1) unused_network [OF ls(2)] unused_free [OF inv(2) _ ls(1)]
      by (intro filter_cong) (auto simp: net_in_pool_def)
    moreover have "length (filter (\<lambda>n. getNetworkType n = ty \<and> \<not> has_owner ca n) ?vals) = card (free_networks ca p ty)"
      using vals by (simp add: free_networks_def conj_commute conj_left_commute flip: distinct_card)
    ultimately show "gget_default (Fin 0) a ty = Fin (of_nat (card (free_networks ca p ty)))"
      by (simp add: gget_default_def a)
  qed
  ultimately show ?thesis
    using uniq by (auto simp: type_events_available [OF reg] same_pool_id_def)
qed

lemma view_length:
  assumes "choices_ok os" "cache_ok ca" "getNetworksForPool os ca q = Some m"
  shows "length m \<le> length (ca_networks ca)"
proof -
  have d: "distinct (range_vals std_choices m)" by (rule pn.vals_distinct [OF assms(1) std_choices_ok assms(2,3)])
  have "length m = length (range_vals std_choices m)"
    using mset_eq_length [OF mset_range_vals [OF std_choices_ok pn.view_ok [OF assms(3)]]] by simp
  also have "\<dots> = card (set (range_vals std_choices m))" by (rule distinct_card [OF d, symmetric])
  also have "\<dots> \<le> card (set (map snd (ca_networks ca)))"
    using pn.vals_sound [OF assms(1) std_choices_ok assms(2,3)] by (intro card_mono) (auto simp: net_in_pool_def)
  also have "\<dots> \<le> length (ca_networks ca)" using card_length [of "map snd (ca_networks ca)"] by simp
  finally show ?thesis .
qed

lemma all_calls_available:
  assumes reg: "ready reg" and inv: "inventory_ok ca" "kinds_ok ca" "length (ca_networks ca) < 2 ^ 53"
    and ls: "mset ls = mset (map snd (ca_leases ca))" "length (network_refs ls) < 2 ^ 53"
    and n: "net_in_pool ca p n" "getNetworkType n = ty"
  shows "choices_ok os \<Longrightarrow> \<forall>q \<in> set ps. same_pool_id q p \<longrightarrow> q = p \<Longrightarrow>
    pool_type_events os ca (network_lease_counts ls) ps = Some ev \<Longrightarrow>
    fold (apply_call reg) ev st ''pool_networks_available_by_type'' [om_Namespace (p_Meta p), p_Name p, ty] =
    (if \<exists>q \<in> set ps. same_pool_id q p then Some (Fin (of_nat (card (free_networks ca p ty))))
     else st ''pool_networks_available_by_type'' [om_Namespace (p_Meta p), p_Name p, ty])"
proof (induction ps arbitrary: os ev st)
  case (Cons q ps)
  from Cons.prems(3) obtain m t a e later where
    m: "getNetworksForPool (sub 0 os) ca q = Some m" and
    loop: "network_type_loop q (network_lease_counts ls) (range_vals (sub 1 os) m) ([], [], []) = (t, a, e)" and
    later: "pool_type_events (sub 3 os) ca (network_lease_counts ls) ps = Some later" and
    ev: "ev = (e @ type_events q a (range_map (sub 2 os) t)) @ later"
    by (auto simp: Let_def split: Option.bind_splits prod.splits)
  have len: "length m < 2 ^ 53"
    using view_length [OF _ inventory_cache_ok [OF inv(1)] m] Cons.prems(1) inv(3) by simp
  have uniq: "same_pool_id q p \<Longrightarrow> q = p" using Cons.prems(2) by simp
  have "choices_ok (sub 3 os)" "\<forall>q \<in> set ps. same_pool_id q p \<longrightarrow> q = p" using Cons.prems(1,2) by simp_all
  note rest = Cons.IH [OF this later]
  show ?case
    unfolding ev fold_append o_apply rest
    using pool_calls_available [OF reg Cons.prems(1) inv(1,2) ls m len loop n uniq, of st] by simp
qed simp

text \<open>
  C26: The network gauge agrees with the assignment: after \<open>updateLeaseMetrics\<close> the gauge
  \<open>pool_networks_available_by_type\<close> of a cached pool and a type that the pool has is the number of networks that
  \<open>getAvailableNetworks\<close> offers for the pool and the type.
\<close>

theorem network_gauge_exact:
  assumes "InitMetrics reg0 = Some reg" "choices_ok os" "choices_ok os'" "inventory_ok (w_cache w)" "kinds_ok (w_cache w)"
    and "length (ca_networks (w_cache w)) < 2 ^ 53" "length (network_refs (map snd (ca_leases (w_cache w)))) < 2 ^ 53"
    and "pool \<in> snd ` set (ca_pools (w_cache w))" "\<forall>q \<in> snd ` set (ca_pools (w_cache w)). same_pool_id q pool \<longrightarrow> q = pool"
    and "net_in_pool (w_cache w) pool n" "updateLeaseMetrics os w = Some w'"
  shows "\<exists>free. getAvailableNetworks os' (w_cache w) pool (getNetworkType n) = Some free \<and>
    exposed reg (w_metrics w') ''pool_networks_available_by_type'' [om_Namespace (p_Meta pool), p_Name pool, getNetworkType n] =
    Some (Fin (of_nat (length free)))"
proof -
  let ?ca = "w_cache w"
  obtain free where free: "getAvailableNetworks os' ?ca pool (getNetworkType n) = Some free" "distinct free"
      "set free = free_networks ?ca pool (getNetworkType n)"
    using getAvailableNetworks_exact [OF assms(3,4)] unfolding free_networks_def by blast
  define ls where "ls = range_vals (sub 0 (sub 2 os)) (ca_leases ?ca)"
  have ms: "mset ls = mset (map snd (ca_leases ?ca))"
    using assms(2,4) by (simp add: ls_def mset_range_vals inventory_ok_def cache_ok_def)
  have sum: "mset (network_refs xs) = (\<Sum>l \<in># mset xs. mset (network_refs [l]))" for xs
    by (induction xs) (simp_all add: network_refs_def)
  have "mset (network_refs ls) = mset (network_refs (map snd (ca_leases ?ca)))"
    by (rule trans [OF sum [of ls] sum [of "map snd (ca_leases ?ca)", folded ms, symmetric]])
  from mset_eq_length [OF this] have len: "length (network_refs ls) < 2 ^ 53" using assms(7) by simp
  obtain calls ev where ev: "pool_type_events (sub 2 (sub 2 os)) ?ca (network_lease_counts ls)
      (range_vals (sub 1 (sub 2 os)) (ca_pools ?ca)) = Some ev" and w': "w_metrics w' = calls @ ev"
    using assms(11) unfolding ls_def
    by (auto simp: updateLeaseMetrics_def updateNetworkTypeMetrics_def simp del: One_nat_def split: Option.bind_splits)
  have pools: "set (range_vals (sub 1 (sub 2 os)) (ca_pools ?ca)) = snd ` set (ca_pools ?ca)"
    using assms(2,4) by (simp add: inventory_ok_def cache_ok_def)
  have os: "choices_ok (sub 2 (sub 2 os))" using assms(2) by simp
  have uniq: "\<forall>q \<in> set (range_vals (sub 1 (sub 2 os)) (ca_pools ?ca)). same_pool_id q pool \<longrightarrow> q = pool"
    unfolding pools by (rule assms(9))
  have "\<exists>q \<in> set (range_vals (sub 1 (sub 2 os)) (ca_pools ?ca)). same_pool_id q pool"
    unfolding pools using assms(8) by (auto simp: same_pool_id_def)
  then have some: "(if \<exists>q \<in> set (range_vals (sub 1 (sub 2 os)) (ca_pools ?ca)). same_pool_id q pool then x else y) = x"
    for x y :: "gofloat option" by (rule if_P)
  have "fold (apply_call reg) ev st ''pool_networks_available_by_type''
      [om_Namespace (p_Meta pool), p_Name pool, getNetworkType n] = Some (Fin (of_nat (length free)))" for st
    unfolding all_calls_available [OF InitMetrics_ready [OF assms(1)] assms(4-6) ms len assms(10) refl os uniq ev, of st] some
      free(3) [symmetric] distinct_card [OF free(2)] by (rule refl)
  then show ?thesis using free(1) by (simp add: exposed_def w')
qed

section \<open>Witnesses\<close>

text \<open>A cached pool with two networks, of which one of the two cached leases owns one.\<close>

definition gauge_world :: "unit world" where
  "gauge_world = \<lparr>w_cache = view_cache, w_server = (), w_metrics = []\<rparr>"

lemma gauge_registry: "InitMetrics [] = Some controller_collectors"
  using controller_collectors_valid by (simp add: InitMetrics_def MustRegister_Some)

lemma gauge_update: "\<exists>w'. updateLeaseMetrics std_choices gauge_world = Some w'"
  using updateLeaseMetrics_total [OF std_choices_ok, of gauge_world] view_inventory by (simp add: gauge_world_def)

theorem lease_gauge_exact_witness:
  "\<exists>w'. updateLeaseMetrics std_choices gauge_world = Some w' \<and>
     exposed controller_collectors (w_metrics w') ''leases_counts'' [[], NetworkTypeSingleTenant, []] = Some (Fin 2)"
proof -
  obtain w' where w': "updateLeaseMetrics std_choices gauge_world = Some w'" using gauge_update by blast
  have "length (ca_leases (w_cache gauge_world)) < 2 ^ 53" "cache_ok (w_cache gauge_world)"
    using inventory_cache_ok [OF view_inventory] by (simp_all add: gauge_world_def view_cache_def)
  from lease_gauge_exact [OF gauge_registry std_choices_ok this(2,1) w', of "[]" NetworkTypeSingleTenant "[]"] w'
  show ?thesis
    by (simp add: gauge_world_def view_defs counts_as_def mk_lease_def zero_defs counted_def)
qed

theorem network_gauge_exact_witness:
  "\<exists>w' free. updateLeaseMetrics std_choices gauge_world = Some w' \<and>
     getAvailableNetworks std_choices view_cache view_pool NetworkTypeSingleTenant = Some free \<and>
     exposed controller_collectors (w_metrics w') ''pool_networks_available_by_type'' [[], ''p1'', NetworkTypeSingleTenant] =
       Some (Fin (of_nat (length free)))"
proof -
  obtain w' where w': "updateLeaseMetrics std_choices gauge_world = Some w'" using gauge_update by blast
  have "inventory_ok (w_cache gauge_world)" "kinds_ok (w_cache gauge_world)" "length (ca_networks (w_cache gauge_world)) < 2 ^ 53"
    "length (network_refs (map snd (ca_leases (w_cache gauge_world)))) < 2 ^ 53"
    "view_pool \<in> snd ` set (ca_pools (w_cache gauge_world))"
    "\<forall>q \<in> snd ` set (ca_pools (w_cache gauge_world)). same_pool_id q view_pool \<longrightarrow> q = view_pool"
    "net_in_pool (w_cache gauge_world) view_pool view_n1"
    using view_inventory view_in_pool(1)
    by (simp_all add: gauge_world_def) (simp_all add: view_defs kinds_ok_def network_refs_def)
  from network_gauge_exact [OF gauge_registry std_choices_ok std_choices_ok this w'] w'
  show ?thesis by (simp add: gauge_world_def) (simp add: view_defs mk_net_pool_def zero_defs)
qed

end
