(* ===== verification/DemoRun.thy ===== *)
theory DemoRun
  imports Startup MetricValues
begin

text \<open>
  A run of the whole program, evaluated: the process starts, two leases of different jobs are created, a network
  and a pool with one port group are reconciled, and then the two leases. The first gets the pool and the network; the second
  gets the pool, which has room for both, but not the network. The witnesses of the properties of runs use it.
\<close>

section \<open>The process and the server\<close>

definition demo_env :: manager_env where
  "demo_env = \<lparr>env_new = None, env_scheme = [], env_gvk_error = (\<lambda>goType. ''no kind is registered for the type '' @ goType),
     env_controller = (\<lambda>_. None), env_start = None\<rparr>"

definition run_pool :: Pool where
  "run_pool = zero_pool\<lparr>p_Kind := ''Pool'', p_Meta := zero_meta\<lparr>om_Name := ''p1'', om_Finalizers := Some []\<rparr>,
     p_Spec := zero_pool_spec\<lparr>ps_VCpus := 16, ps_Memory := 64, ps_IBMPoolSpec := \<lparr>ibm_Pod = ''pod'', ibm_Datacenter = ''dal10''\<rparr>,
       ps_FailureDomain := zero_failure_domain\<lparr>fd_Server := ''vc1'', fd_ShortName := ''p1'',
         fd_Topology := zero_topology\<lparr>tp_Networks := [''/dc/network/vlan-1'']\<rparr>\<rparr>\<rparr>\<rparr>"

definition run_network :: Network where
  "run_network = set_network_finalizers (Some []) (mk_network ''n1'' ''vlan-1'' ''1'')"

definition run_api :: "Lease gomap api" where
  "run_api = store_api run_pool run_network"

definition run_leases :: "Lease gomap" where
  "run_leases = [(''/l1'', mk_lease ''l1'' ''job-a'' []), (''/l2'', mk_lease ''l2'' ''job-b'' [])]"

definition run_start :: "Lease gomap world" where
  "run_start = \<lparr>w_cache = empty_cache, w_server = [], w_metrics = []\<rparr>"

definition run_result :: "(reconcile_result list \<times> Lease gomap world) option" where
  "run_result =
     (let (r1, w1) = NetworkReconcile run_api \<lparr>rq_Namespace = [], rq_Name = ''n1''\<rparr> (set_server run_leases run_start) in
      do { (r2, w2) \<leftarrow> PoolReconcile std_choices run_api \<lparr>rq_Namespace = [], rq_Name = ''p1''\<rparr> w1;
           (r3, w3) \<leftarrow> LeaseReconcile std_choices run_api False \<lparr>rq_Namespace = [], rq_Name = ''l1''\<rparr> w2;
           (r4, w4) \<leftarrow> LeaseReconcile std_choices run_api False \<lparr>rq_Namespace = [], rq_Name = ''l2''\<rparr> w3;
           Some ([r1, r2, r3, r4], w4) })"

definition owned_names :: "Lease gomap \<Rightarrow> (string \<times> string \<times> string list) list" where
  "owned_names s = map (\<lambda>(k, l). (k, l_Phase l, map or_Name (l_OwnerReferences l))) s"

text \<open>The evaluation: results of the four reconciles, and what the leases own in the end.\<close>

lemma run_evaluates:
  "map_option (\<lambda>(rs, w). (rs, owned_names (w_server w), length (w_metrics w))) run_result =
   Some ([Done, Done, Done, RequeueAfter 30], [(''/l1'', PHASE_FULFILLED, [''p1'', ''n1'']), (''/l2'', PHASE_PENDING, [''p1''])], 38)"
  by code_simp

lemma run_steps:
  obtains w where "(ctrl_step run_api False)\<^sup>*\<^sup>* run_start w"
    "owned_names (w_server w) = [(''/l1'', PHASE_FULFILLED, [''p1'', ''n1'']), (''/l2'', PHASE_PENDING, [''p1''])]"
    "length (w_metrics w) = 38"
proof -
  obtain r1 w1 where w1: "NetworkReconcile run_api \<lparr>rq_Namespace = [], rq_Name = ''n1''\<rparr> (set_server run_leases run_start) = (r1, w1)"
    by fastforce
  from run_evaluates obtain r2 w2 r3 w3 r4 w where
    w2: "PoolReconcile std_choices run_api \<lparr>rq_Namespace = [], rq_Name = ''p1''\<rparr> w1 = Some (r2, w2)" and
    w3: "LeaseReconcile std_choices run_api False \<lparr>rq_Namespace = [], rq_Name = ''l1''\<rparr> w2 = Some (r3, w3)" and
    w4: "LeaseReconcile std_choices run_api False \<lparr>rq_Namespace = [], rq_Name = ''l2''\<rparr> w3 = Some (r4, w)" and
    res: "owned_names (w_server w) = [(''/l1'', PHASE_FULFILLED, [''p1'', ''n1'']), (''/l2'', PHASE_PENDING, [''p1''])]"
      "length (w_metrics w) = 38"
    unfolding run_result_def w1 by (auto simp del: append.simps split: Option.bind_splits)
  have "outside_ok run_api (w_server run_start) run_leases"
    by (auto simp: outside_ok_def run_api_def get_stored_def refers_to_def run_leases_def mk_lease_def zero_defs split: if_splits)
  from ctrl_step.outside [where allow = False, OF this]
  have "(ctrl_step run_api False)\<^sup>*\<^sup>* run_start (set_server run_leases run_start)" by (rule r_into_rtranclp)
  also have "ctrl_step run_api False (set_server run_leases run_start) w1" by (rule ctrl_step.network [OF w1])
  also have "ctrl_step run_api False w1 w2" by (rule ctrl_step.pool [OF std_choices_ok w2])
  also have "ctrl_step run_api False w2 w3" by (rule ctrl_step.lease [OF std_choices_ok w3])
  also have "ctrl_step run_api False w3 w" by (rule ctrl_step.lease [OF std_choices_ok w4])
  finally show thesis using res by (rule that)
qed

section \<open>Witnesses\<close>

lemma run_api_ok: "server_ok run_api"
  unfolding run_api_def by (rule store_api_ok) (simp_all add: run_pool_def run_network_def set_network_finalizers_def)

lemma run_start_ok: "\<forall>ns n l. api_get_lease run_api ns n [] = Inr l \<longrightarrow> (\<forall>name. \<not> refers_to l name)"
  by (simp add: run_api_def get_stored_def)

lemma run_reachable:
  assumes "(ctrl_step run_api False)\<^sup>*\<^sup>* run_start w"
  shows "reachable run_api False w"
  using assms
proof induction
  case base
  show ?case unfolding run_start_def by (rule reachable.start [OF run_start_ok])
qed (rule reachable.step)


lemma demo_boots:
  "map_option su_controllers (fst (main demo_env [] empty_cache)) =
     Some [(GroupName, ''v1'', ''Pool''), (GroupName, ''v1'', ''Lease''), (GroupName, ''v1'', ''Network'')] \<and>
   snd (main demo_env [] empty_cache) = Exited 0 []"
  by code_simp

lemma demo_started:
  obtains st where "main demo_env [] empty_cache = (Some st, Exited 0 [])"
    "su_controllers st = [(GroupName, ''v1'', ''Pool''), (GroupName, ''v1'', ''Lease''), (GroupName, ''v1'', ''Network'')]"
  using demo_boots by (cases "main demo_env [] empty_cache") auto

theorem main_starts_complete_witness:
  "\<exists>st. main demo_env [] empty_cache = (Some st, Exited 0 []) \<and>
     su_controllers st = [(GroupName, ''v1'', ''Pool''), (GroupName, ''v1'', ''Lease''), (GroupName, ''v1'', ''Network'')] \<and>
     InitMetrics [] = Some (su_registry st) \<and> su_pruning st"
proof -
  obtain st where st: "main demo_env [] empty_cache = (Some st, Exited 0 [])"
    "su_controllers st = [(GroupName, ''v1'', ''Pool''), (GroupName, ''v1'', ''Lease''), (GroupName, ''v1'', ''Network'')]"
    by (rule demo_started)
  from main_starts_complete [OF st(1)] st show ?thesis by blast
qed


text \<open>A lease that no pool can serve is failed, with nine metric calls.\<close>

lemma lone_lease_evaluates:
  "map_option (\<lambda>(r, w). (r, length (w_metrics w)))
     (LeaseReconcile std_choices run_api False \<lparr>rq_Namespace = [], rq_Name = ''l1''\<rparr> (set_server run_leases run_start)) =
   Some (Done, 9)"
  by code_simp

theorem metric_calls_valid_witness:
  "\<exists>w' calls. ctrl_step run_api False (set_server run_leases run_start) w' \<and> w_metrics w' = calls \<and> length calls = 9 \<and>
     list_all (call_ok controller_collectors) calls"
proof -
  obtain r w' where w': "LeaseReconcile std_choices run_api False \<lparr>rq_Namespace = [], rq_Name = ''l1''\<rparr> (set_server run_leases run_start) =
      Some (r, w')" "length (w_metrics w') = 9"
    using lone_lease_evaluates by auto
  have step: "ctrl_step run_api False (set_server run_leases run_start) w'" by (rule ctrl_step.lease [OF std_choices_ok w'(1)])
  from metric_calls_valid [OF gauge_registry this] w'(2) step show ?thesis by (auto simp: run_start_def)
qed

end
