(* ===== verification/AcceptingServer.thy ===== *)
theory AcceptingServer
  imports NoPanic DemoRun
begin

text \<open>
  What handlers reach, as opposed to what they keep, depends on the API server: here is a server that accepts every
  write to a stored lease, with what the last steps of a reconcile leave of the stored leases, and the server
  of the examples as an instance.
\<close>

section \<open>A server that accepts writes\<close>

text \<open>
  The API server as documented, when nobody else interferes: an update of a stored lease succeeds and stores everything
  but the status, a status update stores the status alone, either answers what is stored, and other objects do not
  change. Nothing is said of an update that removes a finalizer of an object that is being deleted: it may vanish.
\<close>

definition same_deletion :: "Lease \<Rightarrow> Lease \<Rightarrow> bool" where
  "same_deletion x l \<longleftrightarrow> l_DeletionTimestamp x = l_DeletionTimestamp l \<and>
     (l_DeletionTimestamp l = None \<or> om_Finalizers (l_Meta x) = om_Finalizers (l_Meta l))"

definition rewritten :: "'s api \<Rightarrow> Lease \<Rightarrow> 's \<Rightarrow> 's \<Rightarrow> bool" where
  "rewritten api y s s' \<longleftrightarrow> stored_lease api y s' = Inr y \<and>
     (\<forall>ns n l. (ns, n) \<noteq> lease_id y \<longrightarrow> api_get_lease api ns n s = Inr l \<longrightarrow> api_get_lease api ns n s' = Inr l) \<and>
     (\<forall>ns items x. api_list_leases api ns s' = Inr items \<longrightarrow> x \<in> set items \<longrightarrow>
        x = y \<or> (\<exists>items'. api_list_leases api ns s = Inr items' \<and> x \<in> set items'))"

definition accepts_writes :: "'s api \<Rightarrow> bool" where
  "accepts_writes api \<longleftrightarrow>
     (\<forall>x s l. stored_lease api x s = Inr l \<longrightarrow> same_deletion x l \<longrightarrow>
        (\<exists>s'. api_update_lease api x s = (Inr (restore_status l x), s') \<and> rewritten api (restore_status l x) s s')) \<and>
     (\<forall>x s l. stored_lease api x s = Inr l \<longrightarrow>
        (\<exists>s'. api_status_lease api x s = (Inr (restore_status x l), s') \<and> rewritten api (restore_status x l) s s')) \<and>
     (\<forall>p s ns n. api_get_lease api ns n (snd (api_update_pool api p s)) = api_get_lease api ns n s)"

lemma restore_status_simps [simp]:
  "l_Meta (restore_status x l) = l_Meta l" "l_Spec (restore_status x l) = l_Spec l" "l_Status (restore_status x l) = l_Status x"
  "l_Kind (restore_status x l) = l_Kind l" "restore_status x (restore_status y l) = restore_status x l" "restore_status l l = l"
  by (simp_all add: restore_status_def)

lemma update_accepted:
  assumes "accepts_writes api" "stored_lease api x s = Inr l" "same_deletion x l"
  obtains s' where "api_update_lease api x s = (Inr (restore_status l x), s')" "rewritten api (restore_status l x) s s'"
  using assms unfolding accepts_writes_def by blast

lemma status_accepted:
  assumes "accepts_writes api" "stored_lease api x s = Inr l"
  obtains s' where "api_status_lease api x s = (Inr (restore_status x l), s')" "rewritten api (restore_status x l) s s'"
  using assms unfolding accepts_writes_def by blast

text \<open>What the triggers at the end of a reconcile leave of the stored leases.\<close>

definition touched :: "Lease \<Rightarrow> Lease \<Rightarrow> bool" where
  "touched l l' \<longleftrightarrow> l_Status l' = l_Status l \<and> l_Spec l' = l_Spec l \<and> l_OwnerReferences l' = l_OwnerReferences l"

lemma trigger_pools_server:
  assumes "accepts_writes api"
  shows "api_get_lease api ns n (w_server (trigger_pools_loop os api kps w)) = api_get_lease api ns n (w_server w)"
proof (induction kps arbitrary: os w)
  case (Cons kp kps)
  obtain k p where kp: "kp = (k, p)" by (cases kp)
  have "api_get_lease api ns n s' = api_get_lease api ns n s" if "api_update_pool api p s = (r, s')" for p s r s'
    using assms that unfolding accepts_writes_def by (metis snd_conv)
  then show ?case by (auto simp: kp Cons.IH split: sum.split prod.split)
qed simp

lemma trigger_scan_server:
  "trigger_scan api nt kls (w, best) = (w', best') \<Longrightarrow> w_server w' = w_server w \<and>
     (best' = best \<or> (\<exists>k ns n got. best' = Some (k, got) \<and> api_get_lease api ns n (w_server w) = Inr got))"
proof (induction kls arbitrary: w best)
  case (Cons kl kls)
  obtain k l where kl: "kl = (k, l)" by (cases kl)
  obtain w1 b1 where step: "trigger_scan api nt kls (w1, b1) = (w', best')" "w_server w1 = w_server w"
    "b1 = best \<or> (\<exists>k ns n got. b1 = Some (k, got) \<and> api_get_lease api ns n (w_server w) = Inr got)"
    using Cons.prems unfolding kl by (simp split: if_splits sum.splits option.splits) (blast | force)+
  from Cons.IH [OF step(1)] step(2,3) show ?case by auto
qed simp

lemma trigger_leases_server:
  assumes "accepts_writes api" "reads_ok api" "api_get_lease api ns n (w_server w) = Inr l"
  shows "\<exists>l'. api_get_lease api ns n (w_server (triggerLeaseUpdates os api nt w)) = Inr l' \<and> touched l l'"
proof -
  obtain w1 best where scan: "trigger_scan api nt (range_map (sub 0 os) (ca_leases (w_cache w))) (w, None) = (w1, best)" by fastforce
  note s1 = trigger_scan_server [OF scan]
  show ?thesis
  proof (cases best)
    case None
    with scan s1 assms(3) show ?thesis by (simp add: triggerLeaseUpdates_def touched_def)
  next
    case (Some kg)
    obtain k got where kg: "kg = (k, got)" by (cases kg)
    with s1 Some obtain ns' n' where get: "api_get_lease api ns' n' (w_server w) = Inr got" by auto
    with assms(2) have id: "l_Namespace got = ns'" "l_Name got = n'" unfolding reads_ok_def by blast+
    let ?t = "annotate_lease (api_stamp api (time_now (sub 1 os))) got"
    have t: "l_Namespace ?t = ns'" "l_Name ?t = n'" "same_deletion ?t got" "touched got ?t"
      "restore_status got ?t = ?t" using id by (simp_all add: same_deletion_def annotate_lease_def touched_def restore_status_def)
    have "stored_lease api ?t (w_server w) = Inr got" using get t by (simp add: stored_lease_def)
    from update_accepted [OF assms(1) this t(3)] obtain s' where
      s': "api_update_lease api ?t (w_server w) = (Inr ?t, s')" "rewritten api ?t (w_server w) s'" unfolding t(5) by blast
    have srv: "w_server (triggerLeaseUpdates os api nt w) = s'"
      using scan Some kg s1 s'(1) by (simp add: triggerLeaseUpdates_def Let_def)
    show ?thesis
    proof (cases "(ns, n) = (ns', n')")
      case True
      with get assms(3) have "got = l" by simp
      moreover have "api_get_lease api ns n s' = Inr ?t" using s'(2) t(1,2) True by (simp add: rewritten_def stored_lease_def)
      ultimately show ?thesis using t(4) unfolding srv by blast
    next
      case False
      then have "api_get_lease api ns n s' = Inr l" using s'(2) t(1,2) assms(3) unfolding rewritten_def by blast
      then show ?thesis unfolding srv by (simp add: touched_def)
    qed
  qed
qed

lemma settle_server:
  assumes "accepts_writes api" "reads_ok api" "settle os api nt w = Some w'" "api_get_lease api ns n (w_server w) = Inr l"
  shows "\<exists>l'. api_get_lease api ns n (w_server w') = Inr l' \<and> touched l l'"
proof -
  have "w_server w' = w_server (triggerLeaseUpdates (sub 1 os) api nt (triggerPoolUpdates (sub 0 os) api w))"
    using updateLeaseMetrics_frame assms(3) unfolding settle_def by blast
  moreover have "api_get_lease api ns n (w_server (triggerPoolUpdates (sub 0 os) api w)) = Inr l"
    using trigger_pools_server [OF assms(1)] assms(4) by (simp add: triggerPoolUpdates_def)
  ultimately show ?thesis using trigger_leases_server [OF assms(1,2)] by simp
qed
section \<open>The pools of a reconcile\<close>

lemma matches_accounted: "accounted ca p q \<Longrightarrow> poolMatchesStructural lease q = poolMatchesStructural lease p"
  by (simp add: accounted_def poolMatchesStructural_def name_match_def PoolMatchesSelector_def LeaseToleratesPoolTaints_def)

text \<open>The pools the handler works on are the cached ones with their accounted state.\<close>

lemma accounted_pools:
  assumes "choices_ok os" "cache_ok ca" "reconcilePoolStates os ca = Some (ups, ca')"
  shows "\<And>q. q \<in> set ups \<Longrightarrow> \<exists>p \<in> snd ` set (ca_pools ca). accounted ca p q"
    and "\<And>p. p \<in> snd ` set (ca_pools ca) \<Longrightarrow> \<exists>q \<in> set ups. accounted ca p q"
proof -
  note acc = reconcilePoolStates_accounted [OF assms]
  have ok: "gomap_ok (ca_pools ca)" using assms(2) by (simp add: cache_ok_def)
  have rel: "rel_option (accounted ca) (gget (ca_pools ca) k) (gget (ca_pools ca') k)" for k using acc by blast
  show "\<exists>p \<in> snd ` set (ca_pools ca). accounted ca p q" if "q \<in> set ups" for q
  proof -
    from that acc obtain k where "gget (ca_pools ca') k = Some q" by blast
    with rel [of k] obtain p where "gget (ca_pools ca) k = Some p" "accounted ca p q" by (auto simp: option_rel_Some2)
    moreover from this(1) gget_in_set have "p \<in> snd ` set (ca_pools ca)" by (metis imageI snd_conv)
    ultimately show ?thesis by blast
  qed
  show "\<exists>q \<in> set ups. accounted ca p q" if "p \<in> snd ` set (ca_pools ca)" for p
  proof -
    from that obtain k where "gget (ca_pools ca) k = Some p" using gomap_in_set_iff [OF ok] by force
    with rel [of k] obtain q where "gget (ca_pools ca') k = Some q" "accounted ca p q" by (auto simp: option_rel_Some1)
    with acc show ?thesis by blast
  qed
qed
section \<open>The first steps of a reconcile\<close>

text \<open>They set the initial status and the finalizer; what the lease asks for and owns stays as it is.\<close>

definition same_request :: "Lease \<Rightarrow> Lease \<Rightarrow> bool" where
  "same_request l lease \<longleftrightarrow> l_Spec l = l_Spec lease \<and> lease_id l = lease_id lease \<and> l_Labels l = l_Labels lease \<and>
     l_OwnerReferences l = l_OwnerReferences lease \<and> l_CreationTimestamp l = l_CreationTimestamp lease \<and>
     l_DeletionTimestamp l = l_DeletionTimestamp lease"

definition inited :: "choices \<Rightarrow> Lease \<Rightarrow> Lease" where
  "inited os lease = (if l_Phase lease = [] then restore_status (init_status os lease) lease else lease)"

definition finalized :: "Lease \<Rightarrow> Lease" where
  "finalized lease = (if om_Finalizers (l_Meta lease) = None then set_finalizers (Some [LeaseFinalizer]) lease else lease)"

lemma first_steps_same [simp]:
  "same_request (inited os lease) lease" "same_request (finalized lease) lease"
  "l_Phase (inited os lease) = (if l_Phase lease = [] then PHASE_PENDING else l_Phase lease)"
  "l_Status (finalized lease) = l_Status lease"
  by (auto simp: same_request_def inited_def finalized_def init_status_def set_finalizers_def restore_status_def)

lemma first_steps_conds_ok: "choices_ok os \<Longrightarrow> lease_conds_ok lease \<Longrightarrow> lease_conds_ok (finalized (inited os lease))"
  using set_conds_ok [of os] by (auto simp: lease_conds_ok_def inited_def init_status_def)

lemma init_step_accepted:
  assumes "accepts_writes api" "stored_lease api lease (w_server w) = Inr lease"
  shows "\<exists>w'. init_step os api w lease = Inr (w', inited os lease) \<and> w_cache w' = w_cache w \<and>
    stored_lease api (inited os lease) (w_server w') = Inr (inited os lease) \<and>
    (inited os lease = lease \<and> w' = w \<or> rewritten api (inited os lease) (w_server w) (w_server w'))"
proof (cases "l_Phase lease = []")
  case False
  with assms show ?thesis by (simp add: init_step_def inited_def)
next
  case True
  let ?i = "init_status os lease"
  have i: "l_Meta ?i = l_Meta lease" by (simp add: init_status_def)
  then have "stored_lease api ?i (w_server w) = Inr lease" using assms(2) by (simp add: stored_lease_def)
  from status_accepted [OF assms(1) this] obtain s' where
    s': "api_status_lease api ?i (w_server w) = (Inr (restore_status ?i lease), s')" "rewritten api (restore_status ?i lease) (w_server w) s'"
    by blast
  have "stored_lease api (restore_status ?i lease) s' = Inr (restore_status ?i lease)" using s'(2) by (simp add: rewritten_def)
  with True s' show ?thesis by (simp add: init_step_def inited_def Let_def)
qed

lemma finalizer_step_accepted:
  assumes "accepts_writes api" "stored_lease api lease (w_server w) = Inr lease" "l_DeletionTimestamp lease = None"
  shows "\<exists>w'. finalizer_step api w lease = Inr (w', finalized lease) \<and> w_cache w' = w_cache w \<and>
    stored_lease api (finalized lease) (w_server w') = Inr (finalized lease) \<and>
    (finalized lease = lease \<and> w' = w \<or> rewritten api (finalized lease) (w_server w) (w_server w'))"
proof (cases "om_Finalizers (l_Meta lease) = None")
  case False
  with assms show ?thesis by (simp add: finalizer_step_def finalized_def del: not_None_eq)
next
  case True
  let ?f = "set_finalizers (Some [LeaseFinalizer]) lease"
  have f: "stored_lease api ?f s = stored_lease api lease s" "l_Status ?f = l_Status lease" "same_deletion ?f lease" for s
    using assms(3) by (simp_all add: same_deletion_def stored_lease_def set_finalizers_def)
  then have f': "restore_status lease ?f = ?f" by (simp add: restore_status_def)
  have "stored_lease api ?f (w_server w) = Inr lease" using assms(2) f(1) by simp
  from update_accepted [OF assms(1) this f(3)] obtain s' where
    s': "api_update_lease api ?f (w_server w) = (Inr ?f, s')" "rewritten api ?f (w_server w) s'" unfolding f' by blast
  have "stored_lease api ?f s' = Inr ?f" using s'(2) by (simp add: rewritten_def)
  with True s' show ?thesis by (simp add: finalizer_step_def finalized_def)
qed

section \<open>An instance\<close>

lemma store_rewritten:
  assumes "get_stored s (l_Namespace y) (l_Name y) = Inr l"
  shows "rewritten (store_api p n) y s (gset (key_of y) y s)"
  unfolding rewritten_def
proof (intro conjI allI impI)
  have y: "CHR ''/'' \<notin> set (l_Namespace y)" using get_stored_Inr [OF assms] by simp
  show "stored_lease (store_api p n) y (gset (key_of y) y s) = Inr y"
    using y get_stored_gset [of y y s] by (simp add: stored_lease_def)
  fix ns nm x assume *: "(ns, nm) \<noteq> lease_id y" "api_get_lease (store_api p n) ns nm s = Inr x"
  then have "CHR ''/'' \<notin> set ns" using get_stored_Inr by simp
  with *(1) have "object_key ns nm \<noteq> key_of y" using object_key_inj [OF _ y] unfolding key_of_def by blast
  with * get_stored_gset [of y y s] show "api_get_lease (store_api p n) ns nm (gset (key_of y) y s) = Inr x" by auto
next
  fix ns items x assume "api_list_leases (store_api p n) ns (gset (key_of y) y s) = Inr items" "x \<in> set items"
  then have "x \<in> set (map snd (gset (key_of y) y s))" by (simp add: store_api_def del: set_map)
  then have "x \<in> snd ` set (gset (key_of y) y s)" unfolding set_map .
  moreover have "snd ` set (gset k y m) \<subseteq> insert y (snd ` set m)" for k and m :: "Lease gomap" by (induction m) auto
  ultimately have "x = y \<or> x \<in> snd ` set s" by blast
  then show "x = y \<or> (\<exists>items'. api_list_leases (store_api p n) ns s = Inr items' \<and> x \<in> set items')"
    by (simp add: store_api_def)
qed

lemma store_accepts: "accepts_writes (store_api p n)"
  unfolding accepts_writes_def
proof (intro conjI allI impI)
  fix x s l assume l: "stored_lease (store_api p n) x s = Inr l"
  then have get: "get_stored s (l_Namespace x) (l_Name x) = Inr l" by (simp add: stored_lease_def)
  have id: "lease_id l = lease_id x" using get_stored_Inr [OF get] by simp
  have key: "key_of x = key_of (restore_status l x)" "key_of x = key_of (restore_status x l)" using id by (simp_all add: key_of_def)
  show "\<exists>s'. api_status_lease (store_api p n) x s = (Inr (restore_status x l), s') \<and> rewritten (store_api p n) (restore_status x l) s s'"
    using get store_rewritten [of s "restore_status x l" l] id key(2) by (simp add: write_stored_def restore_status_def)
  assume "same_deletion x l"
  then have "update_meta l x = restore_status l x" by (simp add: same_deletion_def update_meta_def restore_status_def)
  then show "\<exists>s'. api_update_lease (store_api p n) x s = (Inr (restore_status l x), s') \<and> rewritten (store_api p n) (restore_status l x) s s'"
    using get store_rewritten [of s "restore_status l x" l] key(1) by (simp add: write_stored_def)
qed simp

end
