(* ===== verification/Fulfilment.thy ===== *)
theory Fulfilment
  imports AcceptingServer
begin

text \<open>
  The promise of the operator, end to end: a lease that waits for one pool, is next in the queue, and for which
  a pool has room and enough free networks is fulfilled by one reconcile, from the request to the
  stored object. Each part of \<open>LeaseReconciler.Reconcile\<close> contributes a lemma on what it reaches, where the other
  theories show what it keeps.
\<close>

section \<open>The networks of the pool\<close>

text \<open>A network is passed over only when the lease already has one of the pool on its VLAN.\<close>

lemma contain_loop_True:
  "contain_loop m net refs = Some True \<Longrightarrow>
     \<exists>ref \<in> set refs. or_Kind ref = ''Network'' \<and> (\<exists>x. gget m (or_Name ref) = Some x \<and> n_VlanId x = n_VlanId net)"
  by (induction refs) (auto split: if_splits option.splits Option.bind_splits)

definition vlan_held :: "cache \<Rightarrow> Pool \<Rightarrow> Lease \<Rightarrow> string \<Rightarrow> bool" where
  "vlan_held ca pool lease vlan \<longleftrightarrow> (\<exists>x. net_in_pool ca pool x \<and> refers_to lease (n_Name x) \<and> n_VlanId x = vlan)"

lemma contained_vlan_held:
  assumes "choices_ok os" "cache_ok ca" "doesLeaseContainPortGroup os ca lease pool net = Some True"
  shows "vlan_held ca pool lease (n_VlanId net)"
proof -
  obtain m where m: "getNetworksForPool os ca pool = Some m" "contain_loop m net (l_OwnerReferences lease) = Some True"
    using assms(3) by (auto simp: doesLeaseContainPortGroup_def split: Option.bind_splits)
  from contain_loop_True [OF m(2)] obtain ref x where ref: "ref \<in> set (l_OwnerReferences lease)" "or_Kind ref = ''Network''"
    and x: "gget m (or_Name ref) = Some x" "n_VlanId x = n_VlanId net" by (elim bexE conjE exE)
  have in_pool: "n_Name x = or_Name ref" "net_in_pool ca pool x" using pn.view_sound [OF assms(1,2) m(1) x(1)] by simp_all
  then have "refers_to lease (n_Name x)" using ref unfolding refers_to_def by (intro bexI [of _ ref]) simp_all
  with in_pool(2) x(2) show ?thesis unfolding vlan_held_def by (intro exI [of _ x]) simp
qed

definition with_networks :: "Network list \<Rightarrow> Lease \<Rightarrow> Lease" where
  "with_networks ns lease = set_owner_refs (l_OwnerReferences lease @ map network_owner_ref ns) lease"

lemma with_networks_simps [simp]:
  "with_networks [] l = l" "with_networks ns (add_network n l) = with_networks (n # ns) l"
  "l_OwnerReferences (with_networks ns l) = l_OwnerReferences l @ map network_owner_ref ns"
  "l_Spec (with_networks ns l) = l_Spec l" "l_Status (with_networks ns l) = l_Status l"
  by (simp_all add: with_networks_def add_network_def)

lemma vlan_held_more: "vlan_held ca pool l v \<Longrightarrow> vlan_held ca pool (with_networks ns l) v"
  unfolding vlan_held_def refers_to_def by fastforce

lemma vlan_held_added:
  "net_in_pool ca pool n \<Longrightarrow> n_Kind n = ''Network'' \<Longrightarrow> vlan_held ca pool (with_networks (n # ns) l) (n_VlanId n)"
  unfolding vlan_held_def refers_to_def by (rule exI [of _ n]) (simp add: network_owner_ref_def)

text \<open>The loop of the first pool stops early only when the pool has what the lease asks for.\<close>

lemma first_pool_loop_fills:
  assumes "full_inventory ca" "kinds_ok ca"
  shows "choices_ok os \<Longrightarrow> \<forall>n \<in> set ns. net_in_pool ca pool n \<Longrightarrow> c \<le> k \<Longrightarrow>
    first_pool_loop os ca pool k ns (c, lease, vl) = Some (c', lease', vl') \<Longrightarrow>
    \<exists>new. lease' = with_networks new lease \<and> c' = c + int (length new) \<and> c' \<le> k \<and> set new \<subseteq> set ns \<and>
      (c' < k \<longrightarrow> (\<forall>n \<in> set ns. vlan_held ca pool lease' (n_VlanId n)))"
proof (induction ns arbitrary: os c lease vl)
  case Nil
  then show ?case by (intro exI [of _ "[]"]) simp
next
  case (Cons n ns)
  show ?case
  proof (cases "c < k")
    case False
    with Cons.prems show ?thesis by (intro exI [of _ "[]"]) auto
  next
    case True
    with Cons.prems(4) obtain b where b: "doesLeaseContainPortGroup (sub 0 os) ca lease pool n = Some b" and
      rest: "first_pool_loop (sub 1 os) ca pool k ns
        (if \<not> b then (c + 1, add_network n lease, add_vlan (n_VlanId n) (n_Name n) vl) else (c, lease, vl)) =
          Some (c', lease', vl')"
      by (auto split: Option.bind_splits)
    have ok: "choices_ok (sub 1 os)" and ns: "\<forall>n \<in> set ns. net_in_pool ca pool n" using Cons.prems(1,2) by simp_all
    show ?thesis
    proof (cases b)
      case True
      have "choices_ok (sub 0 os)" using Cons.prems(1) by simp
      from contained_vlan_held [OF this full_inventoryD(2) [OF assms(1)] b [simplified True]]
      have held: "vlan_held ca pool lease (n_VlanId n)" .
      have "first_pool_loop (sub 1 os) ca pool k ns (c, lease, vl) = Some (c', lease', vl')" using rest True by simp
      from Cons.IH [OF ok ns Cons.prems(3) this] obtain new where new: "lease' = with_networks new lease"
        "c' = c + int (length new)" "c' \<le> k" "set new \<subseteq> set ns"
        "c' < k \<longrightarrow> (\<forall>n \<in> set ns. vlan_held ca pool lease' (n_VlanId n))" by blast
      with vlan_held_more [OF held, of new] show ?thesis by (intro exI [of _ new]) auto
    next
      case False
      then have "first_pool_loop (sub 1 os) ca pool k ns (c + 1, add_network n lease, add_vlan (n_VlanId n) (n_Name n) vl) =
        Some (c', lease', vl')" using rest by simp
      from Cons.IH [OF ok ns _ this] \<open>c < k\<close> obtain new where new: "lease' = with_networks new (add_network n lease)"
        "c' = c + 1 + int (length new)" "c' \<le> k" "set new \<subseteq> set ns"
        "c' < k \<longrightarrow> (\<forall>n \<in> set ns. vlan_held ca pool lease' (n_VlanId n))" by auto
      have "net_in_pool ca pool n" using Cons.prems(2) by simp
      from vlan_held_added [OF this kinds_okD [OF assms(2) net_in_pool_cached [OF this]], of new lease] new
      show ?thesis by (intro exI [of _ "n # new"]) auto
    qed
  qed
qed

text \<open>A lease without networks of its own, and the candidates it is offered.\<close>

definition bare :: "Lease \<Rightarrow> bool" where
  "bare lease \<longleftrightarrow> (\<forall>ref \<in> set (l_OwnerReferences lease). or_Kind ref \<noteq> ''Network'')"

lemma bare_held_vlans:
  assumes "inventory_ok ca" "bare lease" "set new \<subseteq> {n. net_in_pool ca pool n}" "vlan_held ca pool (with_networks new lease) v"
  shows "v \<in> n_VlanId ` set new"
proof -
  obtain x where x: "net_in_pool ca pool x" "refers_to (with_networks new lease) (n_Name x)" "n_VlanId x = v"
    using assms(4) unfolding vlan_held_def by (elim exE conjE)
  then obtain n where n: "n \<in> set new" "n_Name n = n_Name x"
    using assms(2) by (auto simp: refers_to_def bare_def network_owner_ref_def)
  have "inj_on n_Name (snd ` set (ca_networks ca))" using assms(1) by (simp add: inventory_ok_def)
  moreover have "n \<in> snd ` set (ca_networks ca)" "x \<in> snd ` set (ca_networks ca)"
    using assms(3) n(1) x(1) net_in_pool_cached by (blast, blast)
  ultimately have "n = x" using n(2) by (metis inj_onD)
  with n(1) x(3) show ?thesis by (intro image_eqI [of _ _ n]) simp_all
qed

lemma unconstrained_candidates:
  assumes "choices_ok os" "inventory_ok ca" "getCommonNetworksForLease (sub 0 os) ca lease = Inl e"
  shows "\<exists>av. candidate_networks os ca allow lease None idx pool m = Some av \<and>
    free_networks ca pool (ls_NetworkType (l_Spec lease)) \<subseteq> set av \<and> (\<forall>n \<in> set av. net_in_pool ca pool n \<and> \<not> has_owner ca n)"
proof -
  have ok: "choices_ok (sub 1 os)" "choices_ok (sub 2 os)" using assms(1) by simp_all
  obtain av where av: "getAvailableNetworks (sub 1 os) ca pool (ls_NetworkType (l_Spec lease)) = Some av"
    "set av = free_networks ca pool (ls_NetworkType (l_Spec lease))"
    using getAvailableNetworks_exact [OF ok(1) assms(2)] unfolding free_networks_def by blast
  obtain ss where ss: "getAvailableNetworks (sub 2 os) ca pool NetworkTypeSingleTenant = Some ss"
    "set ss = free_networks ca pool NetworkTypeSingleTenant"
    using getAvailableNetworks_exact [OF ok(2) assms(2)] unfolding free_networks_def by blast
  have free: "n \<in> free_networks ca pool ty \<Longrightarrow> net_in_pool ca pool n \<and> \<not> has_owner ca n" for n ty
    by (simp add: free_networks_def)
  show ?thesis
    using av ss free by (cases "allow \<and> ls_NetworkType (l_Spec lease) = NetworkTypeMultiTenant")
      (auto simp: candidate_networks_def assms(3) simp del: One_nat_def)
qed

lemma bare_count: "bare lease \<Longrightarrow> count_pool_networks lease m = 0"
  by (auto simp: count_pool_networks_length bare_def filter_empty_conv)

lemma first_pool_filled:
  assumes "choices_ok os" "full_inventory ca" "kinds_ok ca" "bare lease" "0 < ls_Networks (l_Spec lease)"
    and "\<And>os. choices_ok os \<Longrightarrow> \<exists>e. getCommonNetworksForLease os (with_lease ca lk lease) lease = Inl e"
    and "ls_Networks (l_Spec lease) \<le>
      int (card (n_VlanId ` free_networks (with_lease ca lk lease) pool (ls_NetworkType (l_Spec lease))))"
    and "assign_pool_networks os ca lk allow None 0 pool m (lease, vl) = Some (lease', vl')"
  shows "\<exists>new. lease' = with_networks new lease \<and> int (length new) = ls_Networks (l_Spec lease) \<and>
    (\<forall>n \<in> set new. net_in_pool ca pool n \<and> \<not> has_owner (with_lease ca lk lease) n)"
proof -
  let ?ca = "with_lease ca lk lease" and ?k = "ls_Networks (l_Spec lease)"
  let ?free = "free_networks ?ca pool (ls_NetworkType (l_Spec lease))"
  have ok: "choices_ok (sub 0 os)" "choices_ok (sub 1 os)" "choices_ok (sub 2 os)" using assms(1) by simp_all
  obtain e where "getCommonNetworksForLease (sub 0 (sub 0 os)) ?ca lease = Inl e" using assms(6) ok(1) by (metis choices_ok_sub)
  from unconstrained_candidates [OF ok(1) full_inventoryD(1) [OF full_with_lease [OF assms(2)]] this]
  obtain av where av: "candidate_networks (sub 0 os) ?ca allow lease None 0 pool m = Some av" "?free \<subseteq> set av"
    "\<forall>n \<in> set av. net_in_pool ?ca pool n \<and> \<not> has_owner ?ca n" by blast
  let ?ns = "shuffle_slice (sub 1 os) av"
  have in_pool: "net_in_pool ca pool n = net_in_pool ?ca pool n" for n by (simp add: net_in_pool_def)
  have ns: "set ?ns = set av" using ok(2) by simp
  then have ns_pool: "\<forall>n \<in> set ?ns. net_in_pool ca pool n" using av(3) in_pool by simp
  from assms(8) obtain c' where "first_pool_loop (sub 2 os) ca pool ?k ?ns (0, lease, vl) = Some (c', lease', vl')"
    using assms(5) av(1) by (auto simp: assign_pool_networks_def bare_count [OF assms(4)] simp del: One_nat_def split: Option.bind_splits)
  from first_pool_loop_fills [OF assms(2,3) ok(3) ns_pool _ this] assms(5)
  obtain new where new: "lease' = with_networks new lease" "c' = int (length new)" "c' \<le> ?k" "set new \<subseteq> set av"
    "c' < ?k \<longrightarrow> (\<forall>n \<in> set av. vlan_held ca pool lease' (n_VlanId n))"
    unfolding ns by auto
  have "\<not> c' < ?k"
  proof
    assume less: "c' < ?k"
    have sub: "set new \<subseteq> {n. net_in_pool ca pool n}" using new(4) av(3) in_pool by blast
    have "n_VlanId ` ?free \<subseteq> n_VlanId ` set new"
    proof (rule image_subsetI)
      fix n assume "n \<in> ?free"
      with less new(5) av(2) have "vlan_held ca pool lease' (n_VlanId n)" by blast
      then show "n_VlanId n \<in> n_VlanId ` set new"
        unfolding new(1) by (rule bare_held_vlans [OF full_inventoryD(1) [OF assms(2)] assms(4) sub])
    qed
    then have "card (n_VlanId ` ?free) \<le> card (n_VlanId ` set new)" by (rule card_mono [rotated]) simp
    also have "\<dots> \<le> length new" by (metis card_image_le card_length finite_set order_trans)
    finally show False using assms(7) less new(2) by linarith
  qed
  with new av(3) in_pool show ?thesis by (intro exI [of _ new]) auto
qed

section \<open>One pool\<close>

text \<open>A cached pool that matches the lease and has the CPUs and memory it asks for.\<close>

definition roomy :: "cache \<Rightarrow> Lease \<Rightarrow> Pool \<Rightarrow> bool" where
  "roomy ca lease pool \<longleftrightarrow> poolMatchesStructural lease pool \<and>
     ls_VCpus (l_Spec lease) \<le> wrap64 (cpu_capacity pool - used_cpus ca pool) \<and>
     ls_Memory (l_Spec lease) \<le> wrap64 (ps_Memory (p_Spec pool) - used_memory ca pool)"

text \<open>A lease that asks for one pool, wherever it is, and for networks in it, and that owns nothing yet.\<close>

definition simple_lease :: "Lease \<Rightarrow> bool" where
  "simple_lease lease \<longleftrightarrow> required_pools lease = 1 \<and> ls_VCenters (l_Spec lease) \<le> 0 \<and> ls_MinVCenters (l_Spec lease) \<le> 0 \<and>
     0 < ls_Networks (l_Spec lease) \<and> ls_NetworkType (l_Spec lease) \<noteq> [] \<and>
     (\<forall>ref \<in> set (l_OwnerReferences lease). or_Kind ref \<noteq> ''Network'' \<and> or_Kind ref \<noteq> ''Pool'')"

lemma simple_lease_cong:
  "l_Spec l = l_Spec l' \<Longrightarrow> l_OwnerReferences l = l_OwnerReferences l' \<Longrightarrow> simple_lease l = simple_lease l'"
  by (simp add: simple_lease_def required_pools_def)

lemma satisfiable_one:
  assumes "simple_lease lease" "p \<in> set ps" "poolMatchesStructural lease p"
  shows "fst (IsLeaseSatisfiable lease ps)"
proof -
  let ?ks = "map fst (structuralPoolsPerVCenter lease ps)"
  have free: "required_pools lease = 1" "ls_VCenters (l_Spec lease) \<le> 0" "ls_MinVCenters (l_Spec lease) \<le> 0"
    using assms(1) by (simp_all add: simple_lease_def)
  have "p_Server p \<in> set ?ks" unfolding vcenter_keys(2) using assms(2,3) by (simp add: matching_def)
  then obtain xs ys where ks: "?ks = xs @ p_Server p # ys" by (meson split_list)
  have pos: "0 < length (filter (\<lambda>q. p_Server q = p_Server p) (filter (poolMatchesStructural lease) ps))"
    by (rule length_pos_if_in_set [of p]) (use assms(2,3) in simp)
  have nonneg: "0 \<le> sum_list (map (vc_count lease ps) zs)" for zs by (rule sum_list_nonneg) auto
  have "MaxAchievablePools lease ps = sum_list (map (vc_count lease ps) ?ks)"
    using free(2) unfolding MaxAchievablePools_def Let_def vc_count_vals by simp
  also have "\<dots> = sum_list (map (vc_count lease ps) xs) + vc_count lease ps (p_Server p) + sum_list (map (vc_count lease ps) ys)"
    unfolding ks by simp
  also have "\<dots> \<ge> 1"
  proof -
    have "1 \<le> vc_count lease ps (p_Server p)" unfolding vc_count_def using pos by linarith
    then show ?thesis using nonneg [of xs] nonneg [of ys] by linarith
  qed
  finally show ?thesis using free by (simp add: IsLeaseSatisfiable_fst minVCenters_None_iff)
qed

text \<open>The loop picks one roomy pool and adds a reference to it.\<close>

lemma one_pool_assigned:
  assumes "choices_ok os" "simple_lease lease" "p \<in> set ups" "may_assign lease [] [] p"
  shows "\<exists>q. assign_pools os lease ups 1 [] = Assigned (set_owner_refs (l_OwnerReferences lease @ [pool_owner_ref q]) lease) [q] \<and>
    q \<in> set ups \<and> may_assign lease [] [] q"
proof -
  have free: "ls_VCenters (l_Spec lease) \<le> 0" "ls_MinVCenters (l_Spec lease) \<le> 0"
    using assms(2) by (simp_all add: simple_lease_def)
  note free = unconstrained_round [OF free]
  have ok: "choices_ok (sub 1 os)" using assms(1) by simp
  have all: "available_pools ups [] = ups" by (simp add: available_pools_def)
  obtain q lease' where pick: "pick_pool (sub 1 os) lease ups [] [] = Inr (q, lease')"
    using up.pick_complete [OF ok] assms(3,4) by (metis sum.exhaust surj_pair)
  note sound = up.pick_sound [OF ok pick] and refs = up.pick_refs [OF ok pick]
  have "assign_pools os lease ups 1 [] = assign_pools (sub 2 os) lease' ups 1 [q]"
    using pick by (simp add: assign_pools.simps [of os] free nil_map_def all)
  also have "\<dots> = Assigned lease' [q]" by (simp add: assign_pools.simps)
  finally show ?thesis using sound refs by blast
qed

lemma roomy_accounted:
  assumes "accounted ca p q" "l_Spec lease' = l_Spec lease" "\<And>x. owns_pool lease' x \<Longrightarrow> False"
  shows "may_assign lease' [] [] q \<longleftrightarrow> roomy ca lease p"
  using assms(1) may_assign_spec [OF assms(2), of q] assms(2,3)
  by (auto simp: may_assign_def roomy_def accounted_def poolMatchesStructural_def name_match_def PoolMatchesSelector_def
      LeaseToleratesPoolTaints_def)

section \<open>A lease that is alone in its job\<close>

definition alone :: "'s api \<Rightarrow> cache \<Rightarrow> 's \<Rightarrow> string \<Rightarrow> Lease \<Rightarrow> bool" where
  "alone api ca s k lease \<longleftrightarrow>
     (\<forall>k' other. k' \<noteq> k \<longrightarrow> gget (ca_leases ca) k' = Some other \<longrightarrow> \<not> sibling_of lease other) \<and>
     (\<forall>items. api_list_leases api (l_Namespace lease) s = Inr items \<longrightarrow> (\<forall>other \<in> set items. \<not> sibling_of lease other))"

lemma alone_candidates:
  assumes "choices_ok os" "cache_ok ca" "alone api ca s k lease"
  shows "\<exists>e. getCommonNetworksForLease os (with_lease ca k lease) lease = Inl e"
proof (cases "getCommonNetworksForLease os (with_lease ca k lease) lease")
  case (Inr ns)
  have ok: "cache_ok (with_lease ca k lease)" using assms(2) by simp
  from getCommonNetworks_Inr [OF assms(1) ok Inr] obtain other where
    other: "other \<in> snd ` set (ca_leases (with_lease ca k lease))" "sibling_of lease other" by blast
  then obtain k' where "gget (ca_leases (with_lease ca k lease)) k' = Some other"
    using ok gomap_in_set_iff [of "ca_leases (with_lease ca k lease)"] by (auto simp: cache_ok_def)
  then have "other = lease \<or> k' \<noteq> k \<and> gget (ca_leases ca) k' = Some other" by (auto split: if_splits)
  with other(2) assms(3) show ?thesis unfolding alone_def by (auto simp: sibling_of_def)
qed blast

lemma alone_pools:
  assumes "choices_ok os" "cache_ok (w_cache w)" "alone api ca (w_server w) k lease"
  shows "siblingPoolsForNetworkCommonality os api w lease = Inr [] \<or> (\<exists>e. siblingPoolsForNetworkCommonality os api w lease = Inl e)"
proof -
  have none: "resolveSiblingPools os (w_cache w) lease items = []"
    if "gget (l_Labels lease) BoskosIdLabel = Some i" "api_list_leases api (l_Namespace lease) (w_server w) = Inr items" for i items
  proof -
    have inv: "pools_inv (w_cache w) ([], [])" by (simp add: pools_inv_def)
    have "{c \<in> set items. live_sibling lease c} = {}" using assms(3) that(2) by (auto simp: alone_def live_sibling_def)
    with sibling_loop_exact [OF assms(1,2) inv that(1), of items]
    have "p_Name ` set (snd (sibling_loop os (w_cache w) lease i items ([], []))) = {}" by simp
    then show ?thesis using that(1) by (simp add: resolveSiblingPools_def)
  qed
  then show ?thesis by (auto simp: siblingPoolsForNetworkCommonality_def split: option.split sum.split)
qed

lemma alone_no_commonality:
  assumes "choices_ok os" "cache_ok (w_cache w)" "alone api ca (w_server w) k lease"
  shows "common_port_groups os api allow w lease [pool] = Some None"
  using alone_pools [of "sub 0 os" w api ca k lease] assms by (auto simp: common_port_groups_def)

lemma alone_cong:
  assumes "alone api ca s k lease" "l_Name l = l_Name lease" "l_Namespace l = l_Namespace lease" "l_Labels l = l_Labels lease"
    and "\<And>k'. k' \<noteq> k \<Longrightarrow> gget (ca_leases ca') k' = gget (ca_leases ca) k'"
  shows "alone api ca' s k l"
proof -
  have "sibling_of l other = sibling_of lease other" for other using assms(2-4) by (simp add: sibling_of_def)
  then show ?thesis using assms(1,3,5) unfolding alone_def by simp
qed

section \<open>The assignment of one pool\<close>

lemma has_owner_others:
  assumes "cache_ok ca" "bare l" "n_Kind n = ''Network''"
  shows "has_owner (with_lease ca k l) n \<longleftrightarrow> (\<exists>k' x. k' \<noteq> k \<and> gget (ca_leases ca) k' = Some x \<and> refers_to x (n_Name n))"
proof
  have ok: "gomap_ok (ca_leases (with_lease ca k l))" using with_lease_simps(3) [OF assms(1), of k l] by (simp add: cache_ok_def)
  assume "has_owner (with_lease ca k l) n"
  then obtain x where x: "x \<in> snd ` set (ca_leases (with_lease ca k l))" "refers_to x (n_Name n)"
    unfolding has_owner_iff refers_to_def assms(3) by (elim bexE conjE) blast
  then obtain k' where k': "gget (ca_leases (with_lease ca k l)) k' = Some x" using gomap_in_set_iff [OF ok] by force
  moreover have "x \<noteq> l" using x(2) assms(2) by (auto simp: refers_to_def bare_def)
  ultimately show "\<exists>k' x. k' \<noteq> k \<and> gget (ca_leases ca) k' = Some x \<and> refers_to x (n_Name n)"
    using x(2) by (intro exI [of _ k'] exI [of _ x]) (auto split: if_splits)
next
  assume "\<exists>k' x. k' \<noteq> k \<and> gget (ca_leases ca) k' = Some x \<and> refers_to x (n_Name n)"
  then obtain k' x where x: "k' \<noteq> k" "gget (ca_leases ca) k' = Some x" "refers_to x (n_Name n)" by (elim exE conjE)
  then have "gget (ca_leases (with_lease ca k l)) k' = Some x" by simp
  from gget_in_set [OF this] have "x \<in> snd ` set (ca_leases (with_lease ca k l))" by (rule image_eqI [rotated]) simp
  with x(3) show "has_owner (with_lease ca k l) n" unfolding has_owner_iff refers_to_def assms(3) by (elim bexE conjE) blast
qed

lemma has_owner_with_lease:
  "cache_ok ca \<Longrightarrow> bare l \<Longrightarrow> bare l' \<Longrightarrow> n_Kind n = ''Network'' \<Longrightarrow> has_owner (with_lease ca k l) n = has_owner (with_lease ca k l') n"
  by (simp only: has_owner_others)

lemma network_step_fills:
  assumes "choices_ok os" "safe w" "kinds_ok (w_cache w)" "bare lease" "0 < ls_Networks (l_Spec lease)"
    and "alone api (w_cache w) (w_server w) k lease"
    and "ls_Networks (l_Spec lease) \<le>
      int (card (n_VlanId ` free_networks (with_lease (w_cache w) k lease) pool (ls_NetworkType (l_Spec lease))))"
  shows "\<exists>l new. network_step os api allow k w lease [pool] = Some l \<and> l_Meta l = l_Meta (with_networks new lease) \<and>
    l_Spec l = l_Spec lease \<and> int (length new) = ls_Networks (l_Spec lease) \<and>
    (\<forall>n \<in> set new. net_in_pool (w_cache w) pool n \<and> \<not> has_owner (with_lease (w_cache w) k lease) n)"
proof -
  let ?l = "publish_first_pool pool lease"
  let ?w = "put_lease k ?l w"
  have ok: "choices_ok (sub n os)" for n using assms(1) by simp
  have ca: "w_cache ?w = with_lease (w_cache w) k ?l" by (simp add: put_lease_def with_lease_def)
  have twice: "with_lease (w_cache ?w) k l = with_lease (w_cache w) k l" for l by (simp add: ca with_lease_def)
  have safe: "full_inventory (w_cache ?w)" "cache_ok (w_cache ?w)" "kinds_ok (w_cache ?w)"
    using assms(2,3) safe_world(3) [OF assms(2), of k ?l] by (simp_all add: safe_def full_inventoryD kinds_ok_def)
  have al: "alone api (w_cache ?w) (w_server ?w) k ?l" using alone_cong [OF assms(6), of ?l "w_cache ?w"] by simp
  have bare: "bare ?l" using assms(4) by (simp add: bare_def)
  have net: "network_step os api allow k w lease [pool] =
      do { (lease, vlans) \<leftarrow> assign_networks (sub 2 os) (w_cache ?w) k allow None 0 [pool]
             (?l, existing_vlans (sub 0 os) (w_cache ?w) (l_OwnerReferences ?l) []); Some lease }"
    using alone_no_commonality [OF ok safe(2) al, of 1 allow pool] by (simp add: network_step_def Let_def del: One_nat_def assign_networks.simps)
  obtain l where l: "network_step os api allow k w lease [pool] = Some l"
    using network_step_total [OF assms(1,2), of "[pool]" api allow k lease] by auto
  then obtain vl m l1 vl1 where step: "assign_pool_networks (sub 1 (sub 2 os)) (w_cache ?w) k allow None 0 pool m (?l, vl) = Some (l1, vl1)"
    and env: "(case env_network_for m (l_OwnerReferences l1) of None \<Rightarrow> Some l1 | Some net \<Rightarrow> GenerateEnvVars l1 pool net) = Some l"
    unfolding net by (auto simp del: One_nat_def split: Option.bind_splits)
  have frame: "l_Meta l = l_Meta l1" "l_Spec l = l_Spec l1" using env GenerateEnvVars_frame by (auto split: option.splits)
  have owners: "has_owner (with_lease (w_cache w) k ?l) n = has_owner (with_lease (w_cache w) k lease) n"
    if "net_in_pool (w_cache w) pool n" for n
    by (rule has_owner_with_lease [OF safe_ok(1) [OF assms(2)] bare assms(4)])
      (rule kinds_okD [OF assms(3) net_in_pool_cached [OF that]])
  have pools: "net_in_pool (with_lease ca k x) pool n = net_in_pool ca pool n" for ca x n by (simp add: net_in_pool_def)
  have free: "free_networks (with_lease (w_cache w) k ?l) pool ty = free_networks (with_lease (w_cache w) k lease) pool ty" for ty
    unfolding free_networks_def pools using owners by blast
  obtain new where "l1 = with_networks new ?l" "int (length new) = ls_Networks (l_Spec ?l)"
    "\<forall>n \<in> set new. net_in_pool (w_cache ?w) pool n \<and> \<not> has_owner (with_lease (w_cache w) k ?l) n"
    using first_pool_filled [OF _ safe(1,3) bare _ alone_candidates [OF _ safe(2) al] _ step] assms(1,5,7)
    unfolding twice free by (auto simp del: One_nat_def)
  then show ?thesis using l frame owners unfolding ca pools
    by (intro exI [of _ l] exI [of _ new]) (auto simp: with_networks_def set_owner_refs_def)
qed

section \<open>The stored result\<close>

text \<open>A fulfilled lease: what its owner references are, besides those the lease had before.\<close>

definition fulfilled_with :: "cache \<Rightarrow> Lease \<Rightarrow> Pool \<Rightarrow> Network list \<Rightarrow> Lease \<Rightarrow> bool" where
  "fulfilled_with ca lease pool nets l \<longleftrightarrow> l_Phase l = PHASE_FULFILLED \<and> l_Spec l = l_Spec lease \<and>
     l_OwnerReferences l = l_OwnerReferences lease @ pool_owner_ref pool # map network_owner_ref nets \<and>
     int (length nets) = ls_Networks (l_Spec lease) \<and> (\<forall>n \<in> set nets. net_in_pool ca pool n \<and> \<not> has_owner ca n)"

lemma persist_fulfilled:
  assumes "choices_ok os" "safe w" "accepts_writes api" "reads_ok api" "stored_lease api l (w_server w) = Inr l0"
    and "same_deletion l l0" "l_Phase l = PHASE_FULFILLED"
  shows "\<exists>w' l'. persist_step os api req k w l pool = Some (Done, w') \<and> stored_lease api l (w_server w') = Inr l' \<and> touched l l'"
proof -
  obtain s1 where s1: "api_update_lease api l (w_server w) = (Inr (restore_status l0 l), s1)" "rewritten api (restore_status l0 l) (w_server w) s1"
    by (rule update_accepted [OF assms(3,5,6)])
  then have stored: "stored_lease api l s1 = Inr (restore_status l0 l)" by (simp add: rewritten_def stored_lease_def)
  obtain s2 where s2: "api_status_lease api l s1 = (Inr l, s2)" "rewritten api l s1 s2"
    using status_accepted [OF assms(3) stored] by auto
  let ?w = "set_server s2 (set_server s1 w)"
  let ?m = "emit [MAdd ''leases_in_use'' [(''namespace'', rq_Namespace req), (''pool'', p_Name pool)] (Fin 1)] (put_lease k l ?w)"
  have "safe ?m" using assms(2) by simp
  then obtain w' where w': "settle os api (ls_NetworkType (l_Spec l)) ?m = Some w'" using settle_total [OF assms(1)] by blast
  have "persist_step os api req k w l pool = Some (Done, w')"
    using s1(1) s2(1) w' assms(7) by (simp add: persist_step_def stored_step_def Let_def)
  moreover have "api_get_lease api (l_Namespace l) (l_Name l) (w_server ?m) = Inr l"
    using s2(2) by (simp add: rewritten_def stored_lease_def)
  from settle_server [OF assms(3,4) w' this] obtain l' where "stored_lease api l (w_server w') = Inr l'" "touched l l'"
    unfolding stored_lease_def by blast
  ultimately show ?thesis by blast
qed

lemma held_new:
  assumes "kinds_ok ca" "\<forall>n \<in> set new. net_in_pool ca pool n" "l_OwnerReferences l = refs @ map network_owner_ref new"
  shows "int (length new) \<le> held ca l pool"
proof -
  have "filter (\<lambda>ref. or_Kind ref = ''Network'' \<and> (\<exists>n. net_in_pool ca pool n \<and> n_Name n = or_Name ref)) (map network_owner_ref new)
      = map network_owner_ref new"
    using assms(1,2) kinds_okD net_in_pool_cached by (intro filter_True) (auto simp: network_owner_ref_def)
  then show ?thesis unfolding held_def assms(3) by simp
qed

lemma status_fulfilled:
  assumes "choices_ok os" "inventory_ok ca" "req \<le> 1" "ls_Networks (l_Spec l) \<le> held ca l pool"
  shows "\<exists>l'. status_step os ca l [pool] req = Some l' \<and> l_Phase l' = PHASE_FULFILLED \<and> l_Meta l' = l_Meta l \<and> l_Spec l' = l_Spec l"
proof -
  obtain l' where st: "status_step os ca l [pool] req = Some l'" using status_step_total [OF assms(1,2)] by blast
  then obtain infos networks counts where counts: "networks_per_pool (sub 2 os) ca l [pool] [] = Some counts"
    and l': "l' = conclude (sub 3 os) (set_pool_info infos networks l) [pool] req (range_map (sub 4 os) counts)"
    using status_step_split by blast
  have ok: "choices_ok (sub 2 os)" "choices_ok (sub 4 os)" using assms(1) by simp_all
  have "all_pools_have_networks (ls_Networks (l_Spec l)) (range_map (sub 4 os) counts)"
    using all_pools_have_networks_iff [OF ok assms(2) _ counts] assms(4) by simp
  then have "l_Phase l' = PHASE_FULFILLED" using assms(3) unfolding l' by (simp add: conclude_def)
  with st conclude_frame l' show ?thesis by auto
qed

lemma assign_step_fulfils:
  assumes "choices_ok os" "safe w" "kinds_ok (w_cache w)" "bare lease" "0 < ls_Networks (l_Spec lease)" "required_pools lease = 1"
    and "alone api (w_cache w) (w_server w) k lease"
    and "ls_Networks (l_Spec lease) \<le>
      int (card (n_VlanId ` free_networks (with_lease (w_cache w) k lease) pool (ls_NetworkType (l_Spec lease))))"
    and "accepts_writes api" "reads_ok api" "stored_lease api lease (w_server w) = Inr l0"
    and "same_deletion lease l0"
  shows "\<exists>w' l' new. assign_step os api allow req k w lease [pool] = Some (Done, w') \<and>
    stored_lease api lease (w_server w') = Inr l' \<and> l_Phase l' = PHASE_FULFILLED \<and> l_Spec l' = l_Spec lease \<and>
    l_OwnerReferences l' = l_OwnerReferences lease @ map network_owner_ref new \<and> int (length new) = ls_Networks (l_Spec lease) \<and>
    (\<forall>n \<in> set new. net_in_pool (w_cache w) pool n \<and> \<not> has_owner (with_lease (w_cache w) k lease) n)"
proof -
  have ok: "choices_ok (sub n os)" for n using assms(1) by simp
  obtain l new where l: "network_step (sub 0 os) api allow k w lease [pool] = Some l" "l_Meta l = l_Meta (with_networks new lease)"
    "l_Spec l = l_Spec lease" and new: "int (length new) = ls_Networks (l_Spec lease)"
    "\<forall>n \<in> set new. net_in_pool (w_cache w) pool n \<and> \<not> has_owner (with_lease (w_cache w) k lease) n"
    using network_step_fills [OF ok assms(2-5,7,8)] by blast
  have refs: "l_OwnerReferences l = l_OwnerReferences lease @ map network_owner_ref new" using l(2) by simp
  let ?w = "put_lease k l w"
  have safe: "safe ?w" "inventory_ok (w_cache ?w)" "kinds_ok (w_cache ?w)"
    using assms(2,3) safe_ok(2) [of ?w] by (simp_all add: kinds_ok_def)
  have "\<forall>n \<in> set new. net_in_pool (w_cache ?w) pool n" using new(2) by (simp add: net_in_pool_def)
  from held_new [OF safe(3) this refs] have held: "ls_Networks (l_Spec l) \<le> held (w_cache ?w) l pool" using new(1) l(3) by simp
  obtain m where m: "getNetworksForPool (sub 0 (sub 1 os)) (w_cache ?w) pool = Some m"
    using view_total_ex [OF ok [THEN choices_ok_sub] safe(2)] by blast
  have "count_pool_networks l m \<noteq> 0"
    using count_held [OF _ safe(2) m, of l] ok held assms(5) l(3) by simp
  then have none: "poolMissingNetworks (sub 1 os) (w_cache ?w) l [pool] = Some None" using m by simp
  have "required_pools l \<le> 1" using assms(6) l(3) by (simp add: required_pools_def split: if_splits)
  from status_fulfilled [OF ok safe(2) this held, of 2] obtain l2 where l2: "status_step (sub 2 os) (w_cache ?w) l [pool] (required_pools l) = Some l2"
    "l_Phase l2 = PHASE_FULFILLED" "l_Meta l2 = l_Meta l" "l_Spec l2 = l_Spec l" by blast
  let ?e = "emit [transition_event (l_Phase l2) l2] ?w"
  have meta: "l_Name l2 = l_Name lease" "l_Namespace l2 = l_Namespace lease" "same_deletion l2 l0 = same_deletion lease l0"
    "l_OwnerReferences l2 = l_OwnerReferences l"
    using l(2) l2(3) by (simp_all add: same_deletion_def with_networks_def set_owner_refs_def)
  then have same: "stored_lease api l2 s = stored_lease api lease s" for s by (simp add: stored_lease_def)
  have "safe ?e" using safe(1) by simp
  from persist_fulfilled [OF ok this assms(9,10), of l2 l0 3 req k pool] assms(11,12) meta(3) l2(2)
  obtain w' l' where "persist_step (sub 3 os) api req k ?e l2 pool = Some (Done, w')" "stored_lease api l2 (w_server w') = Inr l'"
    "touched l2 l'" unfolding same by auto
  moreover from this have "assign_step os api allow req k w lease [pool] = Some (Done, w')"
    using l(1) none l2(1) by (simp add: assign_step_def Let_def del: One_nat_def poolMissingNetworks.simps)
  ultimately show ?thesis using new refs l(3) l2(2,4) meta(4) unfolding same touched_def by (intro exI [of _ w'] exI [of _ l'] exI [of _ new]) simp
qed

section \<open>The handler\<close>

text \<open>
  A lease that is next: it is pending and asks for one pool, nobody is before it in the queue or shares its job, some pool has
  room for it, and every pool with room has free networks of its type on as many VLANs as it asks for networks.
\<close>

definition next_up :: "'s api \<Rightarrow> cache \<Rightarrow> 's \<Rightarrow> string \<Rightarrow> Lease \<Rightarrow> bool" where
  "next_up api ca s k lease \<longleftrightarrow> simple_lease lease \<and> alone api ca s k lease \<and>
     (\<forall>k' other. k' \<noteq> k \<longrightarrow> gget (ca_leases ca) k' = Some other \<longrightarrow> \<not> delays lease other) \<and>
     (\<exists>p \<in> snd ` set (ca_pools ca). roomy (with_lease ca k lease) lease p) \<and>
     (\<forall>p \<in> snd ` set (ca_pools ca). roomy (with_lease ca k lease) lease p \<longrightarrow> p_Kind p = ''Pool'' \<and> ls_Networks (l_Spec lease) \<le>
        int (card (n_VlanId ` free_networks (with_lease ca k lease) p (ls_NetworkType (l_Spec lease)))))"

lemma put_lease_with_lease: "w_cache (put_lease k l w) = with_lease (w_cache w) k l"
  by (simp add: put_lease_def with_lease_def)

lemma next_up_simple: "next_up api ca s k lease \<Longrightarrow> simple_lease lease" "next_up api ca s k lease \<Longrightarrow> alone api ca s k lease"
  by (simp_all add: next_up_def)

lemma next_up_not_delayed:
  assumes "next_up api ca s k lease" "choices_ok os" "cache_ok ca'" "gget (ca_leases ca') k = Some lease"
    and "\<And>k'. k' \<noteq> k \<Longrightarrow> gget (ca_leases ca') k' = gget (ca_leases ca) k'"
  shows "\<not> shouldLeaseBeDelayed os ca' lease"
proof
  assume "shouldLeaseBeDelayed os ca' lease"
  then obtain c where c: "c \<in> snd ` set (ca_leases ca')" "delays lease c"
    unfolding shouldLeaseBeDelayed_iff [OF assms(2,3)] by blast
  then obtain k' where k': "gget (ca_leases ca') k' = Some c"
    using assms(3) gomap_in_set_iff [of "ca_leases ca'"] by (auto simp: cache_ok_def)
  moreover have "c \<noteq> lease" using c(2) by (auto simp: delays_def)
  ultimately have "k' \<noteq> k" using assms(4) by auto
  with k' c(2) assms(1,5) show False unfolding next_up_def by auto
qed

lemma accounted_networks:
  assumes "accounted ca p q"
  shows "net_in_pool ca' q n = net_in_pool ca' p n" "pool_owner_ref q = pool_owner_ref p"
    "free_networks ca' q ty = free_networks ca' p ty"
  using assms by (simp_all add: accounted_def net_in_pool_def pool_owner_ref_def free_networks_def)

text \<open>From the pools that the loop returns to the stored lease.\<close>

lemma pools_step_fulfils:
  assumes "choices_ok os" "safe w" "kinds_ok (w_cache w)" "simple_lease lease" "alone api (w_cache w) (w_server w) k lease"
    and "accepts_writes api" "reads_ok api" "stored_lease api lease (w_server w) = Inr l0" "same_deletion lease l0"
    and "\<And>q. q \<in> set ups \<Longrightarrow> \<exists>p \<in> P. accounted ca p q" "p0 \<in> P" "\<exists>q \<in> set ups. accounted ca p0 q" "roomy ca lease p0"
    and "\<And>p. p \<in> P \<Longrightarrow> roomy ca lease p \<Longrightarrow> p_Kind p = ''Pool'' \<and> ls_Networks (l_Spec lease) \<le>
      int (card (n_VlanId ` free_networks (with_lease (w_cache w) k lease) p (ls_NetworkType (l_Spec lease))))"
  shows "\<exists>w' l' p new. pools_step os api allow req k w lease ups = Some (Done, w') \<and>
    stored_lease api lease (w_server w') = Inr l' \<and> p \<in> P \<and> roomy ca lease p \<and>
    fulfilled_with (with_lease (w_cache w) k lease) lease p new l'"
proof -
  have refs: "\<forall>ref \<in> set (l_OwnerReferences lease). or_Kind ref \<noteq> ''Network'' \<and> or_Kind ref \<noteq> ''Pool''"
    and one: "required_pools lease = 1" "0 < ls_Networks (l_Spec lease)" using assms(4) by (simp_all add: simple_lease_def)
  then have own: "\<not> owns_pool lease x" for x by (auto simp: owns_pool_def list_ex_iff)
  have fetch: "fetch_pools api (rq_Namespace req) (w_server w) (GetLeasePoolRefs lease) = Inr []"
    using refs by (simp add: GetLeasePoolRefs_def filter_empty_conv)
  obtain q0 where q0: "q0 \<in> set ups" "may_assign lease [] [] q0" using assms(12,13) roomy_accounted [of ca p0 _ lease lease] own by blast
  obtain q where q: "assign_pools (sub 0 os) lease ups 1 [] = Assigned (set_owner_refs (l_OwnerReferences lease @ [pool_owner_ref q]) lease) [q]"
    "q \<in> set ups" "may_assign lease [] [] q" using one_pool_assigned [OF _ assms(4) q0, of "sub 0 os"] assms(1) by auto
  let ?l = "set_owner_refs (l_OwnerReferences lease @ [pool_owner_ref q]) lease"
  have del: "same_deletion ?l l0" using assms(9) by (simp add: same_deletion_def set_owner_refs_def)
  obtain p where p: "p \<in> P" "accounted ca p q" using assms(10) [OF q(2)] by blast
  have room: "roomy ca lease p" using q(3) roomy_accounted [OF p(2) refl] own by blast
  note enough = assms(14) [OF p(1) room]
  have bare: "bare lease" "bare ?l"
    using refs enough accounted_networks(2) [OF p(2)] by (auto simp: bare_def pool_owner_ref_def)
  have pools: "net_in_pool (with_lease c k x) y n = net_in_pool c y n" for c x y n by (simp add: net_in_pool_def)
  have owners: "has_owner (with_lease (w_cache w) k ?l) n = has_owner (with_lease (w_cache w) k lease) n"
    if "net_in_pool (w_cache w) y n" for n y
    by (rule has_owner_with_lease [OF safe_ok(1) [OF assms(2)] bare(2,1)]) (rule kinds_okD [OF assms(3) net_in_pool_cached [OF that]])
  have free: "free_networks (with_lease (w_cache w) k ?l) q ty = free_networks (with_lease (w_cache w) k lease) p ty" for ty
    using owners [of q] unfolding free_networks_def pools accounted_networks(1) [OF p(2)] by blast
  have al: "alone api (w_cache w) (w_server w) k ?l" by (rule alone_cong [OF assms(5)]) simp_all
  have st: "stored_lease api ?l s = stored_lease api lease s" for s by (simp add: stored_lease_def set_owner_refs_def)
  have "required_pools ?l = 1" using one(1) by (simp add: required_pools_def split: if_splits)
  then obtain w' l' new where *: "assign_step (sub 1 os) api allow req k w ?l [q] = Some (Done, w')" "stored_lease api lease (w_server w') = Inr l'"
    "l_Phase l' = PHASE_FULFILLED" "l_Spec l' = l_Spec lease" "l_OwnerReferences l' = l_OwnerReferences ?l @ map network_owner_ref new"
    "int (length new) = ls_Networks (l_Spec lease)"
    "\<forall>n \<in> set new. net_in_pool (w_cache w) q n \<and> \<not> has_owner (with_lease (w_cache w) k ?l) n"
    using assign_step_fulfils [OF _ assms(2,3) bare(2) _ _ al _ assms(6,7), of "sub 1 os" q l0 allow req] assms(1,8) del one(2) enough
    unfolding st free by (auto simp del: One_nat_def simp: set_owner_refs_def)
  have "pools_step os api allow req k w lease ups = Some (Done, w')"
    using fetch one(1) q(1) *(1) by (simp add: pools_step_def del: One_nat_def)
  moreover have "fulfilled_with (with_lease (w_cache w) k lease) lease p new l'"
    using *(3-7) owners [of q] unfolding fulfilled_with_def pools accounted_networks(1,2) [OF p(2)] by auto
  ultimately show ?thesis using *(2) p(1) room by blast
qed

lemma live_step_fulfils:
  assumes "choices_ok os" "safe w" "kinds_ok (w_cache w)" "l_Phase lease = PHASE_PENDING"
    and "next_up api (w_cache w) (w_server w) k lease" "accepts_writes api" "reads_ok api"
    and "stored_lease api lease (w_server w) = Inr l0" "same_deletion lease l0"
  shows "\<exists>w' l' p new. live_step os api allow req k w lease = Some (Done, w') \<and>
    stored_lease api lease (w_server w') = Inr l' \<and> p \<in> snd ` set (ca_pools (w_cache w)) \<and>
    roomy (with_lease (w_cache w) k lease) lease p \<and> fulfilled_with (with_lease (w_cache w) k lease) lease p new l'"
proof -
  let ?ca = "with_lease (w_cache w) k lease" and ?P = "snd ` set (ca_pools (w_cache w))"
  let ?w1 = "put_lease k lease w"
  have ok: "choices_ok (sub n os)" for n using assms(1) by simp
  have safe1: "safe ?w1" using assms(2) by simp
  note w1 = put_lease_with_lease [of k lease w]
  obtain ups ca where ps: "reconcilePoolStates (sub 0 os) (w_cache ?w1) = Some (ups, ca)" "safe (?w1\<lparr>w_cache := ca\<rparr>)"
    using pool_states_total [OF ok safe1] by blast
  have cok: "cache_ok (w_cache ?w1)" by (rule safe_ok(1) [OF safe1])
  from reconcilePoolStates_accounted [OF ok cok ps(1)] have
    frame: "ca_leases ca = ca_leases ?ca" "ca_networks ca = ca_networks (w_cache w)" unfolding w1 by simp_all
  note acc = accounted_pools [OF ok cok ps(1), unfolded w1 with_lease_simps]
  obtain p0 where p0: "p0 \<in> ?P" "roomy ?ca lease p0" using assms(5) unfolding next_up_def by blast
  obtain q0 where q0: "q0 \<in> set ups" "accounted ?ca p0 q0" using acc(2) [OF p0(1)] by blast
  note simple = next_up_simple [OF assms(5)]
  have "poolMatchesStructural lease q0"
    unfolding matches_accounted [OF q0(2)] using p0(2) by (simp add: roomy_def)
  from satisfiable_one [OF simple(1) q0(1) this] have sat: "failLeaseIfUnsatisfiable os' lease ups = (False, lease)" for os'
    by (auto simp: failLeaseIfUnsatisfiable_def split: prod.split)
  let ?w3 = "put_lease k lease (?w1\<lparr>w_cache := ca\<rparr>)" and ?l = "cond_Set (sub 7 os) (FalseCondition LeaseConditionTypeDelayed) lease"
  have safe3: "safe ?w3" using ps(2) by simp
  have leases: "gget (ca_leases (w_cache ?w3)) k' = (if k' = k then Some lease else gget (ca_leases (w_cache w)) k')" for k'
    using frame(1) by simp
  have type: "default_network_type lease = lease" "pending_again (sub 3 os) (?w1\<lparr>w_cache := ca\<rparr>) lease = (?w1\<lparr>w_cache := ca\<rparr>, lease)"
    using simple(1) assms(4) by (simp_all add: default_network_type_def simple_lease_def pending_again_def)
  have queue: "\<not> shouldLeaseBeDelayed (sub 4 os) (w_cache ?w3) lease"
    by (rule next_up_not_delayed [OF assms(5) ok safe_ok(1) [OF safe3]]) (simp_all add: leases frame(1))
  have step: "live_step os api allow req k w lease = pools_step (sub 6 os) api allow req k ?w3 ?l ups"
    using assms(4) ps(1) sat type queue by (simp add: live_step_def Let_def del: One_nat_def)
  have twice: "ca_leases (with_lease (w_cache ?w3) k x) = ca_leases (with_lease (w_cache w) k x)" for x
    using frame(1) by (simp add: with_lease_def put_lease_def)
  have nets: "ca_networks (w_cache ?w3) = ca_networks (w_cache w)" using frame(2) by simp
  have same: "l_Spec ?l = l_Spec lease" "l_Meta ?l = l_Meta lease" by simp_all
  have bare: "bare lease" "bare ?l" using simple(1) by (simp_all add: simple_lease_def bare_def)
  have pools: "net_in_pool c y n = net_in_pool (w_cache w) y n" if "ca_networks c = ca_networks (w_cache w)" for c y n
    using that by (simp add: net_in_pool_def)
  have owner: "has_owner (with_lease (w_cache ?w3) k ?l) n = has_owner ?ca n" if "net_in_pool (w_cache w) y n" for y n
  proof -
    have "has_owner (with_lease (w_cache ?w3) k ?l) n = has_owner (with_lease (w_cache w) k ?l) n"
      unfolding has_owner_def twice by (rule refl)
    also have "\<dots> = has_owner ?ca n"
      by (rule has_owner_with_lease [OF safe_ok(1) [OF assms(2)] bare(2,1)]) (rule kinds_okD [OF assms(3) net_in_pool_cached [OF that]])
    finally show ?thesis .
  qed
  have free: "free_networks (with_lease (w_cache ?w3) k ?l) p ty = free_networks ?ca p ty" for p ty
    using owner [of p] pools [of "with_lease (w_cache ?w3) k ?l"] pools [of ?ca] nets unfolding free_networks_def by auto
  have al: "alone api (w_cache ?w3) (w_server ?w3) k ?l" using alone_cong [OF simple(2), of ?l "w_cache ?w3"] by (simp add: frame(1))
  have st: "stored_lease api ?l s = stored_lease api lease s" for s by (simp add: stored_lease_def)
  have room: "roomy c ?l p = roomy c lease p" for c p
    by (simp add: roomy_def poolMatchesStructural_def name_match_def PoolMatchesSelector_def LeaseToleratesPoolTaints_def)
  have ful: "fulfilled_with ?ca lease p new l'" if "fulfilled_with (with_lease (w_cache ?w3) k ?l) ?l p new l'" for p new l'
    using that owner [of p] pools [of "with_lease (w_cache ?w3) k ?l"] pools [of ?ca] nets unfolding fulfilled_with_def by auto
  have "\<exists>w' l' p new. pools_step (sub 6 os) api allow req k ?w3 ?l ups = Some (Done, w') \<and>
    stored_lease api ?l (w_server w') = Inr l' \<and> p \<in> ?P \<and> roomy ?ca ?l p \<and>
    fulfilled_with (with_lease (w_cache ?w3) k ?l) ?l p new l'"
  proof (rule pools_step_fulfils [OF ok safe3 _ _ al assms(6,7) _ _ acc(1) p0(1)])
    show "\<exists>q \<in> set ups. accounted ?ca p0 q" using q0 by blast
    show "kinds_ok (w_cache ?w3)" using assms(3) nets by (simp add: kinds_ok_def)
    show "simple_lease ?l" using simple(1) simple_lease_cong [of ?l lease] by simp
    show "roomy ?ca ?l p0" using p0(2) room by simp
    show "stored_lease api ?l (w_server ?w3) = Inr l0" using assms(8) st by simp
    show "same_deletion ?l l0" using assms(9) by (simp add: same_deletion_def)
    show "p_Kind p = ''Pool'' \<and> ls_Networks (l_Spec ?l) \<le>
        int (card (n_VlanId ` free_networks (with_lease (w_cache ?w3) k ?l) p (ls_NetworkType (l_Spec ?l))))"
      if "p \<in> ?P" "roomy ?ca ?l p" for p
      using that assms(5) unfolding next_up_def room free same by blast
  qed
  then show ?thesis unfolding step st room using ful by blast
qed

text \<open>The lease after the steps that set its status and finalizer is next if the stored one was.\<close>

lemma sum_gset_cong:
  "P l = P l' \<Longrightarrow> g l = g l' \<Longrightarrow>
     sum_list (map g (filter P (map snd (gset k l m)))) = (sum_list (map g (filter P (map snd (gset k l' m)))) :: int)"
  by (induction m) auto

lemma roomy_same_request:
  assumes "same_request l lease"
  shows "roomy (with_lease ca k l) l p = roomy (with_lease ca k lease) lease p"
proof -
  have f: "l_Spec l = l_Spec lease" "uses_pool p l = uses_pool p lease" using assms by (simp_all add: same_request_def uses_pool_def)
  have "used_cpus (with_lease ca k l) p = used_cpus (with_lease ca k lease) p"
    "used_memory (with_lease ca k l) p = used_memory (with_lease ca k lease) p"
    using f sum_gset_cong [of "uses_pool p" l lease _ k "ca_leases ca"]
    by (simp_all add: used_cpus_def used_memory_def users_def with_lease_def)
  then show ?thesis
    using f(1) by (simp add: roomy_def poolMatchesStructural_def name_match_def PoolMatchesSelector_def LeaseToleratesPoolTaints_def)
qed

lemma next_up_same_request:
  assumes "next_up api ca s k lease" "same_request l lease"
    and "\<And>items x. api_list_leases api (l_Namespace lease) s' = Inr items \<Longrightarrow> x \<in> set items \<Longrightarrow>
      l_Name x = l_Name lease \<or> (\<exists>items'. api_list_leases api (l_Namespace lease) s = Inr items' \<and> x \<in> set items')"
  shows "next_up api ca s' k l"
proof -
  have f: "l_Spec l = l_Spec lease" "l_Name l = l_Name lease" "l_Namespace l = l_Namespace lease" "l_Labels l = l_Labels lease"
    "l_OwnerReferences l = l_OwnerReferences lease" "l_CreationTimestamp l = l_CreationTimestamp lease"
    using assms(2) by (simp_all add: same_request_def)
  have sib: "sibling_of l other = sibling_of lease other" for other using f by (simp add: sibling_of_def)
  have "alone api ca s' k l"
    using next_up_simple(2) [OF assms(1)] assms(3) unfolding alone_def sib f(3) by (metis sibling_of_def)
  moreover have "delays l other = delays lease other" for other using f by (simp add: delays_def)
  moreover note roomy_same_request [OF assms(2), of ca k]
  moreover have "has_owner (with_lease ca k l) n = has_owner (with_lease ca k lease) n" for n
  proof -
    have "list_ex (\<lambda>(k, lease). P (l_OwnerReferences lease)) (gset k l m) = list_ex (\<lambda>(k, lease). P (l_OwnerReferences lease)) (gset k lease m)" for P m
      using f(5) by (induction m) auto
    then show ?thesis by (simp add: has_owner_def with_lease_def)
  qed
  then have "free_networks (with_lease ca k l) p ty = free_networks (with_lease ca k lease) p ty" for p ty
    by (simp add: free_networks_def net_in_pool_def)
  moreover have "simple_lease l" using next_up_simple(1) [OF assms(1)] simple_lease_cong [OF f(1,5)] by simp
  ultimately show ?thesis using assms(1) unfolding next_up_def f(1) by simp
qed

lemma rewritten_same_request:
  assumes "next_up api ca s k lease" "rewritten api l s s'" "same_request l lease"
  shows "next_up api ca s' k l"
proof (rule next_up_same_request [OF assms(1,3)])
  fix items x assume "api_list_leases api (l_Namespace lease) s' = Inr items" "x \<in> set items"
  with assms(2,3) show "l_Name x = l_Name lease \<or> (\<exists>items'. api_list_leases api (l_Namespace lease) s = Inr items' \<and> x \<in> set items')"
    unfolding rewritten_def same_request_def by blast
qed

lemma init_step_next:
  assumes "accepts_writes api" "stored_lease api lease (w_server w) = Inr lease" "l_Phase lease = [] \<or> l_Phase lease = PHASE_PENDING"
    and "next_up api (w_cache w) (w_server w) k lease"
  shows "\<exists>w' l. init_step os api w lease = Inr (w', l) \<and> w_cache w' = w_cache w \<and> stored_lease api l (w_server w') = Inr l \<and>
    l_Phase l = PHASE_PENDING \<and> same_request l lease \<and> next_up api (w_cache w) (w_server w') k l"
proof -
  obtain w' where w': "init_step os api w lease = Inr (w', inited os lease)" "w_cache w' = w_cache w"
    "stored_lease api (inited os lease) (w_server w') = Inr (inited os lease)"
    "inited os lease = lease \<and> w' = w \<or> rewritten api (inited os lease) (w_server w) (w_server w')"
    using init_step_accepted [OF assms(1,2)] by blast
  have "next_up api (w_cache w) (w_server w') k (inited os lease)"
    using w'(4) assms(4) rewritten_same_request [OF assms(4) _ first_steps_same(1)] by metis
  with w'(1-3) assms(3) show ?thesis by auto
qed

lemma finalizer_step_next:
  assumes "accepts_writes api" "stored_lease api lease (w_server w) = Inr lease" "next_up api (w_cache w) (w_server w) k lease"
    and "l_DeletionTimestamp lease = None"
  shows "\<exists>w' l. finalizer_step api w lease = Inr (w', l) \<and> w_cache w' = w_cache w \<and> stored_lease api l (w_server w') = Inr l \<and>
    l_Phase l = l_Phase lease \<and> same_request l lease \<and> next_up api (w_cache w) (w_server w') k l"
proof -
  obtain w' where w': "finalizer_step api w lease = Inr (w', finalized lease)" "w_cache w' = w_cache w"
    "stored_lease api (finalized lease) (w_server w') = Inr (finalized lease)"
    "finalized lease = lease \<and> w' = w \<or> rewritten api (finalized lease) (w_server w) (w_server w')"
    using finalizer_step_accepted [OF assms(1,2,4)] by blast
  have "next_up api (w_cache w) (w_server w') k (finalized lease)"
    using w'(4) assms(3) rewritten_same_request [OF assms(3) _ first_steps_same(2)] by metis
  with w'(1-3) show ?thesis by auto
qed

lemma fulfilled_with_same_request:
  assumes "same_request l lease" "cache_ok ca" "kinds_ok ca" "bare lease" "fulfilled_with (with_lease ca k l) l p new l'"
  shows "fulfilled_with (with_lease ca k lease) lease p new l'"
proof -
  have f: "l_Spec l = l_Spec lease" "l_OwnerReferences l = l_OwnerReferences lease" using assms(1) by (simp_all add: same_request_def)
  have "bare l" using assms(4) f(2) by (simp add: bare_def)
  then have owner: "has_owner (with_lease ca k l) n = has_owner (with_lease ca k lease) n" if "net_in_pool ca p n" for n
    by (rule has_owner_with_lease [OF assms(2) _ assms(4)]) (rule kinds_okD [OF assms(3) net_in_pool_cached [OF that]])
  have pools: "net_in_pool (with_lease ca k x) p n = net_in_pool ca p n" for x n by (simp add: net_in_pool_def)
  show ?thesis using assms(5) f unfolding fulfilled_with_def pools by (auto simp: owner)
qed

section \<open>Properties\<close>

text \<open>
  C3: A waiting lease is fulfilled: one reconcile of a new or pending lease that asks for one pool, is next in the queue and
  for which there is room ends without an error, and stores the lease as fulfilled, with one pool that has
  room and exactly as many networks of the pool as it asks for, none of which a cached lease owned before. This holds for
  every map order and shuffle, when every network has its fields set and the server accepts the writes.
\<close>

theorem waiting_lease_fulfilled:
  assumes "choices_ok os" "full_inventory (w_cache w)" "kinds_ok (w_cache w)" "accepts_writes api" "reads_ok api"
    and "api_get_lease api (rq_Namespace req) (rq_Name req) (w_server w) = Inr lease"
    and "l_Phase lease = [] \<or> l_Phase lease = PHASE_PENDING" "l_DeletionTimestamp lease = None"
    and "k = object_key (rq_Namespace req) (rq_Name req)" "next_up api (w_cache w) (w_server w) k lease"
  shows "\<exists>w' l' p nets. LeaseReconcile os api allow req w = Some (Done, w') \<and>
    api_get_lease api (rq_Namespace req) (rq_Name req) (w_server w') = Inr l' \<and> p \<in> snd ` set (ca_pools (w_cache w)) \<and>
    roomy (with_lease (w_cache w) k lease) lease p \<and> fulfilled_with (with_lease (w_cache w) k lease) lease p nets l'"
proof -
  have id: "l_Namespace lease = rq_Namespace req" "l_Name lease = rq_Name req" using assms(5,6) unfolding reads_ok_def by blast+
  have "stored_lease api lease (w_server w) = Inr lease" using assms(6) id by (simp add: stored_lease_def)
  from init_step_next [OF assms(4) this assms(7,10), of "sub 0 os"] obtain w1 l1 where
    1: "init_step (sub 0 os) api w lease = Inr (w1, l1)" "w_cache w1 = w_cache w" "stored_lease api l1 (w_server w1) = Inr l1"
    "l_Phase l1 = PHASE_PENDING" "same_request l1 lease" "next_up api (w_cache w1) (w_server w1) k l1" by auto
  have del1: "l_DeletionTimestamp l1 = None" using 1(5) assms(8) by (simp add: same_request_def)
  from finalizer_step_next [OF assms(4) 1(3,6) this] obtain w2 l2 where
    2: "finalizer_step api w1 l1 = Inr (w2, l2)" "w_cache w2 = w_cache w" "stored_lease api l2 (w_server w2) = Inr l2"
    "l_Phase l2 = PHASE_PENDING" "same_request l2 l1" "next_up api (w_cache w2) (w_server w2) k l2" using 1(2,4) by auto
  have same: "same_request l2 lease" using 1(5) 2(5) by (simp add: same_request_def)
  have w2: "safe w2" "kinds_ok (w_cache w2)" using assms(2,3) 2(2) by (simp_all add: safe_def)
  have ok: "choices_ok (sub 2 os)" using assms(1) by simp
  have del: "l_DeletionTimestamp l2 = None" "same_deletion l2 l2" using same assms(8) by (simp_all add: same_request_def same_deletion_def)
  from live_step_fulfils [OF ok w2 2(4,6) assms(4,5) 2(3) del(2), of allow req]
  obtain w' l' p new where live: "live_step (sub 2 os) api allow req k w2 l2 = Some (Done, w')" "stored_lease api l2 (w_server w') = Inr l'"
    "p \<in> snd ` set (ca_pools (w_cache w))" "roomy (with_lease (w_cache w) k l2) l2 p" "fulfilled_with (with_lease (w_cache w) k l2) l2 p new l'"
    unfolding 2(2) by (elim exE conjE)
  have "LeaseReconcile os api allow req w = Some (Done, w')"
    using assms(6,9) 1(1) 2(1) del(1) live(1) by (simp add: LeaseReconcile_def Let_def del: One_nat_def)
  moreover have "api_get_lease api (rq_Namespace req) (rq_Name req) (w_server w') = Inr l'"
    using live(2) same id by (simp add: stored_lease_def same_request_def)
  moreover have "roomy (with_lease (w_cache w) k lease) lease p"
    using live(4) same roomy_same_request [OF same] by simp
  moreover have "bare lease" using next_up_simple(1) [OF assms(10)] by (simp add: simple_lease_def bare_def)
  from fulfilled_with_same_request [OF same full_inventoryD(2) [OF assms(2)] assms(3) this live(5)]
  have "fulfilled_with (with_lease (w_cache w) k lease) lease p new l'" .
  ultimately show ?thesis using live(3) by blast
qed

section \<open>Witness\<close>

text \<open>The pool and the network of \<open>DemoRun\<close> are cached, two new leases of different jobs are stored.\<close>

definition wait_world :: "Lease gomap world" where
  "wait_world = \<lparr>w_cache = \<lparr>ca_pools = [(''/p1'', run_pool)], ca_leases = [], ca_networks = [(''/n1'', run_network)]\<rparr>,
     w_server = run_leases, w_metrics = []\<rparr>"

definition wait_lease :: Lease where
  "wait_lease = mk_lease ''l1'' ''job-a'' []"

lemma wait_room: "roomy (with_lease (w_cache wait_world) ''/l1'' wait_lease) wait_lease run_pool"
  by code_simp

lemma wait_network: "run_network \<in> free_networks (with_lease (w_cache wait_world) ''/l1'' wait_lease) run_pool NetworkTypeSingleTenant"
proof -
  have "getNetworkType run_network = NetworkTypeSingleTenant" "\<not> has_owner (with_lease (w_cache wait_world) ''/l1'' wait_lease) run_network"
    "ns_PodName (n_Spec run_network) = Some (ibm_Pod (ps_IBMPoolSpec (p_Spec run_pool)))"
    "list_ex (\<lambda>p. n_PortGroupName run_network = path_base p) (tp_Networks (p_Topology run_pool))"
    by code_simp+
  then show ?thesis by (auto simp: free_networks_def net_in_pool_def wait_world_def list_ex_iff)
qed

lemma wait_next: "next_up run_api (w_cache wait_world) (w_server wait_world) ''/l1'' wait_lease"
proof -
  let ?free = "free_networks (with_lease (w_cache wait_world) ''/l1'' wait_lease) run_pool NetworkTypeSingleTenant"
  have "finite ?free" by (rule finite_subset [of _ "{run_network}"]) (auto simp: free_networks_def net_in_pool_def wait_world_def)
  then have "0 < card (n_VlanId ` ?free)" using wait_network by (auto simp: card_gt_0_iff)
  then have vlans: "1 \<le> int (card (n_VlanId ` ?free))" by linarith
  have lease: "ls_Networks (l_Spec wait_lease) = 1" "ls_NetworkType (l_Spec wait_lease) = NetworkTypeSingleTenant" "simple_lease wait_lease"
    by code_simp+
  have "alone run_api (w_cache wait_world) (w_server wait_world) ''/l1'' wait_lease"
    by (auto simp: alone_def run_api_def store_api_def wait_world_def sibling_of_def wait_lease_def run_leases_def)
  moreover have "p_Kind run_pool = ''Pool''" by code_simp
  ultimately show ?thesis unfolding next_up_def using vlans lease wait_room by (simp add: wait_world_def)
qed

theorem waiting_lease_fulfilled_witness:
  "\<exists>w' l' nets. LeaseReconcile std_choices run_api False \<lparr>rq_Namespace = [], rq_Name = ''l1''\<rparr> wait_world = Some (Done, w') \<and>
     get_stored (w_server w') [] ''l1'' = Inr l' \<and>
     fulfilled_with (with_lease (w_cache wait_world) ''/l1'' wait_lease) wait_lease run_pool nets l'"
proof -
  have full: "full_inventory (w_cache wait_world)" and kinds: "kinds_ok (w_cache wait_world)"
    by (simp_all add: full_inventory_def inventory_ok_def cache_ok_def kinds_ok_def wait_world_def gomap_ok_def)
      (simp_all add: run_network_def mk_network_def set_network_finalizers_def zero_defs)
  have api: "accepts_writes run_api" "reads_ok run_api"
    using store_accepts server_okD(1) [OF run_api_ok] by (simp_all add: run_api_def)
  let ?req = "\<lparr>rq_Namespace = [], rq_Name = ''l1''\<rparr> :: request"
  have get: "api_get_lease run_api (rq_Namespace ?req) (rq_Name ?req) (w_server wait_world) = Inr wait_lease"
    and lease: "l_Phase wait_lease = [] \<or> l_Phase wait_lease = PHASE_PENDING" "l_DeletionTimestamp wait_lease = None"
    by code_simp+
  have key: "''/l1'' = object_key (rq_Namespace ?req) (rq_Name ?req)" by (simp add: object_key_def)
  from waiting_lease_fulfilled [OF std_choices_ok full kinds api get lease key wait_next, of False] obtain w' l' p nets where
    r: "LeaseReconcile std_choices run_api False ?req wait_world = Some (Done, w')"
      "api_get_lease run_api (rq_Namespace ?req) (rq_Name ?req) (w_server w') = Inr l'" "p \<in> snd ` set (ca_pools (w_cache wait_world))"
      "fulfilled_with (with_lease (w_cache wait_world) ''/l1'' wait_lease) wait_lease p nets l'"
    by (elim exE conjE)
  have "p = run_pool" "get_stored (w_server w') [] ''l1'' = Inr l'" using r(2,3) by (simp_all add: wait_world_def run_api_def)
  with r(1,4) show ?thesis by blast
qed

end
