(* ===== verification/FailedRelease.thy ===== *)
theory FailedRelease
  imports DemoRun
begin

text \<open>
  A run in which the server rejects one update: the assumption \<open>releases_succeed\<close> of the exclusivity of networks
  is needed. A lease that has become unsatisfiable gives up its network in the cache; the update that would
  give it up on the server fails, and the next lease is given the network.
\<close>

section \<open>A server that rejects releases\<close>

definition releases :: "Lease \<Rightarrow> Lease \<Rightarrow> bool" where
  "releases old x \<longleftrightarrow> list_ex (\<lambda>ref. or_Kind ref = ''Network'' \<and>
     \<not> list_ex (\<lambda>ref'. or_Kind ref' = ''Network'' \<and> or_Name ref' = or_Name ref) (l_OwnerReferences x)) (l_OwnerReferences old)"

definition reject_release :: "Lease \<Rightarrow> Lease gomap \<Rightarrow> (string + Lease) \<times> Lease gomap" where
  "reject_release x s =
     (case get_stored s (l_Namespace x) (l_Name x) of
        Inl e \<Rightarrow> (Inl (err_text e), s)
      | Inr old \<Rightarrow> if releases old x then (Inl ''conflict'', s) else write_stored update_meta x s)"

definition release_api :: "Lease gomap api" where
  "release_api = run_api\<lparr>api_update_lease := reject_release\<rparr>"

lemma release_api_simps [simp]:
  "api_get_lease release_api ns n s = get_stored s ns n" "api_update_lease release_api x s = reject_release x s"
  "api_status_lease release_api x s = write_stored (\<lambda>old x. old\<lparr>l_Status := l_Status x\<rparr>) x s"
  by (simp_all add: release_api_def run_api_def store_api_def)

lemma kept_release: "kept release_api K s s' = kept run_api K s s'"
  by (simp add: kept_def release_api_def)

lemma same_calls:
  "api_get_lease release_api = api_get_lease run_api" "api_status_lease release_api = api_status_lease run_api"
  "api_update_pool release_api = api_update_pool run_api" "api_status_pool release_api = api_status_pool run_api"
  "api_update_network release_api = api_update_network run_api" "api_delete_lease release_api = api_delete_lease run_api"
  "api_get_network release_api = api_get_network run_api" "api_get_pool release_api = api_get_pool run_api"
  by (simp_all add: release_api_def)

text \<open>It behaves as assumed of the API server in every other respect.\<close>

lemma release_api_otherwise_ok:
  "reads_ok release_api" "lease_writes_ok release_api" "status_writes_ok release_api" "other_writes_ok release_api"
  "kinds_served release_api"
proof -
  note run = server_okD [OF run_api_ok]
  show "reads_ok release_api" "status_writes_ok release_api" "other_writes_ok release_api" "kinds_served release_api"
    using run(1,3-5) unfolding reads_ok_def status_writes_ok_def other_writes_ok_def kinds_served_def stored_lease_def kept_release
      same_calls .
  show "lease_writes_ok release_api"
    unfolding lease_writes_ok_def kept_release
  proof (intro allI impI)
    fix x s r s' assume "api_update_lease release_api x s = (r, s')"
    then consider e where "r = Inl e" "s' = s" | "api_update_lease run_api x s = (r, s')"
      by (auto simp: reject_release_def run_api_def split: sum.splits if_splits)
    then show "kept run_api {lease_id x} s s' \<and>
      (\<forall>l. stored_lease release_api x s' = Inr l \<longrightarrow> (\<exists>l0. stored_lease release_api x s = Inr l0 \<and>
         (l_DeletionTimestamp l = None \<longrightarrow> l_DeletionTimestamp l0 = None) \<and> (same_owner x l \<or> same_owner l0 l))) \<and>
      (\<forall>a. r = Inr a \<longrightarrow> same_owner x a \<and>
         (stored_lease release_api x s' = Inr a \<or> l_DeletionTimestamp a \<noteq> None \<and> (\<forall>l. stored_lease release_api x s' \<noteq> Inr l)))"
    proof cases
      case 1
      then show ?thesis by simp
    next
      case 2
      have same: "stored_lease release_api x t = stored_lease run_api x t" for t by (simp add: stored_lease_def release_api_def)
      show ?thesis
        unfolding same by (rule run(2) [unfolded lease_writes_ok_def, THEN spec, THEN spec, THEN spec, THEN spec, THEN mp, OF 2])
    qed
  qed
qed

section \<open>The run\<close>

definition greedy_lease :: Lease where
  "greedy_lease = (mk_lease ''l1'' ''job-a'' [])\<lparr>l_Spec := (l_Spec (mk_lease ''l1'' ''job-a'' []))\<lparr>ls_Networks := 2\<rparr>\<rparr>"

definition release_leases :: "Lease gomap" where
  "release_leases = [(''/l1'', greedy_lease), (''/l2'', mk_lease ''l2'' ''job-b'' [])]"

text \<open>The user of the first lease asks for a pool that does not exist.\<close>

definition ask_for :: "string \<Rightarrow> Lease \<Rightarrow> Lease \<Rightarrow> Lease" where
  "ask_for pool old x = old\<lparr>l_Spec := (l_Spec old)\<lparr>ls_RequiredPool := pool\<rparr>\<rparr>"

definition edited :: "Lease gomap \<Rightarrow> Lease gomap" where
  "edited s = snd (write_stored (ask_for ''gone'') greedy_lease s)"

definition release_run :: "(reconcile_result list \<times> Lease gomap world) option" where
  "release_run =
     (let (r1, w1) = NetworkReconcile release_api \<lparr>rq_Namespace = [], rq_Name = ''n1''\<rparr> (set_server release_leases run_start) in
      do { (r2, w2) \<leftarrow> PoolReconcile std_choices release_api \<lparr>rq_Namespace = [], rq_Name = ''p1''\<rparr> w1;
           (r3, w3) \<leftarrow> LeaseReconcile std_choices release_api False \<lparr>rq_Namespace = [], rq_Name = ''l1''\<rparr> w2;
           (r4, w4) \<leftarrow> LeaseReconcile std_choices release_api False \<lparr>rq_Namespace = [], rq_Name = ''l1''\<rparr>
             (set_server (edited (w_server w3)) w3);
           (r5, w5) \<leftarrow> LeaseReconcile std_choices release_api False \<lparr>rq_Namespace = [], rq_Name = ''l2''\<rparr> w4;
           Some ([r1, r2, r3, r4, r5], w5) })"

definition owned_twice :: "string \<Rightarrow> Lease gomap \<Rightarrow> bool" where
  "owned_twice name s \<longleftrightarrow>
     (case (get_stored s [] ''l1'', get_stored s [] ''l2'') of
        (Inr a, Inr b) \<Rightarrow> l_DeletionTimestamp a = None \<and> l_DeletionTimestamp b = None \<and>
          list_ex (\<lambda>ref. or_Kind ref = ''Network'' \<and> or_Name ref = name) (l_OwnerReferences a) \<and>
          list_ex (\<lambda>ref. or_Kind ref = ''Network'' \<and> or_Name ref = name) (l_OwnerReferences b) \<and>
          gget (l_Labels a) BoskosIdLabel \<noteq> gget (l_Labels b) BoskosIdLabel
      | _ \<Rightarrow> False)"

lemma release_evaluates:
  "map_option (\<lambda>(rs, w). (rs, owned_twice ''n1'' (w_server w), owned_names (w_server w))) release_run =
   Some ([Done, Done, RequeueAfter 30, Failed ''error releasing owner refs for unschedulable lease: conflict'', Done], True,
     [(''/l1'', PHASE_PARTIAL, [''p1'', ''n1'']), (''/l2'', PHASE_FULFILLED, [''p1'', ''n1''])])"
  by code_simp

lemma edited_outside: "outside_ok release_api s (edited s)"
proof -
  have "same_owner old (ask_for ''gone'' old greedy_lease) \<and>
      (l_DeletionTimestamp (ask_for ''gone'' old greedy_lease) = None \<longrightarrow> l_DeletionTimestamp old = None)" for old
    by (simp add: ask_for_def same_owner_def refers_to_def [abs_def] job_of_def network_only_def)
  then have "kept run_api {} s (edited s)"
    unfolding run_api_def edited_def by (intro write_stored_kept_all [OF prod.collapse [symmetric]]) blast
  then show ?thesis unfolding kept_def outside_ok_def same_calls by blast
qed

lemma release_reachable:
  obtains w where "reachable release_api False w" "owned_twice ''n1'' (w_server w)"
    "owned_names (w_server w) = [(''/l1'', PHASE_PARTIAL, [''p1'', ''n1'']), (''/l2'', PHASE_FULFILLED, [''p1'', ''n1''])]"
proof -
  obtain r1 w1 where w1: "NetworkReconcile release_api \<lparr>rq_Namespace = [], rq_Name = ''n1''\<rparr> (set_server release_leases run_start) = (r1, w1)"
    by fastforce
  from release_evaluates obtain r2 w2 r3 w3 r4 w4 r5 w where
    w2: "PoolReconcile std_choices release_api \<lparr>rq_Namespace = [], rq_Name = ''p1''\<rparr> w1 = Some (r2, w2)" and
    w3: "LeaseReconcile std_choices release_api False \<lparr>rq_Namespace = [], rq_Name = ''l1''\<rparr> w2 = Some (r3, w3)" and
    w4: "LeaseReconcile std_choices release_api False \<lparr>rq_Namespace = [], rq_Name = ''l1''\<rparr>
      (set_server (edited (w_server w3)) w3) = Some (r4, w4)" and
    w5: "LeaseReconcile std_choices release_api False \<lparr>rq_Namespace = [], rq_Name = ''l2''\<rparr> w4 = Some (r5, w)" and
    res: "owned_twice ''n1'' (w_server w)" "owned_names (w_server w) = [(''/l1'', PHASE_PARTIAL, [''p1'', ''n1'']), (''/l2'', PHASE_FULFILLED, [''p1'', ''n1''])]"
    unfolding release_run_def w1 by (auto simp del: append.simps split: Option.bind_splits)
  have "outside_ok release_api (w_server run_start) release_leases"
    by (auto simp: outside_ok_def get_stored_def refers_to_def release_leases_def greedy_lease_def mk_lease_def zero_defs split: if_splits)
  note created = ctrl_step.outside [where allow = False, OF this]
  note edit = ctrl_step.outside [where allow = False, OF edited_outside [of "w_server w3"]]
  have "reachable release_api False run_start" unfolding run_start_def by (rule reachable.start) (simp add: get_stored_def)
  from reachable.step [OF this created] have "reachable release_api False (set_server release_leases run_start)" .
  from reachable.step [OF this ctrl_step.network [OF w1]] have "reachable release_api False w1" .
  from reachable.step [OF this ctrl_step.pool [OF std_choices_ok w2]] have "reachable release_api False w2" .
  from reachable.step [OF this ctrl_step.lease [OF std_choices_ok w3]] have "reachable release_api False w3" .
  from reachable.step [OF this edit] have "reachable release_api False (set_server (edited (w_server w3)) w3)" .
  from reachable.step [OF this ctrl_step.lease [OF std_choices_ok w4]] have "reachable release_api False w4" .
  from reachable.step [OF this ctrl_step.lease [OF std_choices_ok w5]] have "reachable release_api False w" .
  with res show thesis by (rule that [rotated])
qed

section \<open>Property\<close>

lemma owned_twice_shared:
  assumes "owned_twice name s"
  shows "\<not> stored_exclusive release_api s"
proof
  assume ex: "stored_exclusive release_api s"
  from assms obtain a b where ab: "get_stored s [] ''l1'' = Inr a" "get_stored s [] ''l2'' = Inr b" "l_DeletionTimestamp a = None"
    "l_DeletionTimestamp b = None" "refers_to a name" "refers_to b name"
    "gget (l_Labels a) BoskosIdLabel \<noteq> gget (l_Labels b) BoskosIdLabel"
    by (auto simp: owned_twice_def refers_to_def list_ex_iff split: sum.splits)
  have "([], ''l1'') \<noteq> ([] :: string, ''l2'')" by simp
  with ex ab(1-6) have "same_job a b" unfolding stored_exclusive_def release_api_simps by blast
  with ab(7) show False by (simp add: same_job_def)
qed

text \<open>
  C40: A failed release gives a network to two jobs: on a server that behaves as assumed but rejects an update that takes a
  network from a lease, a run ends in a state where the stored leases of two different jobs own one network.
\<close>

theorem failed_release_shares_network:
  "\<exists>w. reachable release_api False w \<and>
     owned_names (w_server w) = [(''/l1'', PHASE_PARTIAL, [''p1'', ''n1'']), (''/l2'', PHASE_FULFILLED, [''p1'', ''n1''])] \<and>
     \<not> stored_exclusive release_api (w_server w)"
  using release_reachable owned_twice_shared by metis

end
