(* ===== verification/GoHeap.thy ===== *)
theory GoHeap
  imports GoPrelude
begin

text \<open>
  Values of Go with the sharing that the rest of the development abstracts from: pointers, slices and maps refer to cells
  of a heap, structs and basic values are stored in place. Copying is described by the operations
  that generated deep copies are made of. A cell of a pointer or an array holds values, a cell of a map its entries.
\<close>

section \<open>Values and types\<close>

datatype scalar = SString string | SInt int | SBool bool

datatype gval =
    Sc scalar
  | NilV
  | Ref nat  \<comment> \<open>pointer or map: the address of its cell\<close>
  | Slc nat nat nat  \<comment> \<open>slice: address of the array, offset, length\<close>
  | Struct "(string \<times> gval) list"

datatype cell = Elems "gval list" | Entries "scalar gomap"

type_synonym heap = "cell list"

datatype gotype = TScalar | TPtr gotype | TSlice gotype | TMap | TStruct "(string \<times> gotype) list"

definition deref :: "heap \<Rightarrow> gval \<Rightarrow> gval option" where
  "deref h v = (case v of Ref a \<Rightarrow> if a < length h then (case h ! a of Elems [x] \<Rightarrow> Some x | _ \<Rightarrow> None) else None | _ \<Rightarrow> None)"

definition slice_of :: "heap \<Rightarrow> gval \<Rightarrow> gval list option" where
  "slice_of h v =
     (case v of
        Slc a off len \<Rightarrow>
          if a < length h then
            (case h ! a of
               Elems xs \<Rightarrow> if off + len \<le> length xs then Some (take len (drop off xs)) else None
             | Entries m \<Rightarrow> None)
          else None
      | _ \<Rightarrow> None)"

definition map_at :: "heap \<Rightarrow> gval \<Rightarrow> scalar gomap option" where
  "map_at h v = (case v of Ref a \<Rightarrow> if a < length h then (case h ! a of Entries m \<Rightarrow> Some m | _ \<Rightarrow> None) else None | _ \<Rightarrow> None)"

fun address :: "gval \<Rightarrow> nat list" where
  "address (Ref a) = [a]"
| "address (Slc a off len) = [a]"
| "address v = []"

definition field :: "gval \<Rightarrow> string \<Rightarrow> gval" where
  "field v n = (case v of Struct vs \<Rightarrow> (case map_of vs n of Some x \<Rightarrow> x | None \<Rightarrow> NilV) | _ \<Rightarrow> NilV)"

definition field_names :: "gval \<Rightarrow> string list option" where
  "field_names v = (case v of Struct vs \<Rightarrow> Some (map fst vs) | _ \<Rightarrow> None)"

text \<open>A value of a type, and two values, each in its heap, with the same content (as \<open>reflect.DeepEqual\<close> compares them).\<close>

lemma size_field: "(n, T) \<in> set fs \<Longrightarrow> size T < Suc (size_list (size_prod (\<lambda>_. 0) size) fs)"
  by (induction fs) auto

function typed :: "gotype \<Rightarrow> heap \<Rightarrow> gval \<Rightarrow> bool" where
  "typed TScalar h v = (case v of Sc s \<Rightarrow> True | _ \<Rightarrow> False)"
| "typed (TPtr T) h v = (v = NilV \<or> (case deref h v of None \<Rightarrow> False | Some x \<Rightarrow> typed T h x))"
| "typed (TSlice T) h v = (v = NilV \<or> (case slice_of h v of None \<Rightarrow> False | Some xs \<Rightarrow> list_all (typed T h) xs))"
| "typed TMap h v = (v = NilV \<or> (case map_at h v of None \<Rightarrow> False | Some m \<Rightarrow> gomap_ok m))"
| "typed (TStruct fs) h v = (field_names v = Some (map fst fs) \<and> list_all (\<lambda>(n, T). typed T h (field v n)) fs)"
  by pat_completeness auto
termination by (relation "measure (\<lambda>(T, h, v). size T)") (auto dest: size_field)

function same :: "gotype \<Rightarrow> heap \<Rightarrow> gval \<Rightarrow> heap \<Rightarrow> gval \<Rightarrow> bool" where
  "same TScalar h v h' v' = (v = v')"
| "same (TPtr T) h v h' v' =
     (v = NilV \<and> v' = NilV \<or>
      (case (deref h v, deref h' v') of (Some x, Some x') \<Rightarrow> same T h x h' x' | _ \<Rightarrow> False))"
| "same (TSlice T) h v h' v' =
     (v = NilV \<and> v' = NilV \<or>
      (case (slice_of h v, slice_of h' v') of
         (Some xs, Some xs') \<Rightarrow> length xs = length xs' \<and> list_all (\<lambda>(x, x'). same T h x h' x') (zip xs xs')
       | _ \<Rightarrow> False))"
| "same TMap h v h' v' =
     (v = NilV \<and> v' = NilV \<or>
      (case (map_at h v, map_at h' v') of
         (Some m, Some m') \<Rightarrow> list_all (\<lambda>k. gget m k = gget m' k) (map fst m @ map fst m')
       | _ \<Rightarrow> False))"
| "same (TStruct fs) h v h' v' =
     (field_names v = field_names v' \<and> list_all (\<lambda>(n, T). same T h (field v n) h' (field v' n)) fs)"
  by pat_completeness auto
termination by (relation "measure (\<lambda>(T, h, v, h', v'). size T)") (auto dest: size_field)

text \<open>The addresses that a value refers to, directly or not.\<close>

function reach :: "gotype \<Rightarrow> heap \<Rightarrow> gval \<Rightarrow> nat list" where
  "reach TScalar h v = []"
| "reach (TPtr T) h v = address v @ (case deref h v of None \<Rightarrow> [] | Some x \<Rightarrow> reach T h x)"
| "reach (TSlice T) h v = address v @ (case slice_of h v of None \<Rightarrow> [] | Some xs \<Rightarrow> concat (map (reach T h) xs))"
| "reach TMap h v = address v"
| "reach (TStruct fs) h v = concat (map (\<lambda>(n, T). reach T h (field v n)) fs)"
  by pat_completeness auto
termination by (relation "measure (\<lambda>(T, h, v). size T)") (auto dest: size_field)

fun flat :: "gotype \<Rightarrow> bool" where
  "flat TScalar = True"
| "flat (TStruct fs) = list_all (\<lambda>T. flat T) (map snd fs)"
| "flat T = False"

section \<open>Copying\<close>

type_synonym copier = "heap \<Rightarrow> gval \<Rightarrow> gval \<times> heap"

text \<open>\<open>*out = *in\<close>, or \<open>out.f = in.f\<close>.\<close>

definition assign :: copier where
  "assign h v = (v, h)"

text \<open>A pointer that is not nil: a new variable, and a copy of what the old one holds.\<close>

definition copy_ptr :: "copier \<Rightarrow> copier" where
  "copy_ptr copy h v =
     (case deref h v of
        None \<Rightarrow> (v, h)
      | Some x \<Rightarrow> let (x', h') = copy h x in (Ref (length h'), h' @ [Elems [x']]))"

fun copy_list :: "copier \<Rightarrow> heap \<Rightarrow> gval list \<Rightarrow> gval list \<times> heap" where
  "copy_list copy h [] = ([], h)"
| "copy_list copy h (x # xs) =
     (let (x', h1) = copy h x; (xs', h2) = copy_list copy h1 xs in (x' # xs', h2))"

text \<open>
  A slice that is not nil: \<open>make\<close> with its length and a copy of every element. The array is put into the heap after
  what its elements refer to; nothing depends on the order of addresses.
\<close>

definition copy_slice :: "copier \<Rightarrow> copier" where
  "copy_slice copy h v =
     (case slice_of h v of
        None \<Rightarrow> (v, h)
      | Some xs \<Rightarrow> let (xs', h') = copy_list copy h xs in (Slc (length h') 0 (length xs), h' @ [Elems xs']))"

definition copy_map :: copier where
  "copy_map h v =
     (case map_at h v of
        None \<Rightarrow> (v, h)
      | Some m \<Rightarrow> (Ref (length h), h @ [Entries (foldl (\<lambda>out (k, x). gset k x out) [] m)]))"

definition set_field :: "string \<Rightarrow> gval \<Rightarrow> gval \<Rightarrow> gval" where
  "set_field n x v = (case v of Struct vs \<Rightarrow> Struct (map (\<lambda>(k, y). (k, if k = n then x else y)) vs) | _ \<Rightarrow> v)"

text \<open>A struct: \<open>*out = *in\<close>, then the copies of the listed fields in their order.\<close>

fun copy_fields :: "(string \<times> copier) list \<Rightarrow> heap \<Rightarrow> gval \<Rightarrow> gval \<Rightarrow> gval \<times> heap" where
  "copy_fields [] h inp out = (out, h)"
| "copy_fields ((n, copy) # rest) h inp out =
     (let (x, h') = copy h (field inp n) in copy_fields rest h' inp (set_field n x out))"

definition copy_struct :: "(string \<times> copier) list \<Rightarrow> copier" where
  "copy_struct fs h inp = copy_fields fs h inp inp"

section \<open>Growing heaps\<close>

lemma deref_ext: "deref h v = Some x \<Longrightarrow> deref (h @ e) v = Some x"
  by (auto simp: deref_def nth_append split: gval.splits if_splits)

lemma slice_of_ext: "slice_of h v = Some xs \<Longrightarrow> slice_of (h @ e) v = Some xs"
  by (auto simp: slice_of_def nth_append split: gval.splits if_splits)

lemma map_at_ext: "map_at h v = Some m \<Longrightarrow> map_at (h @ e) v = Some m"
  by (auto simp: map_at_def nth_append split: gval.splits if_splits)

lemma at_NilV [simp]: "deref h NilV = None" "slice_of h NilV = None" "map_at h NilV = None"
  by (simp_all add: deref_def slice_of_def map_at_def)

lemma typed_ext: "typed T h v \<Longrightarrow> typed T (h @ e) v"
proof (induction T h v rule: typed.induct)
  case (2 T h v)
  then show ?case by (auto simp: deref_ext split: option.splits)
next
  case (3 T h v)
  then show ?case by (auto simp: slice_of_ext list_all_iff split: option.splits)
next
  case (4 h v)
  then show ?case by (auto simp: map_at_ext split: option.splits)
next
  case (5 fs h v)
  then show ?case by (fastforce simp: list_all_iff)
qed simp

lemma reach_ext: "typed T h v \<Longrightarrow> reach T (h @ e) v = reach T h v"
proof (induction T h v rule: typed.induct)
  case (2 T h v)
  then show ?case by (auto simp: deref_ext split: option.splits)
next
  case (3 T h v)
  then show ?case by (auto simp: slice_of_ext list_all_iff split: option.splits intro!: arg_cong [where f = concat])
next
  case (5 fs h v)
  then show ?case by (fastforce simp: list_all_iff intro!: arg_cong [where f = concat])
qed simp_all

lemma same_ext:
  "typed T h v \<Longrightarrow> typed T h' v' \<Longrightarrow> same T (h @ e) v (h' @ e') v' = same T h v h' v'"
proof (induction T h v h' v' rule: same.induct)
  case (2 T h v h' v')
  then show ?case by (auto simp: deref_ext split: option.splits)
next
  case (3 T h v h' v')
  show ?case
  proof (cases "v = NilV \<or> v' = NilV")
    case True
    with 3 show ?thesis by (auto simp: slice_of_ext split: option.splits)
  next
    case False
    with 3 obtain xs xs' where xs: "slice_of h v = Some xs" "slice_of h' v' = Some xs'" "list_all (typed T h) xs" "list_all (typed T h') xs'"
      by (auto split: option.splits)
    have "same T (h @ e) x (h' @ e') x' = same T h x h' x'" if p: "(x, x') \<in> set (zip xs xs')" for x x'
      using 3(1) [OF refl xs(1,2) p refl] xs(3,4) set_zip_leftD [OF p] set_zip_rightD [OF p] by (simp add: list_all_iff)
    with xs False show ?thesis by (auto simp: slice_of_ext list_all_iff)
  qed
next
  case (4 h v h' v')
  then show ?case by (auto simp: map_at_ext split: option.splits)
next
  case (5 fs h v h' v')
  then show ?case by (fastforce simp: list_all_iff)
qed simp

lemma same_refl: "typed T h v \<Longrightarrow> same T h v h v"
proof (induction T h v rule: typed.induct)
  case (3 T h v)
  then show ?case by (auto simp: list_all_iff zip_same split: option.splits)
next
  case (5 fs h v)
  then show ?case by (auto simp: list_all_iff)
qed (auto simp: list_all_iff split: option.splits)

lemma flat_reach: "flat T \<Longrightarrow> reach T h v = []"
proof (induction T h v rule: reach.induct)
  case (5 fs h v)
  then show ?case by (auto simp: list_all_iff)
qed simp_all

section \<open>Deep copies\<close>

text \<open>
  The contract of a copy of values of a type: it only adds cells, the copy is a value of the type with the same content, and it
  refers to added cells only. So the two share nothing that could be changed.
\<close>

definition fresh_copy :: "gotype \<Rightarrow> heap \<Rightarrow> gval \<Rightarrow> gval \<Rightarrow> heap \<Rightarrow> bool" where
  "fresh_copy T h v v' h' \<longleftrightarrow>
     take (length h) h' = h \<and> typed T h' v' \<and> same T h v h' v' \<and> list_all (\<lambda>a. length h \<le> a) (reach T h' v')"

locale deep_copier =
  fixes copy :: copier and T :: gotype
  assumes copies: "typed T h v \<Longrightarrow> copy h v = (v', h') \<Longrightarrow> fresh_copy T h v v' h'"
begin

lemma extends:
  assumes "typed T h v" "copy h v = (v', h')"
  obtains e where "h' = h @ e"
  using copies [OF assms] append_take_drop_id [of "length h" h'] by (metis fresh_copy_def)

lemma pointer: "deep_copier (copy_ptr copy) (TPtr T)"
proof
  fix h v v' h' assume v: "typed (TPtr T) h v" and c: "copy_ptr copy h v = (v', h')"
  show "fresh_copy (TPtr T) h v v' h'"
  proof (cases "deref h v")
    case None
    with v c show ?thesis by (auto simp: copy_ptr_def fresh_copy_def)
  next
    case (Some x)
    obtain x' h1 where x': "copy h x = (x', h1)" by fastforce
    have x: "typed T h x" using v Some by auto
    obtain e where e: "h1 = h @ e" by (rule extends [OF x x'])
    note f = copies [OF x x', unfolded fresh_copy_def]
    have d: "deref (h1 @ [Elems [x']]) (Ref (length h1)) = Some x'" by (simp add: deref_def)
    have "v' = Ref (length h1)" "h' = h1 @ [Elems [x']]" using c Some x' by (simp_all add: copy_ptr_def)
    then show ?thesis
      using f x typed_ext [of T h1 x' "[Elems [x']]"] reach_ext [of T h1 x' "[Elems [x']]"]
        same_ext [of T h x h1 x' "[]" "[Elems [x']]"]
      by (simp add: fresh_copy_def e Some d [unfolded e, simplified])
  qed
qed

lemma list:
  "list_all (typed T h) xs \<Longrightarrow> copy_list copy h xs = (xs', h') \<Longrightarrow>
   (\<exists>e. h' = h @ e) \<and> length xs' = length xs \<and> list_all (typed T h') xs' \<and>
   (\<forall>(x, x') \<in> set (zip xs xs'). same T h x h' x') \<and> (\<forall>x' \<in> set xs'. \<forall>a \<in> set (reach T h' x'). length h \<le> a)"
proof (induction xs arbitrary: h xs' h')
  case (Cons x xs)
  obtain x1 h1 where x1: "copy h x = (x1, h1)" by fastforce
  obtain xs2 where xs2: "copy_list copy h1 xs = (xs2, h')" "xs' = x1 # xs2"
    using Cons.prems(2) x1 by (auto split: prod.splits)
  have x: "typed T h x" and xs: "list_all (typed T h) xs" using Cons.prems(1) by simp_all
  obtain e where e: "h1 = h @ e" by (rule extends [OF x x1])
  have "list_all (typed T h1) xs" using xs typed_ext by (auto simp: e list_all_iff)
  note IH = Cons.IH [OF this xs2(1)]
  then obtain e' where e': "h' = h1 @ e'" by blast
  note f = copies [OF x x1, unfolded fresh_copy_def]
  have "typed T h' x1" "reach T h' x1 = reach T h1 x1" "same T h x h' x1"
    using f x typed_ext [of T h1 x1 e'] reach_ext [of T h1 x1 e'] same_ext [of T h x h1 x1 "[]" e'] by (simp_all add: e')
  moreover have "same T h y h' y'" if p: "(y, y') \<in> set (zip xs xs2)" for y y'
  proof -
    have "same T h1 y h' y'" "typed T h' y'" "typed T h y"
      using IH xs p set_zip_leftD [OF p] set_zip_rightD [OF p] by (auto simp: list_all_iff)
    then show ?thesis using same_ext [of T h y h' y' e "[]"] by (simp add: e)
  qed
  moreover have "\<forall>x' \<in> set xs2. \<forall>a \<in> set (reach T h' x'). length h \<le> a"
    using IH by (auto simp: e intro: le_trans [of "length h" "length h + length e"])
  ultimately show ?case using IH f by (auto simp: xs2(2) e e' list_all_iff)
qed simp

lemma slice: "deep_copier (copy_slice copy) (TSlice T)"
proof
  fix h v v' h' assume v: "typed (TSlice T) h v" and c: "copy_slice copy h v = (v', h')"
  show "fresh_copy (TSlice T) h v v' h'"
  proof (cases "slice_of h v")
    case None
    with v c show ?thesis by (auto simp: copy_slice_def fresh_copy_def)
  next
    case (Some xs)
    obtain xs' h1 where xs': "copy_list copy h xs = (xs', h1)" by fastforce
    have xs: "list_all (typed T h) xs" using v Some by auto
    note L = list [OF xs xs']
    then obtain e where e: "h1 = h @ e" by blast
    have d: "slice_of (h1 @ [Elems xs']) (Slc (length h1) 0 (length xs)) = Some xs'" using L by (simp add: slice_of_def)
    have typed: "list_all (typed T (h1 @ [Elems xs'])) xs'" using L typed_ext by (auto simp: list_all_iff)
    have reach: "reach T (h1 @ [Elems xs']) x = reach T h1 x" if "x \<in> set xs'" for x
      using that L reach_ext by (auto simp: list_all_iff)
    have same: "same T h x (h1 @ [Elems xs']) x'" if p: "(x, x') \<in> set (zip xs xs')" for x x'
      using p L xs same_ext [of T h x h1 x' "[]" "[Elems xs']"] set_zip_leftD [OF p] set_zip_rightD [OF p]
      by (auto simp: list_all_iff)
    have "v' = Slc (length h1) 0 (length xs)" "h' = h1 @ [Elems xs']" using c Some xs' by (simp_all add: copy_slice_def)
    then show ?thesis
      using L typed reach same Some d by (auto simp: fresh_copy_def e list_all_iff)
  qed
qed

end

lemma assign_flat: "flat T \<Longrightarrow> deep_copier assign T"
  by unfold_locales (auto simp: assign_def fresh_copy_def same_refl flat_reach)

lemma gget_foldl_gset:
  "distinct (map fst m) \<Longrightarrow> gget (foldl (\<lambda>out (k, x). gset k x out) acc m) k = (case gget m k of None \<Rightarrow> gget acc k | Some x \<Rightarrow> Some x)"
  by (induction m arbitrary: acc) (force split: option.split dest: map_of_SomeD)+

lemma gomap_ok_foldl_gset: "gomap_ok acc \<Longrightarrow> gomap_ok (foldl (\<lambda>out (k, x). gset k x out) acc m)"
  by (induction m arbitrary: acc) auto

interpretation map_copier: deep_copier copy_map TMap
proof
  fix h v v' h' assume v: "typed TMap h v" and c: "copy_map h v = (v', h')"
  show "fresh_copy TMap h v v' h'"
  proof (cases "map_at h v")
    case None
    with v c show ?thesis by (auto simp: copy_map_def fresh_copy_def)
  next
    case (Some m)
    let ?m = "foldl (\<lambda>out (k, x). gset k x out) [] m"
    have ok: "gomap_ok m" using v Some by auto
    have "map_at (h @ [Entries ?m]) (Ref (length h)) = Some ?m" by (simp add: map_at_def)
    moreover have "v' = Ref (length h)" "h' = h @ [Entries ?m]" using c Some by (simp_all add: copy_map_def)
    ultimately show ?thesis
      using Some gget_foldl_gset [of m "[]"] gomap_ok_foldl_gset [of "[]" m] ok
      by (auto simp: fresh_copy_def list_all_iff gomap_ok_def split: option.split)
  qed
qed

subsection \<open>Structs\<close>

lemma field_set_field:
  assumes "field_names v = Some ns" "n \<in> set ns"
  shows "field (set_field n x v) m = (if m = n then x else field v m)"
proof -
  obtain vs where vs: "v = Struct vs" "ns = map fst vs" using assms(1) by (auto simp: field_names_def split: gval.splits)
  have "map_of (map (\<lambda>(k, y). (k, if k = n then x else y)) vs) m = (if m = n \<and> n \<in> fst ` set vs then Some x else map_of vs m)" for vs
  proof (induction vs)
    case (Cons kv vs)
    then show ?case by (cases kv; cases "m = n"; cases "fst kv = n") simp_all
  qed simp
  from this [of vs] show ?thesis using assms(2) by (simp add: field_def set_field_def vs)
qed

lemma field_names_set_field [simp]: "field_names (set_field n x v) = field_names v"
  by (auto simp: field_names_def set_field_def split: gval.split)

text \<open>A field that has been copied, or not yet.\<close>

definition field_done :: "bool \<Rightarrow> heap \<Rightarrow> gval \<Rightarrow> heap \<Rightarrow> gval \<Rightarrow> string \<Rightarrow> gotype \<Rightarrow> bool" where
  "field_done copied h inp h' out n T \<longleftrightarrow>
     (if copied then typed T h' (field out n) \<and> same T h (field inp n) h' (field out n) \<and>
        (\<forall>a \<in> set (reach T h' (field out n)). length h \<le> a)
      else field out n = field inp n)"

lemma field_done_ext:
  assumes "field_done c h inp h' out n T" "typed T h (field inp n)"
  shows "field_done c h inp (h' @ e) out n T"
  using assms typed_ext [of T h' "field out n" e] reach_ext [of T h' "field out n" e]
    same_ext [of T h "field inp n" h' "field out n" "[]" e]
  by (auto simp: field_done_def)

lemma copy_fields_done:
  assumes fs: "distinct (map fst fs)" and inp: "list_all (\<lambda>(n, T). typed T h (field inp n)) fs"
  shows "copy_fields cs h1 inp out = (out', h') \<Longrightarrow> h1 = h @ e \<Longrightarrow> distinct (map fst cs) \<Longrightarrow>
    list_all (\<lambda>(n, c). \<exists>T. (n, T) \<in> set fs \<and> deep_copier c T) cs \<Longrightarrow> field_names out = Some (map fst fs) \<Longrightarrow>
    set (map fst cs) \<inter> copied = {} \<Longrightarrow>
    \<forall>(n, T) \<in> set fs. field_done (n \<in> copied) h inp h1 out n T \<Longrightarrow>
    (\<exists>e'. h' = h @ e') \<and> field_names out' = Some (map fst fs) \<and>
    (\<forall>(n, T) \<in> set fs. field_done (n \<in> copied \<union> set (map fst cs)) h inp h' out' n T)"
proof (induction cs arbitrary: h1 out e copied)
  case (Cons nc cs)
  obtain n c where nc: "nc = (n, c)" by (cases nc)
  obtain x h2 where x: "c h1 (field inp n) = (x, h2)" by fastforce
  have rest: "copy_fields cs h2 inp (set_field n x out) = (out', h')" using Cons.prems(1) x nc by simp
  obtain T where T: "(n, T) \<in> set fs" and c: "deep_copier c T" using Cons.prems(4) nc by auto
  have only: "U = T" if "(n, U) \<in> set fs" for U
    using that T fs by (metis eq_key_imp_eq_value)
  have ty: "typed T h (field inp n)" using inp T by (auto simp: list_all_iff)
  have ty1: "typed T h1 (field inp n)" using typed_ext [OF ty] Cons.prems(2) by simp
  obtain e2 where e2: "h2 = h1 @ e2" by (rule deep_copier.extends [OF c ty1 x])
  note f = deep_copier.copies [OF c ty1 x, unfolded fresh_copy_def]
  have set: "field (set_field n x out) m = (if m = n then x else field out m)" for m
    using field_set_field [OF Cons.prems(5)] T by force
  have "field_done (m \<in> insert n copied) h inp h2 (set_field n x out) m U" if m: "(m, U) \<in> set fs" for m U
  proof (cases "m = n")
    case True
    then have U: "U = T" using only m by simp
    have "same T h (field inp n) h2 x" using f same_ext [OF ty, of h2 x e "[]"] Cons.prems(2) by simp
    then show ?thesis using f Cons.prems(2) by (auto simp: field_done_def set True U list_all_iff)
  next
    case False
    have "field_done (m \<in> copied) h inp h1 out m U" using Cons.prems(7) m by auto
    then have "field_done (m \<in> copied) h inp h2 out m U"
      using inp m unfolding e2 by (intro field_done_ext) (auto simp: list_all_iff)
    then show ?thesis using False by (simp add: field_done_def set)
  qed
  then have "\<forall>(m, U) \<in> set fs. field_done (m \<in> insert n copied) h inp h2 (set_field n x out) m U" by blast
  from Cons.IH [OF rest _ _ _ _ _ this, of "e @ e2"] Cons.prems show ?case
    by (simp add: nc e2 insert_commute)
qed auto

lemma struct:
  assumes "distinct (map fst fs)" "distinct (map fst cs)" "set (map fst cs) \<subseteq> set (map fst fs)"
    and "list_all (\<lambda>(n, T). case map_of cs n of None \<Rightarrow> flat T | Some c \<Rightarrow> deep_copier c T) fs"
  shows "deep_copier (copy_struct cs) (TStruct fs)"
proof
  fix h v v' h' assume v: "typed (TStruct fs) h v" and c: "copy_struct cs h v = (v', h')"
  have inp: "list_all (\<lambda>(n, T). typed T h (field v n)) fs" "field_names v = Some (map fst fs)" using v by simp_all
  have cs: "list_all (\<lambda>(n, c). \<exists>T. (n, T) \<in> set fs \<and> deep_copier c T) cs"
    unfolding list_all_iff
  proof (intro ballI, clarify)
    fix n c assume nc: "(n, c) \<in> set cs"
    then obtain T where T: "(n, T) \<in> set fs" using assms(3) by force
    have "map_of cs n = Some c" using assms(2) nc by simp
    with assms(4) T have "deep_copier c T" by (fastforce simp: list_all_iff)
    with T show "\<exists>T. (n, T) \<in> set fs \<and> deep_copier c T" by blast
  qed
  have "\<forall>(n, T) \<in> set fs. field_done (n \<in> {}) h v h v n T" by (simp add: field_done_def)
  from copy_fields_done [OF assms(1) inp(1) c [unfolded copy_struct_def] _ assms(2) cs inp(2) _ this, of "[]"]
  obtain e where e: "h' = h @ e" and names: "field_names v' = Some (map fst fs)"
    and fd: "\<forall>(n, T) \<in> set fs. field_done (n \<in> set (map fst cs)) h v h' v' n T" by auto
  have "typed T h' (field v' n) \<and> same T h (field v n) h' (field v' n) \<and> (\<forall>a \<in> set (reach T h' (field v' n)). length h \<le> a)"
    if n: "(n, T) \<in> set fs" for n T
  proof (cases "n \<in> set (map fst cs)")
    case True
    have "field_done (n \<in> set (map fst cs)) h v h' v' n T" using fd n by blast
    with True show ?thesis by (simp add: field_done_def)
  next
    case False
    then have "map_of cs n = None" by (simp add: map_of_eq_None_iff)
    then have "flat T" using assms(4) n by (auto simp: list_all_iff)
    moreover have "field_done (n \<in> set (map fst cs)) h v h' v' n T" using fd n by blast
    then have "field v' n = field v n" using False by (simp add: field_done_def)
    moreover have "typed T h (field v n)" using inp(1) n by (auto simp: list_all_iff)
    ultimately show ?thesis
      using typed_ext [of T h "field v n" e] same_ext [of T h "field v n" h "field v n" "[]" e] same_refl
      by (simp add: flat_reach e)
  qed
  then show "fresh_copy (TStruct fs) h v v' h'"
    unfolding fresh_copy_def by (auto simp: e names inp(2) list_all_iff)
qed

end
