(* ===== verification/DeepCopy.thy ===== *)
theory DeepCopy
  imports GoHeap
begin

text \<open>
  The generated \<^verbatim>\<open>zz_generated.deepcopy.go\<close> on values with pointers, and the types it is generated from: a deep copy has the
  content of the original and shares nothing with it. This is what the rest of the development relies on when it models
  a deep copy by the value itself. The copies of the embedded types of other modules (\<open>metav1\<close>, \<open>configv1\<close>) follow the vendored
  sources. A \<open>Time\<close> is copied by assignment, as its \<open>DeepCopyInto\<close> does.
\<close>

section \<open>Types of other modules\<close>

definition TypeMeta_type :: gotype where
  "TypeMeta_type = TStruct
     [(''Kind'', TScalar), (''APIVersion'', TScalar)]"

definition OwnerReference_type :: gotype where
  "OwnerReference_type = TStruct
     [(''APIVersion'', TScalar), (''Kind'', TScalar), (''Name'', TScalar), (''UID'', TScalar),
      (''Controller'', TPtr TScalar), (''BlockOwnerDeletion'', TPtr TScalar)]"

definition OwnerReference_DeepCopyInto :: copier where
  "OwnerReference_DeepCopyInto = copy_struct
     [(''Controller'', copy_ptr assign), (''BlockOwnerDeletion'', copy_ptr assign)]"

definition FieldsV1_type :: gotype where
  "FieldsV1_type = TStruct
     [(''Raw'', TSlice TScalar)]"

definition FieldsV1_DeepCopyInto :: copier where
  "FieldsV1_DeepCopyInto = copy_struct
     [(''Raw'', copy_slice assign)]"

definition ManagedFieldsEntry_type :: gotype where
  "ManagedFieldsEntry_type = TStruct
     [(''Manager'', TScalar), (''Operation'', TScalar), (''APIVersion'', TScalar), (''Time'', TPtr TScalar),
      (''FieldsType'', TScalar), (''FieldsV1'', TPtr FieldsV1_type), (''Subresource'', TScalar)]"

definition ManagedFieldsEntry_DeepCopyInto :: copier where
  "ManagedFieldsEntry_DeepCopyInto = copy_struct
     [(''Time'', copy_ptr assign), (''FieldsV1'', copy_ptr FieldsV1_DeepCopyInto)]"

definition ObjectMeta_type :: gotype where
  "ObjectMeta_type = TStruct
     [(''Name'', TScalar), (''GenerateName'', TScalar), (''Namespace'', TScalar), (''SelfLink'', TScalar),
      (''UID'', TScalar), (''ResourceVersion'', TScalar), (''Generation'', TScalar),
      (''CreationTimestamp'', TScalar), (''DeletionTimestamp'', TPtr TScalar),
      (''DeletionGracePeriodSeconds'', TPtr TScalar), (''Labels'', TMap), (''Annotations'', TMap),
      (''OwnerReferences'', TSlice OwnerReference_type), (''Finalizers'', TSlice TScalar),
      (''ManagedFields'', TSlice ManagedFieldsEntry_type)]"

definition ObjectMeta_DeepCopyInto :: copier where
  "ObjectMeta_DeepCopyInto = copy_struct
     [(''CreationTimestamp'', assign), (''DeletionTimestamp'', copy_ptr assign),
      (''DeletionGracePeriodSeconds'', copy_ptr assign), (''Labels'', copy_map), (''Annotations'', copy_map),
      (''OwnerReferences'', copy_slice OwnerReference_DeepCopyInto), (''Finalizers'', copy_slice assign),
      (''ManagedFields'', copy_slice ManagedFieldsEntry_DeepCopyInto)]"

definition ListMeta_type :: gotype where
  "ListMeta_type = TStruct
     [(''SelfLink'', TScalar), (''ResourceVersion'', TScalar), (''Continue'', TScalar),
      (''RemainingItemCount'', TPtr TScalar)]"

definition ListMeta_DeepCopyInto :: copier where
  "ListMeta_DeepCopyInto = copy_struct
     [(''RemainingItemCount'', copy_ptr assign)]"

definition VSpherePlatformTopology_type :: gotype where
  "VSpherePlatformTopology_type = TStruct
     [(''Datacenter'', TScalar), (''ComputeCluster'', TScalar), (''Networks'', TSlice TScalar),
      (''Datastore'', TScalar), (''ResourcePool'', TScalar), (''Folder'', TScalar), (''Template'', TScalar)]"

definition VSpherePlatformTopology_DeepCopyInto :: copier where
  "VSpherePlatformTopology_DeepCopyInto = copy_struct
     [(''Networks'', copy_slice assign)]"

definition VSpherePlatformFailureDomainSpec_type :: gotype where
  "VSpherePlatformFailureDomainSpec_type = TStruct
     [(''Name'', TScalar), (''Region'', TScalar), (''Zone'', TScalar), (''Server'', TScalar),
      (''Topology'', VSpherePlatformTopology_type)]"

definition VSpherePlatformFailureDomainSpec_DeepCopyInto :: copier where
  "VSpherePlatformFailureDomainSpec_DeepCopyInto = copy_struct
     [(''Topology'', VSpherePlatformTopology_DeepCopyInto)]"

section \<open>Types of the API group\<close>

text \<open>A \<open>DeepCopyInto\<close> reads \<open>in\<close> and gives \<open>out\<close>; a \<open>DeepCopy\<close> takes the pointer to the receiver, or the slice.\<close>

definition Condition_type :: gotype where
  "Condition_type = TStruct
     [(''Type'', TScalar), (''Status'', TScalar), (''Severity'', TScalar), (''LastTransitionTime'', TScalar),
      (''Reason'', TScalar), (''Message'', TScalar)]"

definition Condition_DeepCopyInto :: copier where
  "Condition_DeepCopyInto = copy_struct
     [(''LastTransitionTime'', assign)]"

definition Condition_DeepCopy :: copier where
  "Condition_DeepCopy = copy_ptr Condition_DeepCopyInto"

definition FailureDomainSpec_type :: gotype where
  "FailureDomainSpec_type = TStruct
     [(''VSpherePlatformFailureDomainSpec'', VSpherePlatformFailureDomainSpec_type), (''ShortName'', TScalar)]"

definition FailureDomainSpec_DeepCopyInto :: copier where
  "FailureDomainSpec_DeepCopyInto = copy_struct
     [(''VSpherePlatformFailureDomainSpec'', VSpherePlatformFailureDomainSpec_DeepCopyInto)]"

definition FailureDomainSpec_DeepCopy :: copier where
  "FailureDomainSpec_DeepCopy = copy_ptr FailureDomainSpec_DeepCopyInto"

definition IBMPoolSpec_type :: gotype where
  "IBMPoolSpec_type = TStruct
     [(''Pod'', TScalar), (''Datacenter'', TScalar)]"

definition IBMPoolSpec_DeepCopyInto :: copier where
  "IBMPoolSpec_DeepCopyInto = copy_struct []"

definition IBMPoolSpec_DeepCopy :: copier where
  "IBMPoolSpec_DeepCopy = copy_ptr IBMPoolSpec_DeepCopyInto"

definition Taint_type :: gotype where
  "Taint_type = TStruct
     [(''Key'', TScalar), (''Value'', TScalar), (''Effect'', TScalar)]"

definition Taint_DeepCopyInto :: copier where
  "Taint_DeepCopyInto = copy_struct []"

definition Taint_DeepCopy :: copier where
  "Taint_DeepCopy = copy_ptr Taint_DeepCopyInto"

definition Toleration_type :: gotype where
  "Toleration_type = TStruct
     [(''Key'', TScalar), (''Operator'', TScalar), (''Value'', TScalar), (''Effect'', TScalar)]"

definition Toleration_DeepCopyInto :: copier where
  "Toleration_DeepCopyInto = copy_struct []"

definition Toleration_DeepCopy :: copier where
  "Toleration_DeepCopy = copy_ptr Toleration_DeepCopyInto"

definition LeaseSpec_type :: gotype where
  "LeaseSpec_type = TStruct
     [(''VCpus'', TScalar), (''Memory'', TScalar), (''Pools'', TScalar), (''VCenters'', TScalar),
      (''MinVCenters'', TScalar), (''Storage'', TScalar), (''Networks'', TScalar), (''RequiredPool'', TScalar),
      (''PoolSelector'', TMap), (''Tolerations'', TSlice Toleration_type), (''NetworkType'', TScalar),
      (''BoskosLeaseID'', TScalar)]"

definition LeaseSpec_DeepCopyInto :: copier where
  "LeaseSpec_DeepCopyInto = copy_struct
     [(''PoolSelector'', copy_map), (''Tolerations'', copy_slice assign)]"

definition LeaseSpec_DeepCopy :: copier where
  "LeaseSpec_DeepCopy = copy_ptr LeaseSpec_DeepCopyInto"

definition LeaseStatus_type :: gotype where
  "LeaseStatus_type = TStruct
     [(''FailureDomainSpec'', FailureDomainSpec_type), (''PoolInfo'', TSlice FailureDomainSpec_type),
      (''EnvVars'', TScalar), (''EnvVarsMap'', TMap), (''Phase'', TScalar),
      (''Conditions'', TSlice Condition_type), (''JobLink'', TScalar)]"

definition LeaseStatus_DeepCopyInto :: copier where
  "LeaseStatus_DeepCopyInto = copy_struct
     [(''FailureDomainSpec'', FailureDomainSpec_DeepCopyInto),
      (''PoolInfo'', copy_slice FailureDomainSpec_DeepCopyInto), (''EnvVarsMap'', copy_map),
      (''Conditions'', copy_slice Condition_DeepCopyInto)]"

definition LeaseStatus_DeepCopy :: copier where
  "LeaseStatus_DeepCopy = copy_ptr LeaseStatus_DeepCopyInto"

definition Lease_type :: gotype where
  "Lease_type = TStruct
     [(''TypeMeta'', TypeMeta_type), (''ObjectMeta'', ObjectMeta_type), (''Spec'', LeaseSpec_type),
      (''Status'', LeaseStatus_type)]"

definition Lease_DeepCopyInto :: copier where
  "Lease_DeepCopyInto = copy_struct
     [(''TypeMeta'', assign), (''ObjectMeta'', ObjectMeta_DeepCopyInto), (''Spec'', LeaseSpec_DeepCopyInto),
      (''Status'', LeaseStatus_DeepCopyInto)]"

definition Lease_DeepCopy :: copier where
  "Lease_DeepCopy = copy_ptr Lease_DeepCopyInto"

definition Lease_DeepCopyObject :: copier where
  "Lease_DeepCopyObject h inp = (case Lease_DeepCopy h inp of (c, h') \<Rightarrow> if c \<noteq> NilV then (c, h') else (NilV, h'))"

definition Leases_DeepCopyInto :: copier where
  "Leases_DeepCopyInto h inp =
     (if inp = NilV then (Slc (length h) 0 0, h @ [Elems []]) else copy_slice (copy_ptr Lease_DeepCopyInto) h inp)"

definition Leases_DeepCopy :: copier where
  "Leases_DeepCopy h inp = (if inp = NilV then (NilV, h) else Leases_DeepCopyInto h inp)"

definition LeaseList_type :: gotype where
  "LeaseList_type = TStruct
     [(''TypeMeta'', TypeMeta_type), (''ListMeta'', ListMeta_type), (''Items'', TSlice Lease_type)]"

definition LeaseList_DeepCopyInto :: copier where
  "LeaseList_DeepCopyInto = copy_struct
     [(''TypeMeta'', assign), (''ListMeta'', ListMeta_DeepCopyInto), (''Items'', copy_slice Lease_DeepCopyInto)]"

definition LeaseList_DeepCopy :: copier where
  "LeaseList_DeepCopy = copy_ptr LeaseList_DeepCopyInto"

definition LeaseList_DeepCopyObject :: copier where
  "LeaseList_DeepCopyObject h inp = (case LeaseList_DeepCopy h inp of (c, h') \<Rightarrow> if c \<noteq> NilV then (c, h') else (NilV, h'))"

definition NetworkSpec_type :: gotype where
  "NetworkSpec_type = TStruct
     [(''PortGroupName'', TScalar), (''VlanId'', TScalar), (''PodName'', TPtr TScalar),
      (''DatacenterName'', TPtr TScalar), (''Cidr'', TPtr TScalar), (''Gateway'', TPtr TScalar),
      (''IpAddressCount'', TPtr TScalar), (''Netmask'', TPtr TScalar), (''SubnetType'', TPtr TScalar),
      (''MachineNetworkCidr'', TScalar), (''IpAddresses'', TSlice TScalar), (''CidrIPv6'', TScalar),
      (''GatewayIPv6'', TScalar), (''IpV6prefix'', TScalar), (''StartIPv6Address'', TScalar),
      (''PrimaryRouterHostname'', TScalar), (''Nameservers'', TSlice TScalar)]"

definition NetworkSpec_DeepCopyInto :: copier where
  "NetworkSpec_DeepCopyInto = copy_struct
     [(''PodName'', copy_ptr assign), (''DatacenterName'', copy_ptr assign), (''Cidr'', copy_ptr assign),
      (''Gateway'', copy_ptr assign), (''IpAddressCount'', copy_ptr assign), (''Netmask'', copy_ptr assign),
      (''SubnetType'', copy_ptr assign), (''IpAddresses'', copy_slice assign), (''Nameservers'', copy_slice assign)]"

definition NetworkSpec_DeepCopy :: copier where
  "NetworkSpec_DeepCopy = copy_ptr NetworkSpec_DeepCopyInto"

definition NetworkStatus_type :: gotype where
  "NetworkStatus_type = TStruct []"

definition NetworkStatus_DeepCopyInto :: copier where
  "NetworkStatus_DeepCopyInto = copy_struct []"

definition NetworkStatus_DeepCopy :: copier where
  "NetworkStatus_DeepCopy = copy_ptr NetworkStatus_DeepCopyInto"

definition Network_type :: gotype where
  "Network_type = TStruct
     [(''TypeMeta'', TypeMeta_type), (''ObjectMeta'', ObjectMeta_type), (''Spec'', NetworkSpec_type),
      (''Status'', NetworkStatus_type)]"

definition Network_DeepCopyInto :: copier where
  "Network_DeepCopyInto = copy_struct
     [(''TypeMeta'', assign), (''ObjectMeta'', ObjectMeta_DeepCopyInto), (''Spec'', NetworkSpec_DeepCopyInto),
      (''Status'', assign)]"

definition Network_DeepCopy :: copier where
  "Network_DeepCopy = copy_ptr Network_DeepCopyInto"

definition Network_DeepCopyObject :: copier where
  "Network_DeepCopyObject h inp = (case Network_DeepCopy h inp of (c, h') \<Rightarrow> if c \<noteq> NilV then (c, h') else (NilV, h'))"

definition Networks_DeepCopyInto :: copier where
  "Networks_DeepCopyInto h inp =
     (if inp = NilV then (Slc (length h) 0 0, h @ [Elems []]) else copy_slice (copy_ptr Network_DeepCopyInto) h inp)"

definition Networks_DeepCopy :: copier where
  "Networks_DeepCopy h inp = (if inp = NilV then (NilV, h) else Networks_DeepCopyInto h inp)"

definition NetworkList_type :: gotype where
  "NetworkList_type = TStruct
     [(''TypeMeta'', TypeMeta_type), (''ListMeta'', ListMeta_type), (''Items'', TSlice Network_type)]"

definition NetworkList_DeepCopyInto :: copier where
  "NetworkList_DeepCopyInto = copy_struct
     [(''TypeMeta'', assign), (''ListMeta'', ListMeta_DeepCopyInto), (''Items'', copy_slice Network_DeepCopyInto)]"

definition NetworkList_DeepCopy :: copier where
  "NetworkList_DeepCopy = copy_ptr NetworkList_DeepCopyInto"

definition NetworkList_DeepCopyObject :: copier where
  "NetworkList_DeepCopyObject h inp = (case NetworkList_DeepCopy h inp of (c, h') \<Rightarrow> if c \<noteq> NilV then (c, h') else (NilV, h'))"

definition PoolSpec_type :: gotype where
  "PoolSpec_type = TStruct
     [(''FailureDomainSpec'', FailureDomainSpec_type), (''IBMPoolSpec'', IBMPoolSpec_type), (''VCpus'', TScalar),
      (''OverCommitRatio'', TScalar), (''Memory'', TScalar), (''Storage'', TScalar), (''Exclude'', TScalar),
      (''NoSchedule'', TScalar), (''Taints'', TSlice Taint_type)]"

definition PoolSpec_DeepCopyInto :: copier where
  "PoolSpec_DeepCopyInto = copy_struct
     [(''FailureDomainSpec'', FailureDomainSpec_DeepCopyInto), (''IBMPoolSpec'', assign),
      (''Taints'', copy_slice assign)]"

definition PoolSpec_DeepCopy :: copier where
  "PoolSpec_DeepCopy = copy_ptr PoolSpec_DeepCopyInto"

definition PoolStatus_type :: gotype where
  "PoolStatus_type = TStruct
     [(''VCpusAvailable'', TScalar), (''MemoryAvailable'', TScalar), (''DatastoreAvailable'', TScalar),
      (''NetworkAvailable'', TScalar), (''SingleTenantNetworksTotal'', TScalar),
      (''SingleTenantNetworksAvailable'', TScalar), (''MultiTenantNetworksTotal'', TScalar),
      (''MultiTenantNetworksAvailable'', TScalar), (''LeaseCount'', TScalar), (''Initialized'', TScalar)]"

definition PoolStatus_DeepCopyInto :: copier where
  "PoolStatus_DeepCopyInto = copy_struct []"

definition PoolStatus_DeepCopy :: copier where
  "PoolStatus_DeepCopy = copy_ptr PoolStatus_DeepCopyInto"

definition Pool_type :: gotype where
  "Pool_type = TStruct
     [(''TypeMeta'', TypeMeta_type), (''ObjectMeta'', ObjectMeta_type), (''Spec'', PoolSpec_type),
      (''Status'', PoolStatus_type)]"

definition Pool_DeepCopyInto :: copier where
  "Pool_DeepCopyInto = copy_struct
     [(''TypeMeta'', assign), (''ObjectMeta'', ObjectMeta_DeepCopyInto), (''Spec'', PoolSpec_DeepCopyInto),
      (''Status'', assign)]"

definition Pool_DeepCopy :: copier where
  "Pool_DeepCopy = copy_ptr Pool_DeepCopyInto"

definition Pool_DeepCopyObject :: copier where
  "Pool_DeepCopyObject h inp = (case Pool_DeepCopy h inp of (c, h') \<Rightarrow> if c \<noteq> NilV then (c, h') else (NilV, h'))"

definition Pools_DeepCopyInto :: copier where
  "Pools_DeepCopyInto h inp =
     (if inp = NilV then (Slc (length h) 0 0, h @ [Elems []]) else copy_slice (copy_ptr Pool_DeepCopyInto) h inp)"

definition Pools_DeepCopy :: copier where
  "Pools_DeepCopy h inp = (if inp = NilV then (NilV, h) else Pools_DeepCopyInto h inp)"

definition PoolList_type :: gotype where
  "PoolList_type = TStruct
     [(''TypeMeta'', TypeMeta_type), (''ListMeta'', ListMeta_type), (''Items'', TSlice Pool_type)]"

definition PoolList_DeepCopyInto :: copier where
  "PoolList_DeepCopyInto = copy_struct
     [(''TypeMeta'', assign), (''ListMeta'', ListMeta_DeepCopyInto), (''Items'', copy_slice Pool_DeepCopyInto)]"

definition PoolList_DeepCopy :: copier where
  "PoolList_DeepCopy = copy_ptr PoolList_DeepCopyInto"

definition PoolList_DeepCopyObject :: copier where
  "PoolList_DeepCopyObject h inp = (case PoolList_DeepCopy h inp of (c, h') \<Rightarrow> if c \<noteq> NilV then (c, h') else (NilV, h'))"

section \<open>Correctness\<close>

named_theorems copiers \<open>copiers of types\<close>

lemma scalar_copiers [copiers]:
  "deep_copier (copy_ptr assign) (TPtr TScalar)" "deep_copier (copy_slice assign) (TSlice TScalar)" "deep_copier assign TScalar"
  by (simp_all add: assign_flat deep_copier.pointer deep_copier.slice)

lemma flat_struct_copiers [copiers]:
  "deep_copier assign TypeMeta_type" "deep_copier assign NetworkStatus_type" "deep_copier assign PoolStatus_type"
  "deep_copier assign IBMPoolSpec_type" "deep_copier assign Toleration_type" "deep_copier assign Taint_type"
  by (rule assign_flat, simp add: TypeMeta_type_def NetworkStatus_type_def PoolStatus_type_def IBMPoolSpec_type_def
      Toleration_type_def Taint_type_def)+

declare map_copier.deep_copier_axioms [copiers]

lemma nested_copiers:
  "deep_copier c T \<Longrightarrow> deep_copier (copy_ptr c) (TPtr T)" "deep_copier c T \<Longrightarrow> deep_copier (copy_slice c) (TSlice T)"
  by (simp_all add: deep_copier.pointer deep_copier.slice)

interpretation ownerreference_copier: deep_copier OwnerReference_DeepCopyInto OwnerReference_type
  unfolding OwnerReference_DeepCopyInto_def OwnerReference_type_def by (rule struct) (simp_all add: copiers nested_copiers)

declare ownerreference_copier.deep_copier_axioms [copiers]

interpretation fieldsv1_copier: deep_copier FieldsV1_DeepCopyInto FieldsV1_type
  unfolding FieldsV1_DeepCopyInto_def FieldsV1_type_def by (rule struct) (simp_all add: copiers nested_copiers)

declare fieldsv1_copier.deep_copier_axioms [copiers]

interpretation managedfieldsentry_copier: deep_copier ManagedFieldsEntry_DeepCopyInto ManagedFieldsEntry_type
  unfolding ManagedFieldsEntry_DeepCopyInto_def ManagedFieldsEntry_type_def by (rule struct) (simp_all add: copiers nested_copiers)

declare managedfieldsentry_copier.deep_copier_axioms [copiers]

interpretation objectmeta_copier: deep_copier ObjectMeta_DeepCopyInto ObjectMeta_type
  unfolding ObjectMeta_DeepCopyInto_def ObjectMeta_type_def by (rule struct) (simp_all add: copiers nested_copiers)

declare objectmeta_copier.deep_copier_axioms [copiers]

interpretation listmeta_copier: deep_copier ListMeta_DeepCopyInto ListMeta_type
  unfolding ListMeta_DeepCopyInto_def ListMeta_type_def by (rule struct) (simp_all add: copiers nested_copiers)

declare listmeta_copier.deep_copier_axioms [copiers]

interpretation vsphereplatformtopology_copier: deep_copier VSpherePlatformTopology_DeepCopyInto VSpherePlatformTopology_type
  unfolding VSpherePlatformTopology_DeepCopyInto_def VSpherePlatformTopology_type_def by (rule struct) (simp_all add: copiers nested_copiers)

declare vsphereplatformtopology_copier.deep_copier_axioms [copiers]

interpretation vsphereplatformfailuredomainspec_copier: deep_copier VSpherePlatformFailureDomainSpec_DeepCopyInto VSpherePlatformFailureDomainSpec_type
  unfolding VSpherePlatformFailureDomainSpec_DeepCopyInto_def VSpherePlatformFailureDomainSpec_type_def by (rule struct) (simp_all add: copiers nested_copiers)

declare vsphereplatformfailuredomainspec_copier.deep_copier_axioms [copiers]

interpretation condition_copier: deep_copier Condition_DeepCopyInto Condition_type
  unfolding Condition_DeepCopyInto_def Condition_type_def by (rule struct) (simp_all add: copiers nested_copiers)

declare condition_copier.deep_copier_axioms [copiers]

interpretation failuredomainspec_copier: deep_copier FailureDomainSpec_DeepCopyInto FailureDomainSpec_type
  unfolding FailureDomainSpec_DeepCopyInto_def FailureDomainSpec_type_def by (rule struct) (simp_all add: copiers nested_copiers)

declare failuredomainspec_copier.deep_copier_axioms [copiers]

interpretation ibmpoolspec_copier: deep_copier IBMPoolSpec_DeepCopyInto IBMPoolSpec_type
  unfolding IBMPoolSpec_DeepCopyInto_def IBMPoolSpec_type_def by (rule struct) (simp_all add: copiers nested_copiers)

declare ibmpoolspec_copier.deep_copier_axioms [copiers]

interpretation taint_copier: deep_copier Taint_DeepCopyInto Taint_type
  unfolding Taint_DeepCopyInto_def Taint_type_def by (rule struct) (simp_all add: copiers nested_copiers)

declare taint_copier.deep_copier_axioms [copiers]

interpretation toleration_copier: deep_copier Toleration_DeepCopyInto Toleration_type
  unfolding Toleration_DeepCopyInto_def Toleration_type_def by (rule struct) (simp_all add: copiers nested_copiers)

declare toleration_copier.deep_copier_axioms [copiers]

interpretation leasespec_copier: deep_copier LeaseSpec_DeepCopyInto LeaseSpec_type
  unfolding LeaseSpec_DeepCopyInto_def LeaseSpec_type_def by (rule struct) (simp_all add: copiers nested_copiers)

declare leasespec_copier.deep_copier_axioms [copiers]

interpretation leasestatus_copier: deep_copier LeaseStatus_DeepCopyInto LeaseStatus_type
  unfolding LeaseStatus_DeepCopyInto_def LeaseStatus_type_def by (rule struct) (simp_all add: copiers nested_copiers)

declare leasestatus_copier.deep_copier_axioms [copiers]

interpretation lease_copier: deep_copier Lease_DeepCopyInto Lease_type
  unfolding Lease_DeepCopyInto_def Lease_type_def by (rule struct) (simp_all add: copiers nested_copiers)

declare lease_copier.deep_copier_axioms [copiers]

interpretation leaselist_copier: deep_copier LeaseList_DeepCopyInto LeaseList_type
  unfolding LeaseList_DeepCopyInto_def LeaseList_type_def by (rule struct) (simp_all add: copiers nested_copiers)

declare leaselist_copier.deep_copier_axioms [copiers]

interpretation networkspec_copier: deep_copier NetworkSpec_DeepCopyInto NetworkSpec_type
  unfolding NetworkSpec_DeepCopyInto_def NetworkSpec_type_def by (rule struct) (simp_all add: copiers nested_copiers)

declare networkspec_copier.deep_copier_axioms [copiers]

interpretation networkstatus_copier: deep_copier NetworkStatus_DeepCopyInto NetworkStatus_type
  unfolding NetworkStatus_DeepCopyInto_def NetworkStatus_type_def by (rule struct) (simp_all add: copiers nested_copiers)

declare networkstatus_copier.deep_copier_axioms [copiers]

interpretation network_copier: deep_copier Network_DeepCopyInto Network_type
  unfolding Network_DeepCopyInto_def Network_type_def by (rule struct) (simp_all add: copiers nested_copiers)

declare network_copier.deep_copier_axioms [copiers]

interpretation networklist_copier: deep_copier NetworkList_DeepCopyInto NetworkList_type
  unfolding NetworkList_DeepCopyInto_def NetworkList_type_def by (rule struct) (simp_all add: copiers nested_copiers)

declare networklist_copier.deep_copier_axioms [copiers]

interpretation poolspec_copier: deep_copier PoolSpec_DeepCopyInto PoolSpec_type
  unfolding PoolSpec_DeepCopyInto_def PoolSpec_type_def by (rule struct) (simp_all add: copiers nested_copiers)

declare poolspec_copier.deep_copier_axioms [copiers]

interpretation poolstatus_copier: deep_copier PoolStatus_DeepCopyInto PoolStatus_type
  unfolding PoolStatus_DeepCopyInto_def PoolStatus_type_def by (rule struct) (simp_all add: copiers nested_copiers)

declare poolstatus_copier.deep_copier_axioms [copiers]

interpretation pool_copier: deep_copier Pool_DeepCopyInto Pool_type
  unfolding Pool_DeepCopyInto_def Pool_type_def by (rule struct) (simp_all add: copiers nested_copiers)

declare pool_copier.deep_copier_axioms [copiers]

interpretation poollist_copier: deep_copier PoolList_DeepCopyInto PoolList_type
  unfolding PoolList_DeepCopyInto_def PoolList_type_def by (rule struct) (simp_all add: copiers nested_copiers)

declare poollist_copier.deep_copier_axioms [copiers]

text \<open>Every method of the file that returns a copy, with the type of its receiver.\<close>

definition deep_copies :: "(string \<times> gotype \<times> copier) list" where
  "deep_copies =
     [(''Condition.DeepCopy'', TPtr Condition_type, Condition_DeepCopy),
      (''FailureDomainSpec.DeepCopy'', TPtr FailureDomainSpec_type, FailureDomainSpec_DeepCopy),
      (''IBMPoolSpec.DeepCopy'', TPtr IBMPoolSpec_type, IBMPoolSpec_DeepCopy),
      (''Taint.DeepCopy'', TPtr Taint_type, Taint_DeepCopy),
      (''Toleration.DeepCopy'', TPtr Toleration_type, Toleration_DeepCopy),
      (''LeaseSpec.DeepCopy'', TPtr LeaseSpec_type, LeaseSpec_DeepCopy),
      (''LeaseStatus.DeepCopy'', TPtr LeaseStatus_type, LeaseStatus_DeepCopy),
      (''Lease.DeepCopy'', TPtr Lease_type, Lease_DeepCopy),
      (''Lease.DeepCopyObject'', TPtr Lease_type, Lease_DeepCopyObject),
      (''Leases.DeepCopy'', TSlice (TPtr Lease_type), Leases_DeepCopy),
      (''LeaseList.DeepCopy'', TPtr LeaseList_type, LeaseList_DeepCopy),
      (''LeaseList.DeepCopyObject'', TPtr LeaseList_type, LeaseList_DeepCopyObject),
      (''NetworkSpec.DeepCopy'', TPtr NetworkSpec_type, NetworkSpec_DeepCopy),
      (''NetworkStatus.DeepCopy'', TPtr NetworkStatus_type, NetworkStatus_DeepCopy),
      (''Network.DeepCopy'', TPtr Network_type, Network_DeepCopy),
      (''Network.DeepCopyObject'', TPtr Network_type, Network_DeepCopyObject),
      (''Networks.DeepCopy'', TSlice (TPtr Network_type), Networks_DeepCopy),
      (''NetworkList.DeepCopy'', TPtr NetworkList_type, NetworkList_DeepCopy),
      (''NetworkList.DeepCopyObject'', TPtr NetworkList_type, NetworkList_DeepCopyObject),
      (''PoolSpec.DeepCopy'', TPtr PoolSpec_type, PoolSpec_DeepCopy),
      (''PoolStatus.DeepCopy'', TPtr PoolStatus_type, PoolStatus_DeepCopy),
      (''Pool.DeepCopy'', TPtr Pool_type, Pool_DeepCopy),
      (''Pool.DeepCopyObject'', TPtr Pool_type, Pool_DeepCopyObject),
      (''Pools.DeepCopy'', TSlice (TPtr Pool_type), Pools_DeepCopy),
      (''PoolList.DeepCopy'', TPtr PoolList_type, PoolList_DeepCopy),
      (''PoolList.DeepCopyObject'', TPtr PoolList_type, PoolList_DeepCopyObject)]"

lemma list_copier:
  assumes c: "deep_copier c T" and C: "\<And>h v. C h v = (if v = NilV then (NilV, h) else copy_slice (copy_ptr c) h v)"
  shows "deep_copier C (TSlice (TPtr T))"
proof
  fix h v v' h' assume v: "typed (TSlice (TPtr T)) h v" and r: "C h v = (v', h')"
  show "fresh_copy (TSlice (TPtr T)) h v v' h'"
  proof (cases "v = NilV")
    case True
    with r show ?thesis by (auto simp: C fresh_copy_def)
  next
    case False
    with r deep_copier.copies [OF deep_copier.slice [OF deep_copier.pointer [OF c]] v] show ?thesis by (simp add: C)
  qed
qed

lemma list_copiers:
  "deep_copier Leases_DeepCopy (TSlice (TPtr Lease_type))"
  "deep_copier Networks_DeepCopy (TSlice (TPtr Network_type))"
  "deep_copier Pools_DeepCopy (TSlice (TPtr Pool_type))"
  by (rule list_copier [OF lease_copier.deep_copier_axioms], simp add: Leases_DeepCopy_def Leases_DeepCopyInto_def)
    (rule list_copier [OF network_copier.deep_copier_axioms], simp add: Networks_DeepCopy_def Networks_DeepCopyInto_def,
     rule list_copier [OF pool_copier.deep_copier_axioms], simp add: Pools_DeepCopy_def Pools_DeepCopyInto_def)

lemma object_copy: "(case c h v of (x, h') \<Rightarrow> if x \<noteq> NilV then (x, h') else (NilV, h')) = c h v"
  by (simp split: prod.split)

lemmas DeepCopy_defs = Condition_DeepCopy_def FailureDomainSpec_DeepCopy_def IBMPoolSpec_DeepCopy_def Taint_DeepCopy_def Toleration_DeepCopy_def LeaseSpec_DeepCopy_def LeaseStatus_DeepCopy_def Lease_DeepCopy_def LeaseList_DeepCopy_def NetworkSpec_DeepCopy_def NetworkStatus_DeepCopy_def Network_DeepCopy_def NetworkList_DeepCopy_def PoolSpec_DeepCopy_def PoolStatus_DeepCopy_def Pool_DeepCopy_def PoolList_DeepCopy_def

lemmas DeepCopyObject_defs = Lease_DeepCopyObject_def LeaseList_DeepCopyObject_def Network_DeepCopyObject_def NetworkList_DeepCopyObject_def Pool_DeepCopyObject_def PoolList_DeepCopyObject_def

lemma deep_copies_correct:
  assumes "(name, T, copy) \<in> set deep_copies" "typed T h v" "copy h v = (v', h')"
  shows "fresh_copy T h v v' h'"
proof -
  have "list_all (\<lambda>(name, T, copy). deep_copier copy T) deep_copies"
    unfolding deep_copies_def
    by (simp add: DeepCopy_defs DeepCopyObject_defs [abs_def] object_copy list_copiers copiers nested_copiers)
  then have "deep_copier copy T" using assms(1) by (auto simp: list_all_iff)
  from deep_copier.copies [OF this assms(2,3)] show ?thesis .
qed

text \<open>
  C25: Deep copies are independent: what a generated \<open>DeepCopy\<close> or \<open>DeepCopyObject\<close> returns has the content of its
  receiver and refers only to cells that it added, so that whatever is written to those cells afterwards
  leaves the original as it was. In particular the generated code covers every field that holds a reference.
\<close>

theorem deep_copy_independent:
  assumes "(name, T, copy) \<in> set deep_copies" "typed T h v" "copy h v = (v', h')" "take (length h) g = h"
  shows "same T h v h' v' \<and> list_all (\<lambda>a. length h \<le> a) (reach T h' v') \<and> same T h v g v"
proof -
  have "g = h @ drop (length h) g" using assms(4) append_take_drop_id [of "length h" g] by simp
  then have "same T h v g v"
    using same_ext [OF assms(2,2), of "[]" "drop (length h) g"] same_refl [OF assms(2)] by simp
  with deep_copies_correct [OF assms(1-3)] show ?thesis by (simp add: fresh_copy_def)
qed

section \<open>A lease in the heap\<close>

text \<open>The zero value of a type, and a lease with a map of labels and one condition.\<close>

function zero_of :: "gotype \<Rightarrow> gval" where
  "zero_of TScalar = Sc (SString [])"
| "zero_of (TPtr T) = NilV"
| "zero_of (TSlice T) = NilV"
| "zero_of TMap = NilV"
| "zero_of (TStruct fs) = Struct (map (\<lambda>(n, T). (n, zero_of T)) fs)"
  by pat_completeness auto
termination by (relation "measure size") (auto dest: size_field)

definition heap_lease :: heap where
  "heap_lease =
     [Entries [(''job-name'', SString ''e2e'')], Elems [zero_of Condition_type],
      Elems [set_field ''ObjectMeta'' (set_field ''Labels'' (Ref 0) (zero_of ObjectMeta_type))
        (set_field ''Status'' (set_field ''Conditions'' (Slc 1 0 1) (zero_of LeaseStatus_type)) (zero_of Lease_type))]]"

lemma heap_lease_copy:
  "typed (TPtr Lease_type) heap_lease (Ref 2)" "fst (Lease_DeepCopy heap_lease (Ref 2)) = Ref 5"
  "reach (TPtr Lease_type) (snd (Lease_DeepCopy heap_lease (Ref 2))) (Ref 5) = [5, 3, 4]"
  by code_simp+

theorem deep_copy_independent_witness:
  "same (TPtr Lease_type) heap_lease (Ref 2) (snd (Lease_DeepCopy heap_lease (Ref 2))) (Ref 5) \<and>
   reach (TPtr Lease_type) (snd (Lease_DeepCopy heap_lease (Ref 2))) (Ref 5) = [5, 3, 4] \<and>
   same (TPtr Lease_type) heap_lease (Ref 2) (heap_lease @ [Entries []]) (Ref 2)"
proof -
  have "(''Lease.DeepCopy'', TPtr Lease_type, Lease_DeepCopy) \<in> set deep_copies" by (simp add: deep_copies_def)
  moreover have "Lease_DeepCopy heap_lease (Ref 2) = (Ref 5, snd (Lease_DeepCopy heap_lease (Ref 2)))"
    using heap_lease_copy(2) by (simp add: prod_eq_iff)
  ultimately show ?thesis
    using deep_copy_independent [OF _ heap_lease_copy(1), of "''Lease.DeepCopy''" Lease_DeepCopy "Ref 5" _ "heap_lease @ [Entries []]"]
      heap_lease_copy(3) by simp
qed

end
